(* ===== verification/Ksqlite_Prelude.thy ===== *)
theory Ksqlite_Prelude imports
  Main
  "HOL-Library.Word"
begin

text \<open>
  Shared vocabulary of the development: the Python value types every component uses
  (text as lists of code points, byte strings as lists of 8-bit words), the exceptions
  of the program and of the libraries it calls, the effect monad the stateful
  components are written in, and the lemma collections their proofs draw on.

  An effectful operation is a function from a world to a result and a world. A result is
  a value, a raised exception, or \<open>Running\<close>: the fuel given to an unbounded loop was used
  up, that is, the code has not returned yet. \<open>Running\<close> is no exception: no handler
  catches it and no cleanup runs.
\<close>

named_theorems io_simps "unfolding of the effect combinators"
named_theorems keeps_intros "introduction rules for relations kept by an operation"

section \<open>Python text and bytes\<close>

type_synonym pystr = "nat list"
type_synonym pybytes = "8 word list"

text \<open>A literal of the source, as its code points.\<close>

definition lit :: "string \<Rightarrow> pystr" where
  "lit s = map of_char s"

lemma lit_append: "lit (s @ t) = lit s @ lit t"
  by (simp add: lit_def)

lemma lit_Nil [simp]: "lit [] = []"
  by (simp add: lit_def)

section \<open>Exceptions\<close>

text \<open>
  The taxonomy of \<^verbatim>\<open>errors.py\<close> (with the chained cause where the code chains one), and the
  exceptions of the standard library and of the clients that the code catches or lets
  through. Messages are kept only where the code inspects them (\<open>SqliteError\<close>, whose
  first argument says whether it is an \<^verbatim>\<open>OperationalError\<close>). Every Kafka exception is
  \<open>KafkaError\<close> with its error number.
\<close>

datatype exn =
    KSQLiteError "exn option"
  | ConfigError
  | SQLiteVersionError
  | SchemaMigrationError "exn option"
  | ChangelogProduceError "exn option"
  | TopicNotFoundError
  | RehydrateError "exn option"
  | HydrationError
  | LifecycleError
  | StorageError "exn option"
  | SqliteError bool pystr
  | KafkaError int
  | PoolClosedError
  | PoolConnectionAcquireTimeoutError
  | ValueError
  | UnicodeDecodeError
  | UnicodeEncodeError
  | TypeError
  | KeyError
  | IndexError
  | AttributeError
  | CancelledError
  | OtherError nat

text \<open>\<^verbatim>\<open>except\<close> clauses select by class; the two Unicode errors are \<^verbatim>\<open>ValueError\<close>s.\<close>

fun is_value_error :: "exn \<Rightarrow> bool" where
  "is_value_error ValueError = True"
| "is_value_error UnicodeDecodeError = True"
| "is_value_error UnicodeEncodeError = True"
| "is_value_error _ = False"

fun is_kafka_error :: "exn \<Rightarrow> bool" where
  "is_kafka_error (KafkaError _) = True"
| "is_kafka_error _ = False"

fun is_sqlite_error :: "exn \<Rightarrow> bool" where
  "is_sqlite_error (SqliteError _ _) = True"
| "is_sqlite_error _ = False"

fun is_storage_error :: "exn \<Rightarrow> bool" where
  "is_storage_error (StorageError _) = True"
| "is_storage_error _ = False"

text \<open>\<^verbatim>\<open>except Exception\<close> lets a cancellation through (a \<^verbatim>\<open>BaseException\<close>).\<close>

fun is_exception :: "exn \<Rightarrow> bool" where
  "is_exception CancelledError = False"
| "is_exception _ = True"

section \<open>The effect monad\<close>

datatype 'a res = Ok 'a | Exn exn | Running

type_synonym ('w, 'a) io = "'w \<Rightarrow> 'a res \<times> 'w"

definition io_ret :: "'a \<Rightarrow> ('w, 'a) io" where
  "io_ret x = (\<lambda>w. (Ok x, w))"

definition io_raise :: "exn \<Rightarrow> ('w, 'a) io" where
  "io_raise e = (\<lambda>w. (Exn e, w))"

definition io_running :: "('w, 'a) io" where
  "io_running = (\<lambda>w. (Running, w))"

definition io_bind :: "('w, 'a) io \<Rightarrow> ('a \<Rightarrow> ('w, 'b) io) \<Rightarrow> ('w, 'b) io" where
  "io_bind m f = (\<lambda>w. case m w of
     (Ok x, w') \<Rightarrow> f x w' | (Exn e, w') \<Rightarrow> (Exn e, w') | (Running, w') \<Rightarrow> (Running, w'))"

abbreviation io_seq :: "('w, 'a) io \<Rightarrow> ('w, 'b) io \<Rightarrow> ('w, 'b) io" where
  "io_seq m n \<equiv> io_bind m (\<lambda>_. n)"

text \<open>\<^verbatim>\<open>try: m except: h\<close>, where \<open>h\<close> decides what it handles and re-raises the rest.\<close>

definition io_catch :: "('w, 'a) io \<Rightarrow> (exn \<Rightarrow> ('w, 'a) io) \<Rightarrow> ('w, 'a) io" where
  "io_catch m h = (\<lambda>w. case m w of
     (Ok x, w') \<Rightarrow> (Ok x, w') | (Exn e, w') \<Rightarrow> h e w' | (Running, w') \<Rightarrow> (Running, w'))"

text \<open>The outcome of \<open>m\<close> as a value, so that the code after a \<^verbatim>\<open>try\<close> can branch on it.\<close>

definition io_attempt :: "('w, 'a) io \<Rightarrow> ('w, exn + 'a) io" where
  "io_attempt m = (\<lambda>w. case m w of
     (Ok x, w') \<Rightarrow> (Ok (Inr x), w') | (Exn e, w') \<Rightarrow> (Ok (Inl e), w')
   | (Running, w') \<Rightarrow> (Running, w'))"

text \<open>\<^verbatim>\<open>try: m finally: c\<close>: an exception of \<open>c\<close> replaces the outcome of \<open>m\<close>.\<close>

definition io_finally :: "('w, 'a) io \<Rightarrow> ('w, unit) io \<Rightarrow> ('w, 'a) io" where
  "io_finally m c = (\<lambda>w. case m w of
     (Ok x, w') \<Rightarrow> io_seq c (io_ret x) w'
   | (Exn e, w') \<Rightarrow> io_seq c (io_raise e) w'
   | (Running, w') \<Rightarrow> (Running, w'))"

definition io_gets :: "('w \<Rightarrow> 'a) \<Rightarrow> ('w, 'a) io" where
  "io_gets f = (\<lambda>w. (Ok (f w), w))"

definition io_modify :: "('w \<Rightarrow> 'w) \<Rightarrow> ('w, unit) io" where
  "io_modify f = (\<lambda>w. (Ok (), f w))"

definition io_when :: "bool \<Rightarrow> ('w, unit) io \<Rightarrow> ('w, unit) io" where
  "io_when b m = (if b then m else io_ret ())"

text \<open>\<^verbatim>\<open>for x in xs: f(x)\<close>\<close>

primrec io_for :: "('a \<Rightarrow> ('w, unit) io) \<Rightarrow> 'a list \<Rightarrow> ('w, unit) io" where
  "io_for f [] = io_ret ()"
| "io_for f (x # xs) = io_seq (f x) (io_for f xs)"

declare io_ret_def [io_simps] io_raise_def [io_simps] io_running_def [io_simps]
  io_bind_def [io_simps] io_catch_def [io_simps] io_attempt_def [io_simps]
  io_finally_def [io_simps] io_gets_def [io_simps] io_modify_def [io_simps]
  io_when_def [io_simps]

lemma io_bind_ret [simp]: "io_bind (io_ret x) f = f x"
  by (simp add: io_simps)

lemma io_bind_ret_right [simp]: "io_bind m io_ret = m"
  by (rule ext) (simp add: io_simps split: prod.split res.split)

lemma io_bind_assoc: "io_bind (io_bind m f) g = io_bind m (\<lambda>x. io_bind (f x) g)"
  by (rule ext) (simp add: io_simps split: prod.split res.split)

lemma io_bind_raise [simp]: "io_bind (io_raise e) f = io_raise e"
  by (simp add: io_simps)

lemma io_catch_ret [simp]: "io_catch (io_ret x) h = io_ret x"
  by (simp add: io_simps)

lemma io_catch_raise [simp]: "io_catch (io_raise e) h = h e"
  by (simp add: io_simps)

lemma io_for_append: "io_for f (xs @ ys) = io_seq (io_for f xs) (io_for f ys)"
  by (induction xs) (simp_all add: io_bind_assoc)

section \<open>Weakest preconditions\<close>

text \<open>
  \<open>wp m Q w\<close>: running \<open>m\<close> from \<open>w\<close> ends in a result and a world that satisfy \<open>Q\<close>.
  The rules turn a goal about a composed operation into goals about its parts.
\<close>

definition wp :: "('w, 'a) io \<Rightarrow> ('a res \<Rightarrow> 'w \<Rightarrow> bool) \<Rightarrow> 'w \<Rightarrow> bool" where
  "wp m Q w = (case m w of (r, w') \<Rightarrow> Q r w')"

lemma wpI: "(\<And>r w'. m w = (r, w') \<Longrightarrow> Q r w') \<Longrightarrow> wp m Q w"
  by (simp add: wp_def split: prod.split)

lemma wpD: "wp m Q w \<Longrightarrow> m w = (r, w') \<Longrightarrow> Q r w'"
  by (simp add: wp_def)

lemma wp_mono: "wp m P w \<Longrightarrow> (\<And>r w'. P r w' \<Longrightarrow> Q r w') \<Longrightarrow> wp m Q w"
  by (auto simp: wp_def split: prod.splits)

lemma wp_conj: "wp m P w \<Longrightarrow> wp m Q w \<Longrightarrow> wp m (\<lambda>r w'. P r w' \<and> Q r w') w"
  by (auto simp: wp_def split: prod.splits)

lemma wp_ret [simp]: "wp (io_ret x) Q w = Q (Ok x) w"
  by (simp add: wp_def io_simps)

lemma wp_raise [simp]: "wp (io_raise e) Q w = Q (Exn e) w"
  by (simp add: wp_def io_simps)

lemma wp_running [simp]: "wp io_running Q w = Q Running w"
  by (simp add: wp_def io_simps)

lemma wp_gets [simp]: "wp (io_gets f) Q w = Q (Ok (f w)) w"
  by (simp add: wp_def io_simps)

lemma wp_modify [simp]: "wp (io_modify f) Q w = Q (Ok ()) (f w)"
  by (simp add: wp_def io_simps)

lemma wp_bind [simp]:
  "wp (io_bind m f) Q w =
   wp m (\<lambda>r w'. case r of Ok x \<Rightarrow> wp (f x) Q w' | Exn e \<Rightarrow> Q (Exn e) w' | Running \<Rightarrow> Q Running w') w"
  by (simp add: wp_def io_simps split: prod.split res.split)

lemma wp_catch [simp]:
  "wp (io_catch m h) Q w =
   wp m (\<lambda>r w'. case r of Ok x \<Rightarrow> Q (Ok x) w' | Exn e \<Rightarrow> wp (h e) Q w' | Running \<Rightarrow> Q Running w') w"
  by (simp add: wp_def io_simps split: prod.split res.split)

lemma wp_attempt [simp]:
  "wp (io_attempt m) Q w =
   wp m (\<lambda>r w'. case r of Ok x \<Rightarrow> Q (Ok (Inr x)) w' | Exn e \<Rightarrow> Q (Ok (Inl e)) w'
                 | Running \<Rightarrow> Q Running w') w"
  by (simp add: wp_def io_simps split: prod.split res.split)

lemma wp_finally [simp]:
  "wp (io_finally m c) Q w =
   wp m (\<lambda>r w'. case r of
       Ok x \<Rightarrow> wp c (\<lambda>s v. case s of Ok _ \<Rightarrow> Q (Ok x) v | Exn e \<Rightarrow> Q (Exn e) v | Running \<Rightarrow> Q Running v) w'
     | Exn e \<Rightarrow> wp c (\<lambda>s v. case s of Ok _ \<Rightarrow> Q (Exn e) v | Exn e' \<Rightarrow> Q (Exn e') v | Running \<Rightarrow> Q Running v) w'
     | Running \<Rightarrow> Q Running w') w"
  by (simp add: wp_def io_simps split: prod.split res.split)

lemma wp_when [simp]:
  "wp (io_when b m) Q w = (if b then wp m Q w else Q (Ok ()) w)"
  by (simp add: io_when_def)

lemma wp_bind_ok:
  "wp m (\<lambda>r w'. r = Ok x \<and> P w') w \<Longrightarrow> (\<And>w'. P w' \<Longrightarrow> wp (f x) Q w') \<Longrightarrow> wp (io_bind m f) Q w"
  by (simp add: wp_def io_bind_def case_prod_beta)

lemma wp_catch_ok:
  "wp m (\<lambda>r w'. r = Ok x \<and> P w') w \<Longrightarrow> wp (io_catch m h) (\<lambda>r w'. r = Ok x \<and> P w') w"
  by (simp add: wp_def io_catch_def case_prod_beta)

lemma wp_finally_ok:
  "wp m (\<lambda>r w'. r = Ok x \<and> P w') w \<Longrightarrow> (\<And>w'. P w' \<Longrightarrow> wp c (\<lambda>r w''. r = Ok () \<and> Q w'') w') \<Longrightarrow>
   wp (io_finally m c) (\<lambda>r w'. r = Ok x \<and> Q w') w"
  by (auto simp: wp_def io_finally_def io_bind_def io_ret_def case_prod_beta)

section \<open>Relations kept by an operation\<close>

text \<open>
  \<open>keeps R m\<close>: every run of \<open>m\<close>, whatever its outcome, relates the world before to the
  world after by \<open>R\<close>. For a preorder \<open>R\<close> this is closed under all the combinators.
\<close>

definition keeps :: "('w \<Rightarrow> 'w \<Rightarrow> bool) \<Rightarrow> ('w, 'a) io \<Rightarrow> bool" where
  "keeps R m = (\<forall>w. R w (snd (m w)))"

lemma keepsI: "(\<And>w r w'. m w = (r, w') \<Longrightarrow> R w w') \<Longrightarrow> keeps R m"
  by (simp add: keeps_def) (metis prod.collapse)

lemma keepsD: "keeps R m \<Longrightarrow> m w = (r, w') \<Longrightarrow> R w w'"
  by (simp add: keeps_def) (metis snd_conv)

lemma keeps_wp: "keeps R m \<Longrightarrow> wp m (\<lambda>r w'. R w w') w"
  by (simp add: keeps_def wp_def case_prod_beta)

locale preorder_rel =
  fixes R :: "'w \<Rightarrow> 'w \<Rightarrow> bool"
  assumes rrefl: "R w w"
    and rtrans: "R u v \<Longrightarrow> R v w \<Longrightarrow> R u w"
begin

lemma keeps_ret: "keeps R (io_ret x)"
  by (simp add: keeps_def io_simps rrefl)

lemma keeps_raise: "keeps R (io_raise e)"
  by (simp add: keeps_def io_simps rrefl)

lemma keeps_running: "keeps R io_running"
  by (simp add: keeps_def io_simps rrefl)

lemma keeps_gets: "keeps R (io_gets f)"
  by (simp add: keeps_def io_simps rrefl)

lemma keeps_modify: "(\<And>w. R w (f w)) \<Longrightarrow> keeps R (io_modify f)"
  by (simp add: keeps_def io_simps)

lemma keeps_bind: "keeps R m \<Longrightarrow> (\<And>x. keeps R (f x)) \<Longrightarrow> keeps R (io_bind m f)"
  by (rule keepsI) (auto simp: io_simps split: prod.splits res.splits dest: keepsD intro: rtrans)

lemma keeps_bind_result:
  assumes m: "keeps R m" and f: "\<And>w x w'. m w = (Ok x, w') \<Longrightarrow> keeps R (f x)"
  shows "keeps R (io_bind m f)"
proof (rule keepsI)
  fix w r w' assume run: "io_bind m f w = (r, w')"
  obtain q u where u: "m w = (q, u)" by fastforce
  show "R w w'"
  proof (cases q)
    case (Ok x)
    with run u have "f x u = (r, w')" by (simp add: io_bind_def)
    with keepsD [OF m u] keepsD [OF f [OF u [unfolded Ok]]] show ?thesis by (blast intro: rtrans)
  qed (use run u keepsD [OF m u] in \<open>auto simp: io_bind_def\<close>)
qed

lemma keeps_catch: "keeps R m \<Longrightarrow> (\<And>e. keeps R (h e)) \<Longrightarrow> keeps R (io_catch m h)"
  by (rule keepsI) (auto simp: io_simps split: prod.splits res.splits dest: keepsD intro: rtrans)

lemma keeps_attempt: "keeps R m \<Longrightarrow> keeps R (io_attempt m)"
  by (rule keepsI) (auto simp: io_simps split: prod.splits res.splits dest: keepsD)

lemma keeps_finally: "keeps R m \<Longrightarrow> keeps R c \<Longrightarrow> keeps R (io_finally m c)"
  by (rule keepsI) (auto simp: io_simps split: prod.splits res.splits dest!: keepsD intro: rtrans)

lemma keeps_when: "keeps R m \<Longrightarrow> keeps R (io_when b m)"
  by (simp add: io_when_def keeps_ret)

lemma keeps_for: "(\<And>x. keeps R (f x)) \<Longrightarrow> keeps R (io_for f xs)"
  by (induction xs) (auto intro: keeps_ret keeps_bind)

lemmas keeps_combinators =
  keeps_ret keeps_raise keeps_running keeps_gets keeps_bind keeps_catch keeps_attempt
  keeps_finally keeps_when keeps_for

end

section \<open>Operations that return\<close>

text \<open>\<open>halts m\<close>: \<open>m\<close> returns or raises from every world; no loop of it runs out of fuel.\<close>

definition halts :: "('w, 'a) io \<Rightarrow> bool" where
  "halts m = (\<forall>w. fst (m w) \<noteq> Running)"

named_theorems halts_intros "introduction rules for operations that return"

lemma haltsI: "(\<And>w r w'. m w = (r, w') \<Longrightarrow> r \<noteq> Running) \<Longrightarrow> halts m"
  by (simp add: halts_def) (metis prod.collapse)

lemma haltsD: "halts m \<Longrightarrow> m w = (r, w') \<Longrightarrow> r \<noteq> Running"
  by (simp add: halts_def) (metis fst_conv)

lemma halts_wp: "halts m \<Longrightarrow> wp m (\<lambda>r w'. r \<noteq> Running) w"
  by (simp add: halts_def wp_def case_prod_beta)

lemma halts_ret [halts_intros]: "halts (io_ret x)"
  by (simp add: halts_def io_simps)

lemma halts_raise [halts_intros]: "halts (io_raise e)"
  by (simp add: halts_def io_simps)

lemma halts_gets [halts_intros]: "halts (io_gets f)"
  by (simp add: halts_def io_simps)

lemma halts_modify [halts_intros]: "halts (io_modify f)"
  by (simp add: halts_def io_simps)

lemma halts_bind [halts_intros]: "halts m \<Longrightarrow> (\<And>x. halts (f x)) \<Longrightarrow> halts (io_bind m f)"
  by (rule haltsI) (auto simp: io_simps split: prod.splits res.splits dest: haltsD)

lemma halts_catch [halts_intros]: "halts m \<Longrightarrow> (\<And>e. halts (h e)) \<Longrightarrow> halts (io_catch m h)"
  by (rule haltsI) (auto simp: io_simps split: prod.splits res.splits dest: haltsD)

lemma halts_attempt [halts_intros]: "halts m \<Longrightarrow> halts (io_attempt m)"
  by (rule haltsI) (auto simp: io_simps split: prod.splits res.splits dest: haltsD)

lemma halts_finally [halts_intros]: "halts m \<Longrightarrow> halts c \<Longrightarrow> halts (io_finally m c)"
  by (rule haltsI) (auto simp: io_simps split: prod.splits res.splits dest: haltsD)

lemma halts_when [halts_intros]: "halts m \<Longrightarrow> halts (io_when b m)"
  by (simp add: io_when_def halts_ret)

lemma halts_if [halts_intros]:
  "(b \<Longrightarrow> halts m) \<Longrightarrow> (\<not> b \<Longrightarrow> halts n) \<Longrightarrow> halts (if b then m else n)"
  by simp

lemma halts_for [halts_intros]: "(\<And>x. halts (f x)) \<Longrightarrow> halts (io_for f xs)"
  by (induction xs) (auto intro: halts_intros)

section \<open>Generic lemmas\<close>

lemma map_option_eq_Some_iff: "map_option f x = Some y \<longleftrightarrow> (\<exists>z. x = Some z \<and> y = f z)"
  by (cases x) auto

lemma those_map_Some [simp]: "those (map Some xs) = Some xs"
  by (induction xs) auto

lemma those_eq_Some_iff: "those os = Some xs \<longleftrightarrow> os = map Some xs"
  by (induction os arbitrary: xs) (auto split: option.splits simp: Cons_eq_map_conv)

lemma dropWhile_idem_id: "(\<And>x. x \<in> set xs \<Longrightarrow> \<not> P x) \<Longrightarrow> dropWhile P xs = xs"
  by (cases xs) auto

end
