(* ===== verification/Py_Text.thy ===== *)
theory Py_Text imports
  Ksqlite_Prelude
begin

text \<open>
  What the source uses of Python's \<^verbatim>\<open>str\<close> and \<^verbatim>\<open>bytes\<close>: the UTF-8 codec with its strict and
  its replacing error handler, substring tests and replacement, \<^verbatim>\<open>str(int)\<close>, the check
  \<^verbatim>\<open>uuid.UUID\<close> makes on its argument, and \<^verbatim>\<open>str.format\<close> with keyword arguments. A \<^verbatim>\<open>str\<close> is
  a list of code points, lone surrogates included; a byte string a list of 8-bit words.
\<close>

section \<open>UTF-8\<close>

definition scalar_value :: "nat \<Rightarrow> bool" where
  "scalar_value c \<longleftrightarrow> c < 0xD800 \<or> 0xDFFF < c \<and> c < 0x110000"

definition utf8_encode_one :: "nat \<Rightarrow> nat list" where
  "utf8_encode_one c =
     (if c < 0x80 then [c]
      else if c < 0x800 then [0xC0 + c div 64, 0x80 + c mod 64]
      else if c < 0x10000 then
        [0xE0 + c div 4096, 0x80 + (c div 64) mod 64, 0x80 + c mod 64]
      else [0xF0 + c div 262144, 0x80 + (c div 4096) mod 64,
            0x80 + (c div 64) mod 64, 0x80 + c mod 64])"

text \<open>\<^verbatim>\<open>s.encode("utf-8")\<close>: a surrogate raises \<^verbatim>\<open>UnicodeEncodeError\<close>.\<close>

definition utf8_encode :: "pystr \<Rightarrow> exn + pybytes" where
  "utf8_encode s =
     (if list_all scalar_value s
      then Inr (map of_nat (List.concat (map utf8_encode_one s)))
      else Inl UnicodeEncodeError)"

text \<open>
  One decoding step: the code point read, or \<open>None\<close> for an ill-formed sequence, and the
  bytes that remain. An ill-formed sequence consumes its maximal well-formed prefix; a
  truncated one at the end consumes the rest.
\<close>

definition cont_byte :: "nat \<Rightarrow> bool" where
  "cont_byte b \<longleftrightarrow> 0x80 \<le> b \<and> b < 0xC0"

definition second_byte_ok :: "nat \<Rightarrow> nat \<Rightarrow> bool" where
  "second_byte_ok b0 b1 \<longleftrightarrow> cont_byte b1
     \<and> (b0 = 0xE0 \<longrightarrow> 0xA0 \<le> b1) \<and> (b0 = 0xED \<longrightarrow> b1 < 0xA0)
     \<and> (b0 = 0xF0 \<longrightarrow> 0x90 \<le> b1) \<and> (b0 = 0xF4 \<longrightarrow> b1 < 0x90)"

fun utf8_tail :: "nat \<Rightarrow> nat \<Rightarrow> nat list \<Rightarrow> nat option \<times> nat list" where
  "utf8_tail acc 0 bs = (Some acc, bs)"
| "utf8_tail acc (Suc n) [] = (None, [])"
| "utf8_tail acc (Suc n) (b # bs) =
     (if cont_byte b then utf8_tail (acc * 64 + (b - 0x80)) n bs else (None, b # bs))"

fun utf8_multi :: "nat \<Rightarrow> nat \<Rightarrow> nat \<Rightarrow> nat list \<Rightarrow> nat option \<times> nat list" where
  "utf8_multi b0 acc n [] = (None, [])"
| "utf8_multi b0 acc n (b1 # bs) =
     (if second_byte_ok b0 b1 then utf8_tail (acc * 64 + (b1 - 0x80)) n bs else (None, b1 # bs))"

definition utf8_next :: "nat \<Rightarrow> nat list \<Rightarrow> nat option \<times> nat list" where
  "utf8_next b bs =
     (if b < 0x80 then (Some b, bs)
      else if 0xC2 \<le> b \<and> b < 0xE0 then utf8_multi b (b - 0xC0) 0 bs
      else if 0xE0 \<le> b \<and> b < 0xF0 then utf8_multi b (b - 0xE0) 1 bs
      else if 0xF0 \<le> b \<and> b < 0xF5 then utf8_multi b (b - 0xF0) 2 bs
      else (None, bs))"

lemma utf8_tail_length: "length (snd (utf8_tail acc n bs)) \<le> length bs"
  by (induction acc n bs rule: utf8_tail.induct) auto

lemma utf8_multi_length: "length (snd (utf8_multi b0 acc n bs)) \<le> length bs"
  by (cases bs) (auto intro: le_SucI utf8_tail_length)

lemma utf8_next_length: "length (snd (utf8_next b bs)) \<le> length bs"
  by (auto simp: utf8_next_def utf8_multi_length)

function utf8_items :: "nat list \<Rightarrow> nat option list" where
  "utf8_items [] = []"
| "utf8_items (b # bs) = fst (utf8_next b bs) # utf8_items (snd (utf8_next b bs))"
  by pat_completeness auto
termination
  by (relation "measure length") (auto simp: less_Suc_eq_le utf8_next_length)

text \<open>\<^verbatim>\<open>b.decode("utf-8")\<close> and \<^verbatim>\<open>b.decode("utf-8", errors="replace")\<close>.\<close>

definition utf8_decode :: "pybytes \<Rightarrow> exn + pystr" where
  "utf8_decode b =
     (case those (utf8_items (map unat b)) of None \<Rightarrow> Inl UnicodeDecodeError | Some s \<Rightarrow> Inr s)"

definition utf8_decode_replace :: "pybytes \<Rightarrow> pystr" where
  "utf8_decode_replace b =
     map (\<lambda>i. case i of None \<Rightarrow> 0xFFFD | Some c \<Rightarrow> c) (utf8_items (map unat b))"

subsection \<open>Round trips\<close>

lemma scalar_value_bound: "scalar_value c \<Longrightarrow> c < 0x110000"
  by (auto simp: scalar_value_def)

lemma second_byte_of_three:
  fixes d :: nat
  assumes "32 \<le> d" and "d < 1024" and "\<not> (864 \<le> d \<and> d < 896)"
  shows "second_byte_ok (0xE0 + d div 64) (0x80 + d mod 64)"
proof -
  have "d = 64 * (d div 64) + d mod 64" "d mod 64 < 64" by simp_all
  moreover have "d div 64 < 16" using assms(2) by simp
  ultimately show ?thesis using assms unfolding second_byte_ok_def cont_byte_def by linarith
qed

lemma second_byte_of_four:
  fixes d :: nat
  assumes "16 \<le> d" and "d < 272"
  shows "second_byte_ok (0xF0 + d div 64) (0x80 + d mod 64)"
proof -
  have "d = 64 * (d div 64) + d mod 64" "d mod 64 < 64" by simp_all
  then show ?thesis using assms unfolding second_byte_ok_def cont_byte_def by linarith
qed

lemma utf8_next_encode_four:
  assumes c: "0x10000 \<le> c" "c < 0x110000" and enc: "utf8_encode_one c = b # bs"
  shows "utf8_next b (bs @ rest) = (Some c, rest)"
proof -
  let ?d = "c div 4096"
  have d: "16 \<le> ?d" "?d < 272"
    using c by (simp_all add: less_eq_div_iff_mult_less_eq div_less_iff_less_mult)
  have "utf8_encode_one c =
      [0xF0 + ?d div 64, 0x80 + ?d mod 64, 0x80 + (c div 64) mod 64, 0x80 + c mod 64]"
    using c by (simp add: utf8_encode_one_def div_mult2_eq)
  then have b: "b = 0xF0 + ?d div 64"
    and bs: "bs = [0x80 + ?d mod 64, 0x80 + (c div 64) mod 64, 0x80 + c mod 64]"
    using enc by simp_all
  have sb: "second_byte_ok b (0x80 + ?d mod 64)" "?d div 64 < 5"
    using second_byte_of_four [OF d] d by (simp_all add: b div_less_iff_less_mult)
  have "?d = c div 64 div 64" by (simp add: div_mult2_eq)
  then have "((?d div 64 * 64 + ?d mod 64) * 64 + (c div 64) mod 64) * 64 + c mod 64 = c"
    by (metis div_mult_mod_eq)
  moreover have "utf8_next b (bs @ rest) = utf8_multi b (b - 0xF0) 2 (bs @ rest)"
    using sb(2) by (simp add: utf8_next_def b)
  ultimately show ?thesis
    using sb(1) by (simp add: bs b cont_byte_def numeral_2_eq_2)
qed

lemma utf8_next_encode_one:
  assumes "scalar_value c" and "utf8_encode_one c = b # bs"
  shows "utf8_next b (bs @ rest) = (Some c, rest)"
proof -
  consider "c < 0x80" | "0x80 \<le> c" "c < 0x800" | "0x800 \<le> c" "c < 0x10000"
    | "0x10000 \<le> c" "c < 0x110000"
    using scalar_value_bound [OF assms(1)] by (meson not_less)
  then show ?thesis
  proof cases
    case 1
    then show ?thesis using assms by (auto simp: utf8_encode_one_def utf8_next_def)
  next
    case 2
    then show ?thesis using assms
      by (auto simp: utf8_encode_one_def utf8_next_def second_byte_ok_def cont_byte_def)
  next
    case 3
    have "\<not> (0xD800 \<le> c \<and> c < 0xE000)" using assms(1) by (auto simp: scalar_value_def)
    with 3 have "32 \<le> c div 64" "c div 64 < 1024" "\<not> (864 \<le> c div 64 \<and> c div 64 < 896)"
      by (simp_all add: less_eq_div_iff_mult_less_eq div_less_iff_less_mult)
    then have "second_byte_ok (0xE0 + c div 64 div 64) (0x80 + c div 64 mod 64)"
      by (rule second_byte_of_three)
    moreover have "c div 64 div 64 * 64 + c div 64 mod 64 = c div 64" by simp
    moreover have "c div 4096 = c div 64 div 64" by (simp add: div_mult2_eq)
    ultimately show ?thesis using 3 assms
      by (auto simp: utf8_encode_one_def utf8_next_def cont_byte_def)
  next
    case 4
    then show ?thesis using assms(2) by (rule utf8_next_encode_four)
  qed
qed

lemma utf8_encode_one_nonempty: "\<exists>b bs. utf8_encode_one c = b # bs"
  by (simp add: utf8_encode_one_def)

lemma utf8_encode_one_bytes: "scalar_value c \<Longrightarrow> b \<in> set (utf8_encode_one c) \<Longrightarrow> b < 256"
  by (auto simp: utf8_encode_one_def scalar_value_def split: if_splits)

lemma utf8_items_encode:
  "list_all scalar_value s \<Longrightarrow>
   utf8_items (List.concat (map utf8_encode_one s) @ rest) = map Some s @ utf8_items rest"
proof (induction s)
  case Nil
  then show ?case by simp
next
  case (Cons c s)
  obtain b bs where e: "utf8_encode_one c = b # bs" using utf8_encode_one_nonempty by blast
  from Cons.prems have "scalar_value c" by simp
  from utf8_next_encode_one [OF this e] Cons e show ?case by simp
qed

lemma unat_bytes:
  "(\<And>b. b \<in> set bs \<Longrightarrow> b < 256) \<Longrightarrow> map (unat \<circ> (of_nat :: nat \<Rightarrow> 8 word)) bs = bs"
  by (rule map_idI) (simp add: unat_of_nat)

lemma utf8_encode_items:
  assumes "utf8_encode s = Inr b"
  shows "list_all scalar_value s" and "map unat b = List.concat (map utf8_encode_one s)"
proof -
  from assms show *: "list_all scalar_value s"
    by (auto simp: utf8_encode_def split: if_splits)
  from assms have "b = map of_nat (List.concat (map utf8_encode_one s))"
    by (auto simp: utf8_encode_def split: if_splits)
  moreover have "x < 256" if "x \<in> set (List.concat (map utf8_encode_one s))" for x
    using that * by (auto simp: list_all_iff intro: utf8_encode_one_bytes)
  ultimately show "map unat b = List.concat (map utf8_encode_one s)"
    using unat_bytes [of "List.concat (map utf8_encode_one s)"] by simp
qed

theorem utf8_decode_encode: "utf8_encode s = Inr b \<Longrightarrow> utf8_decode b = Inr s"
  using utf8_items_encode [of s "[]"] utf8_encode_items [of s b]
  by (simp add: utf8_decode_def)

lemma utf8_decode_replace_encode: "utf8_encode s = Inr b \<Longrightarrow> utf8_decode_replace b = s"
  using utf8_items_encode [of s "[]"] utf8_encode_items [of s b]
  by (simp add: utf8_decode_replace_def comp_def)

text \<open>Decoding accepts canonical encodings only: what it accepts encodes back to the same bytes.\<close>

lemma div_mod_64: "(n * 64 + (b - 0x80)) div 64 = n" "(n * 64 + (b - 0x80)) mod 64 = b - 0x80"
  if "cont_byte b" for b n :: nat
proof -
  obtain k where "b = 0x80 + k" "k < 64"
    using \<open>cont_byte b\<close> by (intro that [of "b - 0x80"]) (auto simp: cont_byte_def)
  then show "(n * 64 + (b - 0x80)) div 64 = n" "(n * 64 + (b - 0x80)) mod 64 = b - 0x80" by simp_all
qed

lemma utf8_next_canonical_three:
  assumes next_eq: "utf8_next b bs = (Some c, r)" and b: "0xE0 \<le> b" "b < 0xF0"
  shows "scalar_value c \<and> b # bs = utf8_encode_one c @ r"
proof -
  obtain b1 b2 where bs: "bs = b1 # b2 # r" and b1: "second_byte_ok b b1"
    and b2: "cont_byte b2" and c: "c = ((b - 0xE0) * 64 + (b1 - 0x80)) * 64 + (b2 - 0x80)"
    using next_eq b by (cases bs; cases "tl bs") (auto simp: utf8_next_def split: if_splits)
  have c1: "cont_byte b1" using b1 by (simp add: second_byte_ok_def)
  have d: "c div 64 = (b - 0xE0) * 64 + (b1 - 0x80)" "c mod 64 = b2 - 0x80"
    unfolding c by (rule div_mod_64 [OF b2])+
  have "c div 4096 = c div 64 div 64" by (simp add: div_mult2_eq)
  then have e: "c div 4096 = b - 0xE0" "c div 64 mod 64 = b1 - 0x80"
    by (simp_all only: d div_mod_64 [OF c1])
  have "b \<le> 236 \<or> b = 237 \<or> 238 \<le> b" by linarith
  then have "0x800 \<le> c" "c < 0x10000" "scalar_value c"
    using b b1 b2 by (auto simp: c second_byte_ok_def cont_byte_def scalar_value_def)
  then show ?thesis using b b2 c1 d e
    by (auto simp: bs utf8_encode_one_def cont_byte_def)
qed

lemma utf8_next_canonical_four:
  assumes next_eq: "utf8_next b bs = (Some c, r)" and b: "0xF0 \<le> b" "b < 0xF5"
  shows "scalar_value c \<and> b # bs = utf8_encode_one c @ r"
proof -
  obtain b1 b2 b3 where bs: "bs = b1 # b2 # b3 # r" and b1: "second_byte_ok b b1"
    and b2: "cont_byte b2" and b3: "cont_byte b3"
    and c: "c = (((b - 0xF0) * 64 + (b1 - 0x80)) * 64 + (b2 - 0x80)) * 64 + (b3 - 0x80)"
    using next_eq b
    by (cases bs; cases "tl bs"; cases "tl (tl bs)")
      (auto simp: utf8_next_def numeral_2_eq_2 split: if_splits)
  have c1: "cont_byte b1" using b1 by (simp add: second_byte_ok_def)
  have d: "c div 64 = ((b - 0xF0) * 64 + (b1 - 0x80)) * 64 + (b2 - 0x80)" "c mod 64 = b3 - 0x80"
    unfolding c by (rule div_mod_64 [OF b3])+
  have "c div 4096 = c div 64 div 64" "c div 262144 = c div 64 div 64 div 64"
    by (simp_all add: div_mult2_eq)
  then have e: "c div 262144 = b - 0xF0" "c div 4096 mod 64 = b1 - 0x80" "c div 64 mod 64 = b2 - 0x80"
    by (simp_all only: d div_mod_64 [OF b2] div_mod_64 [OF c1])
  have f: "0x10000 \<le> c" "c < 0x110000"
    using b b1 b2 b3 by (auto simp: c second_byte_ok_def cont_byte_def)
  then have "utf8_encode_one c = [0xF0 + (b - 0xF0), 0x80 + (b1 - 0x80), 0x80 + (b2 - 0x80), 0x80 + (b3 - 0x80)]"
    by (simp add: utf8_encode_one_def d(2) e)
  moreover have "0xF0 \<le> b" "0x80 \<le> b1" "0x80 \<le> b2" "0x80 \<le> b3"
    using b c1 b2 b3 by (simp_all add: cont_byte_def)
  ultimately show ?thesis using f by (simp add: bs scalar_value_def)
qed

lemma utf8_next_canonical:
  assumes next_eq: "utf8_next b bs = (Some c, r)"
  shows "scalar_value c \<and> b # bs = utf8_encode_one c @ r"
proof -
  consider "b < 0x80" | "0xC2 \<le> b" "b < 0xE0" | "0xE0 \<le> b" "b < 0xF0" | "0xF0 \<le> b" "b < 0xF5"
    using next_eq by (auto simp: utf8_next_def split: if_splits)
  then show ?thesis
  proof cases
    case 1
    then show ?thesis using next_eq by (auto simp: utf8_next_def scalar_value_def utf8_encode_one_def)
  next
    case 2
    then obtain b1 where bs: "bs = b1 # r" and b1: "cont_byte b1"
      and c: "c = (b - 0xC0) * 64 + (b1 - 0x80)"
      using next_eq by (cases bs) (auto simp: utf8_next_def second_byte_ok_def split: if_splits)
    have "0x80 \<le> c" "c < 0x800" using 2 b1 by (auto simp: c cont_byte_def)
    moreover have "c div 64 = b - 0xC0" "c mod 64 = b1 - 0x80"
      using div_mod_64 [OF b1] by (simp_all add: c)
    ultimately show ?thesis
      using 2 b1 by (auto simp: bs utf8_encode_one_def scalar_value_def cont_byte_def)
  qed (rule utf8_next_canonical_three utf8_next_canonical_four, rule next_eq, assumption, assumption)+
qed

lemma utf8_items_canonical:
  "utf8_items bs = map Some s \<Longrightarrow>
   list_all scalar_value s \<and> List.concat (map utf8_encode_one s) = bs"
proof (induction bs arbitrary: s rule: utf8_items.induct)
  case 1
  then show ?case by simp
next
  case (2 b bs)
  obtain o1 r where n: "utf8_next b bs = (o1, r)" by fastforce
  from 2 n obtain c s' where s: "s = c # s'" "o1 = Some c" "utf8_items r = map Some s'"
    by (auto simp: Cons_eq_map_conv)
  from utf8_next_canonical [of b bs c r] n s have
    "scalar_value c" "b # bs = utf8_encode_one c @ r" by simp_all
  with 2 n s show ?case by simp
qed

theorem utf8_encode_decode: "utf8_decode b = Inr s \<Longrightarrow> utf8_encode s = Inr b"
proof -
  assume "utf8_decode b = Inr s"
  then have "utf8_items (map unat b) = map Some s"
    by (auto simp: utf8_decode_def those_eq_Some_iff split: option.splits)
  from utf8_items_canonical [OF this] have
    "list_all scalar_value s" "List.concat (map utf8_encode_one s) = map unat b" by auto
  then show ?thesis by (simp add: utf8_encode_def comp_def)
qed

lemma utf8_decode_replace_one:
  "utf8_decode_replace b = [n] \<Longrightarrow> n < 0x80 \<Longrightarrow> b = [of_nat n]"
proof -
  assume *: "utf8_decode_replace b = [n]" and n: "n < 0x80"
  then obtain i where "utf8_items (map unat b) = [i]" and "(case i of None \<Rightarrow> 0xFFFD | Some c \<Rightarrow> c) = n"
    by (auto simp: utf8_decode_replace_def map_eq_Cons_conv)
  with n have "utf8_items (map unat b) = map Some [n]" by (cases i) auto
  from utf8_items_canonical [OF this] n have "map unat b = [n]"
    by (simp add: utf8_encode_one_def)
  then show ?thesis by (auto simp: map_eq_Cons_conv)
qed

text \<open>The codec as an interface: what the record format relies on.\<close>

locale text_codec =
  fixes enc :: "pystr \<Rightarrow> exn + pybytes" and dec :: "pybytes \<Rightarrow> exn + pystr"
  assumes dec_enc: "enc s = Inr b \<Longrightarrow> dec b = Inr s"
    and enc_dec: "dec b = Inr s \<Longrightarrow> enc s = Inr b"
begin

lemma enc_inject: "enc s = Inr b \<Longrightarrow> enc t = Inr b \<Longrightarrow> s = t"
  by (drule dec_enc)+ simp

lemma dec_inject: "dec a = Inr s \<Longrightarrow> dec b = Inr s \<Longrightarrow> a = b"
  by (drule enc_dec)+ simp

lemma dec_iff: "dec b = Inr s \<longleftrightarrow> enc s = Inr b"
  using dec_enc enc_dec by blast

end

interpretation utf8: text_codec utf8_encode utf8_decode
  by unfold_locales (erule utf8_decode_encode utf8_encode_decode)+

section \<open>Substrings\<close>

text \<open>\<^verbatim>\<open>s.startswith(p)\<close>, \<^verbatim>\<open>sub in s\<close> and \<^verbatim>\<open>s.replace(old, new)\<close> for a non-empty \<open>old\<close>.\<close>

fun py_startswith :: "pystr \<Rightarrow> pystr \<Rightarrow> bool" where
  "py_startswith [] s = True"
| "py_startswith (p # ps) [] = False"
| "py_startswith (p # ps) (c # s) = (p = c \<and> py_startswith ps s)"

fun py_contains :: "pystr \<Rightarrow> pystr \<Rightarrow> bool" where
  "py_contains sub [] = (sub = [])"
| "py_contains sub (c # s) = (py_startswith sub (c # s) \<or> py_contains sub s)"

function py_replace :: "pystr \<Rightarrow> pystr \<Rightarrow> pystr \<Rightarrow> pystr" where
  "py_replace old new [] = []"
| "py_replace old new (c # s) =
     (if old \<noteq> [] \<and> py_startswith old (c # s)
      then new @ py_replace old new (drop (length old) (c # s))
      else c # py_replace old new s)"
  by pat_completeness auto
termination
  by (relation "measure (\<lambda>(old, new, s). length s)") (auto simp: neq_Nil_conv)

definition py_strip :: "nat list \<Rightarrow> pystr \<Rightarrow> pystr" where
  "py_strip cs s =
     rev (dropWhile (\<lambda>c. c \<in> set cs) (rev (dropWhile (\<lambda>c. c \<in> set cs) s)))"

lemma py_startswith_iff: "py_startswith p s \<longleftrightarrow> (\<exists>t. s = p @ t)"
  by (induction p s rule: py_startswith.induct) auto

lemma py_contains_iff: "py_contains sub s \<longleftrightarrow> (\<exists>a b. s = a @ sub @ b)"
proof (induction sub s rule: py_contains.induct)
  case (1 sub)
  then show ?case by auto
next
  case (2 sub c s)
  show ?case
  proof
    assume "py_contains sub (c # s)"
    then consider "py_startswith sub (c # s)" | "py_contains sub s" by auto
    then show "\<exists>a b. c # s = a @ sub @ b"
    proof cases
      case 1
      then show ?thesis by (metis py_startswith_iff append_Nil)
    next
      case b: 2
      then show ?thesis using 2 by (metis append_Cons)
    qed
  next
    assume "\<exists>a b. c # s = a @ sub @ b"
    then show "py_contains sub (c # s)"
      using 2 by (auto simp: py_startswith_iff Cons_eq_append_conv)
  qed
qed

text \<open>\<^verbatim>\<open>str.lower\<close> on the ASCII letters, which is what the engine's messages are made of.\<close>

definition py_lower :: "pystr \<Rightarrow> pystr" where
  "py_lower s = map (\<lambda>c. if 65 \<le> c \<and> c \<le> 90 then c + 32 else c) s"

section \<open>Integers as text\<close>

text \<open>\<^verbatim>\<open>str(n)\<close>\<close>

fun digits_of :: "nat \<Rightarrow> pystr" where
  "digits_of n = (if n < 10 then [48 + n] else digits_of (n div 10) @ [48 + n mod 10])"

declare digits_of.simps [simp del]

definition py_str_int :: "int \<Rightarrow> pystr" where
  "py_str_int i = (if i < 0 then 45 # digits_of (nat (- i)) else digits_of (nat i))"

fun value_of_digits :: "nat \<Rightarrow> pystr \<Rightarrow> nat" where
  "value_of_digits acc [] = acc"
| "value_of_digits acc (d # ds) = value_of_digits (acc * 10 + (d - 48)) ds"

lemma value_of_digits_append:
  "value_of_digits acc (ds @ es) = value_of_digits (value_of_digits acc ds) es"
  by (induction acc ds rule: value_of_digits.induct) auto

lemma value_digits_of: "value_of_digits 0 (digits_of n) = n"
proof (induction n rule: digits_of.induct)
  case (1 n)
  then show ?case
    by (subst digits_of.simps) (auto simp: value_of_digits_append)
qed

lemma digits_of_digits: "c \<in> set (digits_of n) \<Longrightarrow> 48 \<le> c \<and> c \<le> 57"
proof (induction n rule: digits_of.induct)
  case (1 n)
  have "n mod 10 \<le> 9" by (simp add: less_Suc_eq_le [symmetric])
  with 1 show ?case
    by (subst (asm) (2) digits_of.simps) (auto split: if_splits)
qed

lemma digits_of_nonempty: "digits_of n \<noteq> []"
  by (subst digits_of.simps) simp

lemma py_str_int_inject: "py_str_int i = py_str_int j \<Longrightarrow> i = j"
proof -
  assume eq: "py_str_int i = py_str_int j"
  have 45: "digits_of n \<noteq> 45 # s" for n s
    using digits_of_digits [of 45 n] by auto
  have inj: "digits_of m = digits_of n \<Longrightarrow> m = n" for m n
    using value_digits_of by metis
  show ?thesis
  proof (cases "i < 0"; cases "j < 0")
    assume "i < 0" "j < 0"
    with eq have "nat (- i) = nat (- j)" by (auto simp: py_str_int_def dest: inj)
    with \<open>i < 0\<close> \<open>j < 0\<close> show ?thesis by simp
  next
    assume "\<not> i < 0" "\<not> j < 0"
    with eq have "nat i = nat j" by (auto simp: py_str_int_def dest: inj)
    with \<open>\<not> i < 0\<close> \<open>\<not> j < 0\<close> show ?thesis by simp
  qed (use eq 45 in \<open>auto simp: py_str_int_def dest: sym\<close>)
qed

lemma py_str_int_chars: "c \<in> set (py_str_int i) \<Longrightarrow> c = 45 \<or> 48 \<le> c \<and> c \<le> 57"
  by (auto simp: py_str_int_def dest: digits_of_digits split: if_splits)

lemma py_str_int_nonempty: "py_str_int i \<noteq> []"
  by (simp add: py_str_int_def digits_of_nonempty)

section \<open>The check of uuid.UUID\<close>

text \<open>
  \<^verbatim>\<open>uuid.UUID(s)\<close> removes \<^verbatim>\<open>urn:\<close>, \<^verbatim>\<open>uuid:\<close>, surrounding braces and hyphens, wants 32
  characters and hands them to \<^verbatim>\<open>int(s, 16)\<close>, which is lenient: surrounding white space,
  a sign, an \<^verbatim>\<open>0x\<close> prefix, single underscores between digits and the decimal digits of
  every script are accepted. The decimal digits are those of Unicode 14 (Python 3.11), ten
  consecutive code points from each zero.
\<close>

definition decimal_zeros :: "nat list" where
  "decimal_zeros =
    [48, 1632, 1776, 1984, 2406, 2534, 2662, 2790, 2918, 3046, 3174, 3302, 3430,
     3558, 3664, 3792, 3872, 4160, 4240, 6112, 6160, 6470, 6608, 6784, 6800, 6992,
     7088, 7232, 7248, 42528, 43216, 43264, 43472, 43504, 43600, 44016, 65296,
     66720, 68912, 69734, 69872, 69942, 70096, 70384, 70736, 70864, 71248, 71360,
     71472, 71904, 72016, 72784, 73040, 73120, 92768, 92864, 93008, 120782, 120792,
     120802, 120812, 120822, 123200, 123632, 125264, 130032]"

definition py_decimal :: "nat \<Rightarrow> nat option" where
  "py_decimal c =
     map_option (\<lambda>z. c - z) (List.find (\<lambda>z. z \<le> c \<and> c < z + 10) decimal_zeros)"

definition py_is_space :: "nat \<Rightarrow> bool" where
  "py_is_space c \<longleftrightarrow> 9 \<le> c \<and> c \<le> 13 \<or> 28 \<le> c \<and> c \<le> 32 \<or> c = 133 \<or> c = 160 \<or> c = 5760
     \<or> 8192 \<le> c \<and> c \<le> 8202 \<or> c = 8232 \<or> c = 8233 \<or> c = 8239 \<or> c = 8287 \<or> c = 12288"

definition ascii_space :: "nat \<Rightarrow> bool" where
  "ascii_space c \<longleftrightarrow> 9 \<le> c \<and> c \<le> 13 \<or> c = 32"

text \<open>Text that is not pure ASCII has its decimal digits and spaces folded to ASCII first.\<close>

definition fold_to_ascii :: "pystr \<Rightarrow> pystr" where
  "fold_to_ascii s =
     (if list_all (\<lambda>c. c < 128) s then s
      else map (\<lambda>c. if c < 127 then c else if py_is_space c then 32
                    else case py_decimal c of Some d \<Rightarrow> 48 + d | None \<Rightarrow> 63) s)"

definition hex_digit :: "nat \<Rightarrow> bool" where
  "hex_digit c \<longleftrightarrow> 48 \<le> c \<and> c \<le> 57 \<or> 97 \<le> c \<and> c \<le> 102 \<or> 65 \<le> c \<and> c \<le> 70"

fun no_double_underscore :: "pystr \<Rightarrow> bool" where
  "no_double_underscore (a # b # s) = (\<not> (a = 95 \<and> b = 95) \<and> no_double_underscore (b # s))"
| "no_double_underscore _ = True"

fun drop_sign :: "pystr \<Rightarrow> pystr" where
  "drop_sign (c # s) = (if c = 43 \<or> c = 45 then s else c # s)"
| "drop_sign [] = []"

fun drop_hex_prefix :: "pystr \<Rightarrow> pystr" where
  "drop_hex_prefix (z # x # s) =
     (if z = 48 \<and> (x = 120 \<or> x = 88)
      then (case s of u # t \<Rightarrow> if u = 95 then t else s | [] \<Rightarrow> s) else z # x # s)"
| "drop_hex_prefix s = s"

text \<open>Does \<^verbatim>\<open>int(s, 16)\<close> succeed?\<close>

definition py_int16_ok :: "pystr \<Rightarrow> bool" where
  "py_int16_ok s =
     (let t = drop_hex_prefix (drop_sign (dropWhile ascii_space (fold_to_ascii s)));
          ds = takeWhile (\<lambda>c. hex_digit c \<or> c = 95) t;
          rest = dropWhile (\<lambda>c. hex_digit c \<or> c = 95) t
      in ds \<noteq> [] \<and> hd ds \<noteq> 95 \<and> last ds \<noteq> 95 \<and> no_double_underscore ds
         \<and> list_all ascii_space rest)"

definition uuid_ok :: "pystr \<Rightarrow> bool" where
  "uuid_ok s =
     (let h = py_replace (lit ''uuid:'') [] (py_replace (lit ''urn:'') [] s);
          d = py_replace (lit ''-'') [] (py_strip (lit ''{}'') h)
      in length d = 32 \<and> py_int16_ok d)"

text \<open>The canonical 36-character form passes.\<close>

definition lower_hex :: "nat \<Rightarrow> bool" where
  "lower_hex c \<longleftrightarrow> 48 \<le> c \<and> c \<le> 57 \<or> 97 \<le> c \<and> c \<le> 102"

definition canonical_uuid :: "pystr \<Rightarrow> bool" where
  "canonical_uuid s \<longleftrightarrow>
     length s = 36 \<and> list_all (\<lambda>c. lower_hex c \<or> c = 45) s
     \<and> length (filter lower_hex s) = 32 \<and> hd s \<noteq> 45"

lemma py_replace_absent:
  "old \<noteq> [] \<Longrightarrow> hd old \<notin> set s \<Longrightarrow> py_replace old new s = s"
proof (induction old new s rule: py_replace.induct)
  case (1 old new)
  then show ?case by simp
next
  case (2 old new c s)
  then have "\<not> py_startswith old (c # s)" by (cases old) auto
  with 2 show ?case by simp
qed

lemma py_replace_single: "py_replace [x] [] s = filter (\<lambda>c. c \<noteq> x) s"
  by (induction s) auto

lemma no_double_underscore_absent: "95 \<notin> set s \<Longrightarrow> no_double_underscore s"
  by (induction s rule: no_double_underscore.induct) auto

lemma lit_codes:
  "lit ''urn:'' = [117, 114, 110, 58]" "lit ''uuid:'' = [117, 117, 105, 100, 58]"
  "lit ''{}'' = [123, 125]" "lit ''-'' = [45]"
  by (simp_all add: lit_def)

lemma dropWhile_cons_id: "xs \<noteq> [] \<Longrightarrow> \<not> P (hd xs) \<Longrightarrow> dropWhile P xs = xs"
  by (cases xs) auto

lemma py_int16_ok_lower_hex:
  assumes "list_all lower_hex d" and "d \<noteq> []"
  shows "py_int16_ok d"
proof -
  have all: "\<forall>c\<in>set d. lower_hex c" using assms(1) by (simp add: list_all_iff)
  have 1: "fold_to_ascii d = d"
    using all by (force simp: fold_to_ascii_def list_all_iff lower_hex_def)
  have 2: "dropWhile ascii_space d = d"
    using all by (intro dropWhile_idem_id) (fastforce simp: ascii_space_def lower_hex_def)
  have 3: "drop_sign d = d"
    using all assms(2) by (cases d) (auto simp: lower_hex_def)
  have 4: "drop_hex_prefix d = d"
    using all by (cases d rule: drop_hex_prefix.cases) (auto simp: lower_hex_def)
  have hexd: "hex_digit c" if "c \<in> set d" for c
    using bspec [OF all that] by (auto simp: hex_digit_def lower_hex_def)
  then have 5: "takeWhile (\<lambda>c. hex_digit c \<or> c = 95) d = d"
    "dropWhile (\<lambda>c. hex_digit c \<or> c = 95) d = []"
    by (auto simp: takeWhile_eq_all_conv dropWhile_eq_Nil_conv)
  have no95: "95 \<notin> set d" using all by (auto simp: lower_hex_def)
  then have "hd d \<noteq> 95" "last d \<noteq> 95" using assms(2) by (metis hd_in_set last_in_set)+
  then show ?thesis
    using assms(2) no95 by (simp add: py_int16_ok_def Let_def 1 2 3 4 5 no_double_underscore_absent)
qed

lemma canonical_uuid_ok: "canonical_uuid s \<Longrightarrow> uuid_ok s"
proof -
  assume c: "canonical_uuid s"
  then have all: "\<And>c. c \<in> set s \<Longrightarrow> lower_hex c \<or> c = 45"
    by (auto simp: canonical_uuid_def list_all_iff)
  have absent: "117 \<notin> set s" "123 \<notin> set s" "125 \<notin> set s"
    using all by (fastforce simp: lower_hex_def)+
  have strip: "py_strip [123, 125] s = s"
    using absent unfolding py_strip_def
    by (subst dropWhile_idem_id, force, subst dropWhile_idem_id, force) simp
  have f: "filter (\<lambda>c. c \<noteq> 45) s = filter lower_hex s"
    using all by (intro filter_cong) (auto simp: lower_hex_def)
  have "py_int16_ok (filter lower_hex s)"
    using c by (intro py_int16_ok_lower_hex) (auto simp: list_all_iff canonical_uuid_def)
  then show ?thesis
    using c absent by (simp add: uuid_ok_def Let_def lit_codes py_replace_absent strip
        py_replace_single f canonical_uuid_def)
qed

lemma canonical_uuid_scalar: "canonical_uuid s \<Longrightarrow> list_all scalar_value s"
  by (auto simp: canonical_uuid_def list_all_iff lower_hex_def scalar_value_def)

section \<open>str.format\<close>

text \<open>
  \<^verbatim>\<open>template.format(source_topic=..., partition=...)\<close>. The scanner is the one of the
  standard library: doubled braces are literals, a field runs to its closing brace, with
  an optional conversion after \<^verbatim>\<open>!\<close> and an optional format spec after \<^verbatim>\<open>:\<close>, in which braces
  nest. There are no positional arguments, so an empty or numeric name raises
  \<^verbatim>\<open>IndexError\<close>; an unknown name raises \<^verbatim>\<open>KeyError\<close>. What attribute or item access, a
  conversion or a format spec make of the two arguments is the parameter \<open>ext\<close>, which gets
  the name, the accessors, the conversion, the spec and the two arguments.
\<close>

type_synonym fmt_ext =
  "pystr \<Rightarrow> pystr \<Rightarrow> nat option \<Rightarrow> pystr \<Rightarrow> pystr \<Rightarrow> int \<Rightarrow> exn + pystr"

text \<open>The field name: up to \<^verbatim>\<open>}\<close>, \<^verbatim>\<open>:\<close> or \<^verbatim>\<open>!\<close>, skipping over bracketed items.\<close>

fun field_name :: "bool \<Rightarrow> pystr \<Rightarrow> exn + (pystr \<times> nat \<times> pystr)" where
  "field_name br [] = Inl ValueError"
| "field_name br (c # s) =
     (if br then (case field_name (c \<noteq> 93) s of Inl e \<Rightarrow> Inl e | Inr (n, t, r) \<Rightarrow> Inr (c # n, t, r))
      else if c = 123 then Inl ValueError
      else if c = 125 \<or> c = 58 \<or> c = 33 then Inr ([], c, s)
      else (case field_name (c = 91) s of Inl e \<Rightarrow> Inl e | Inr (n, t, r) \<Rightarrow> Inr (c # n, t, r)))"

fun field_spec :: "nat \<Rightarrow> pystr \<Rightarrow> exn + (pystr \<times> pystr)" where
  "field_spec depth [] = Inl ValueError"
| "field_spec depth (c # s) =
     (if c = 125 \<and> depth = 0 then Inr ([], s)
      else (case field_spec (if c = 123 then Suc depth else if c = 125 then depth - 1 else depth) s of
              Inl e \<Rightarrow> Inl e | Inr (p, r) \<Rightarrow> Inr (c # p, r)))"

text \<open>Name, conversion, spec and the rest of the template after a field's opening brace.\<close>

definition parse_field :: "pystr \<Rightarrow> exn + (pystr \<times> nat option \<times> pystr \<times> pystr)" where
  "parse_field s =
     (case field_name False s of
        Inl e \<Rightarrow> Inl e
      | Inr (n, t, r) \<Rightarrow>
          if t = 125 then Inr (n, None, [], r)
          else if t = 58 then
            (case field_spec 0 r of Inl e \<Rightarrow> Inl e | Inr (p, r') \<Rightarrow> Inr (n, None, p, r'))
          else (case r of
              c # d # r' \<Rightarrow>
                if d = 125 then Inr (n, Some c, [], r')
                else if d = 58 then
                  (case field_spec 0 r' of Inl e \<Rightarrow> Inl e | Inr (p, r'') \<Rightarrow> Inr (n, Some c, p, r''))
                else Inl ValueError
            | _ \<Rightarrow> Inl ValueError))"

definition field_value ::
    "fmt_ext \<Rightarrow> pystr \<Rightarrow> nat option \<Rightarrow> pystr \<Rightarrow> pystr \<Rightarrow> int \<Rightarrow> exn + pystr" where
  "field_value ext name conv spec topic part =
     (let first = takeWhile (\<lambda>c. c \<noteq> 46 \<and> c \<noteq> 91) name;
          acc = dropWhile (\<lambda>c. c \<noteq> 46 \<and> c \<noteq> 91) name
      in if list_all (\<lambda>c. py_decimal c \<noteq> None) first then Inl IndexError
         else if first \<noteq> lit ''source_topic'' \<and> first \<noteq> lit ''partition'' then Inl KeyError
         else if acc \<noteq> [] \<or> conv \<noteq> None \<or> spec \<noteq> [] then ext first acc conv spec topic part
         else if first = lit ''source_topic'' then Inr topic
         else Inr (py_str_int part))"

lemma field_name_length:
  "field_name br s = Inr (n, t, r) \<Longrightarrow> length r < length s"
  by (induction br s arbitrary: n t r rule: field_name.induct)
    (auto split: if_splits sum.splits prod.splits intro: less_SucI)

lemma field_spec_length: "field_spec d s = Inr (p, r) \<Longrightarrow> length r < length s"
  by (induction d s arbitrary: p r rule: field_spec.induct)
    (auto split: if_splits sum.splits prod.splits intro: less_SucI)

lemma parse_field_length: "parse_field s = Inr (n, c, p, r) \<Longrightarrow> length r < length s"
  by (auto simp: parse_field_def split: sum.splits prod.splits if_splits list.splits
      dest!: field_name_length field_spec_length)

function py_format :: "fmt_ext \<Rightarrow> pystr \<Rightarrow> int \<Rightarrow> pystr \<Rightarrow> exn + pystr" where
  "py_format ext topic part [] = Inr []"
| "py_format ext topic part (c # s) =
     (if c = 123 then
        (case s of
           [] \<Rightarrow> Inl ValueError
         | d # s' \<Rightarrow>
             if d = 123 then map_sum id (Cons 123) (py_format ext topic part s')
             else (case parse_field s of
                Inl e \<Rightarrow> Inl e
              | Inr (name, conv, spec, r) \<Rightarrow>
                  (case field_value ext name conv spec topic part of
                     Inl e \<Rightarrow> Inl e
                   | Inr v \<Rightarrow> map_sum id (append v) (py_format ext topic part r))))
      else if c = 125 then
        (case s of
           [] \<Rightarrow> Inl ValueError
         | d # s' \<Rightarrow>
             if d = 125 then map_sum id (Cons 125) (py_format ext topic part s')
             else Inl ValueError)
      else map_sum id (Cons c) (py_format ext topic part s))"
  by pat_completeness auto
termination
  by (relation "measure (\<lambda>(ext, topic, part, s). length s)")
    (auto dest!: parse_field_length sym [of "Inr _"] split: sum.splits)

lemma map_sum_append_Nil: "map_sum id (append []) x = x"
  by (cases x) auto

lemma map_sum_append_Cons: "map_sum id (append (c # a)) x = map_sum id (Cons c) (map_sum id (append a) x)"
  by (cases x) auto

lemma py_format_literal:
  "123 \<notin> set a \<Longrightarrow> 125 \<notin> set a \<Longrightarrow>
   py_format ext topic part (a @ s) = map_sum id (append a) (py_format ext topic part s)"
  by (induction a) (auto simp: map_sum_append_Nil map_sum_append_Cons)

lemma field_name_plain:
  "set n \<inter> {123, 125, 58, 33, 91} = {} \<Longrightarrow> field_name False (n @ 125 # s) = Inr (n, 125, s)"
  by (induction n) auto

lemma py_format_field:
  assumes "set n \<inter> {123, 125, 58, 33, 91} = {}" and "n \<noteq> []"
  shows "py_format ext topic part (123 # n @ 125 # s) =
    (case field_value ext n None [] topic part of
       Inl e \<Rightarrow> Inl e | Inr v \<Rightarrow> map_sum id (append v) (py_format ext topic part s))"
proof -
  obtain d n' where n: "n = d # n'" using assms(2) by (cases n) auto
  have "parse_field (n @ 125 # s) = Inr (n, None, [], s)"
    using field_name_plain [OF assms(1), of s] by (simp add: parse_field_def)
  moreover have "d \<noteq> 123" using assms(1) by (auto simp: n)
  ultimately show ?thesis by (simp add: n)
qed

end
