(* ===== verification/Ksqlite_Types.thy ===== *)
theory Ksqlite_Types imports
  Ksqlite_Prelude
begin

text \<open>
  The value types of \<^verbatim>\<open>types.py\<close> and of the client libraries: topic partitions, declared
  columns and indexes, the four partition states and the public snapshot of one
  partition. The contract two checkpoint stores share (the table
  \<^verbatim>\<open>partition_checkpoint\<close> and the in-memory machine) is stated here as a locale.
\<close>

section \<open>Topic partitions\<close>

record topic_partition =
  tp_topic :: pystr
  tp_partition :: int

section \<open>Declared columns and indexes\<close>

record generated_column =
  col_name :: pystr
  col_json_path :: pystr
  col_sql_type :: pystr

text \<open>\<^verbatim>\<open>Index.__post_init__\<close> snapshots the columns; a list value is such a snapshot.\<close>

record index_decl =
  ix_name :: pystr
  ix_columns :: "pystr list"
  ix_unique :: bool

section \<open>Partition states\<close>

datatype partition_status = RESTORING | READY | READY_PARTIAL | STANDBY

record partition_state =
  ps_state :: partition_status
  ps_checkpoint_offset :: "int option"
  ps_log_end_offset :: "int option"
  ps_lag :: "int option"

text \<open>The states in which the reference documents a partition's rows as visible.\<close>

fun revealed_status :: "partition_status \<Rightarrow> bool" where
  "revealed_status READY = True"
| "revealed_status READY_PARTIAL = True"
| "revealed_status _ = False"

section \<open>Checkpoint stores\<close>

text \<open>
  Both homes of a checkpoint offer the same two writes: a monotonic advance and an
  unconditional clamp. \<open>cp_effect\<close> is what a write does to the map of checkpoints.
\<close>

datatype cp_op = Advance topic_partition int | Clamp topic_partition int

definition advanced :: "int option \<Rightarrow> int \<Rightarrow> int" where
  "advanced c n = (case c of None \<Rightarrow> n | Some m \<Rightarrow> max m n)"

fun cp_effect ::
    "cp_op \<Rightarrow> (topic_partition \<rightharpoonup> int) \<Rightarrow> (topic_partition \<rightharpoonup> int)" where
  "cp_effect (Advance k n) m = m(k \<mapsto> advanced (m k) n)"
| "cp_effect (Clamp k n) m = m(k \<mapsto> n)"

lemma advanced_simps [simp]:
  "advanced None n = n" "advanced (Some m) n = max m n"
  by (simp_all add: advanced_def)

lemma advanced_ge: "n \<le> advanced c n" "c = Some m \<Longrightarrow> m \<le> advanced c n"
  by (auto simp: advanced_def split: option.split)

locale checkpoint_store =
  fixes look :: "'s \<Rightarrow> topic_partition \<Rightarrow> int option"
    and advance :: "'s \<Rightarrow> topic_partition \<Rightarrow> int \<Rightarrow> 's"
    and clamp :: "'s \<Rightarrow> topic_partition \<Rightarrow> int \<Rightarrow> 's"
  assumes look_advance: "look (advance s k n) = (look s)(k \<mapsto> advanced (look s k) n)"
    and look_clamp: "look (clamp s k n) = (look s)(k \<mapsto> n)"
begin

fun exec :: "cp_op \<Rightarrow> 's \<Rightarrow> 's" where
  "exec (Advance k n) s = advance s k n"
| "exec (Clamp k n) s = clamp s k n"

lemma look_exec: "look (exec x s) = cp_effect x (look s)"
  by (cases x) (simp_all add: look_advance look_clamp)

lemma look_run: "look (fold exec xs s) = fold cp_effect xs (look s)"
  by (induction xs arbitrary: s) (simp_all add: look_exec)

lemma advance_monotone: "look s k = Some c \<Longrightarrow> \<exists>d. look (advance s k' n) k = Some d \<and> c \<le> d"
  by (auto simp: look_advance advanced_def)

lemma run_monotone:
  "look s k = Some c \<Longrightarrow> (\<And>x. x \<in> set xs \<Longrightarrow> \<exists>k n. x = Advance k n) \<Longrightarrow>
   \<exists>d. look (fold exec xs s) k = Some d \<and> c \<le> d"
proof (induction xs arbitrary: s c)
  case Nil
  then show ?case by simp
next
  case (Cons x xs)
  obtain k' n where x: "x = Advance k' n" using Cons.prems(2) [of x] by auto
  obtain d where d: "look (exec x s) k = Some d" "c \<le> d"
    using advance_monotone [OF Cons.prems(1), of k' n] by (auto simp: x)
  from Cons.IH [OF d(1)] Cons.prems(2) d(2) show ?case by fastforce
qed

lemma advance_twice: "look (advance (advance s k m) k n) = look (advance s k (max m n))"
  by (auto simp: look_advance advanced_def fun_eq_iff split: option.split)

lemma advance_absorbed: "look s k = Some c \<Longrightarrow> n \<le> c \<Longrightarrow> look (advance s k n) = look s"
  by (auto simp: look_advance advanced_def fun_eq_iff)

end

end
