(* ===== verification/Sql_Text.thy ===== *)
theory Sql_Text imports
  Py_Text
  Ksqlite_Types
begin

text \<open>
  The pure module \<^verbatim>\<open>_sql.py\<close>: validation of identifiers, JSON paths, topic names and the
  changelog template, escaping of string literals and emission of DDL text. A validator
  returns \<open>Inr ()\<close> or the exception it raises.
\<close>

section \<open>Definitions\<close>

definition ident_start :: "nat \<Rightarrow> bool" where
  "ident_start c \<longleftrightarrow> 65 \<le> c \<and> c \<le> 90 \<or> 97 \<le> c \<and> c \<le> 122 \<or> c = 95"

definition ident_char :: "nat \<Rightarrow> bool" where
  "ident_char c \<longleftrightarrow> ident_start c \<or> 48 \<le> c \<and> c \<le> 57"

text \<open>\<^verbatim>\<open>_IDENTIFIER_RE.fullmatch\<close>\<close>

fun identifier_fullmatch :: "pystr \<Rightarrow> bool" where
  "identifier_fullmatch [] = False"
| "identifier_fullmatch (c # s) = (ident_start c \<and> list_all ident_char s)"

definition SYSTEM_COLUMNS :: "pystr list" where
  "SYSTEM_COLUMNS =
     [lit ''message_id'', lit ''source_topic'', lit ''source_partition'',
      lit ''changelog_offset'', lit ''entity_key'', lit ''payload'']"

definition validate_identifier :: "pystr \<Rightarrow> exn + unit" where
  "validate_identifier name =
     (if \<not> identifier_fullmatch name then Inl ConfigError else Inr ())"

definition escape_string_literal :: "pystr \<Rightarrow> pystr" where
  "escape_string_literal v = [39] @ py_replace [39] [39, 39] v @ [39]"

definition validate_json_path :: "pystr \<Rightarrow> exn + unit" where
  "validate_json_path path =
     (if \<not> py_startswith (lit ''$.'') path \<or> length path \<le> 2 then Inl ConfigError
      else if list_ex (\<lambda>c. c < 0x20 \<or> c = 0x7F) path then Inl ConfigError
      else Inr ())"

text \<open>\<^verbatim>\<open>_TOPIC_NAME_RE.fullmatch\<close>\<close>

definition topic_char :: "nat \<Rightarrow> bool" where
  "topic_char c \<longleftrightarrow> 65 \<le> c \<and> c \<le> 90 \<or> 97 \<le> c \<and> c \<le> 122 \<or> 48 \<le> c \<and> c \<le> 57
     \<or> c = 46 \<or> c = 95 \<or> c = 45"

definition topic_name_fullmatch :: "pystr \<Rightarrow> bool" where
  "topic_name_fullmatch s \<longleftrightarrow> s \<noteq> [] \<and> list_all topic_char s"

definition KAFKA_TOPIC_NAME_MAX :: nat where
  "KAFKA_TOPIC_NAME_MAX = 249"

definition validate_changelog_template :: "fmt_ext \<Rightarrow> pystr \<Rightarrow> exn + unit" where
  "validate_changelog_template ext template =
     (if \<not> py_contains (lit ''{source_topic}'') template
         \<or> \<not> py_contains (lit ''{partition}'') template
      then Inl ConfigError
      else case py_format ext (lit ''probe'') 0 template of
        Inr _ \<Rightarrow> Inr ()
      | Inl e \<Rightarrow>
          if e = KeyError \<or> e = IndexError \<or> is_value_error e then Inl ConfigError else Inl e)"

definition validate_topic_name :: "pystr \<Rightarrow> exn + unit" where
  "validate_topic_name name =
     (if name = lit ''.'' \<or> name = lit ''..'' \<or> length name > KAFKA_TOPIC_NAME_MAX
         \<or> \<not> topic_name_fullmatch name
      then Inl ConfigError else Inr ())"

definition render_column_clause :: "generated_column \<Rightarrow> pystr" where
  "render_column_clause column =
     col_name column @ lit '' '' @ col_sql_type column @ lit '' ''
     @ lit ''GENERATED ALWAYS AS (payload->>'' @ escape_string_literal (col_json_path column)
     @ lit '') VIRTUAL''"

definition emit_add_column :: "generated_column \<Rightarrow> pystr" where
  "emit_add_column column = lit ''ALTER TABLE _records ADD COLUMN '' @ render_column_clause column"

text \<open>\<^verbatim>\<open>", ".join(xs)\<close>\<close>

fun py_join :: "pystr \<Rightarrow> pystr list \<Rightarrow> pystr" where
  "py_join sep [] = []"
| "py_join sep [x] = x"
| "py_join sep (x # y # xs) = x @ sep @ py_join sep (y # xs)"

definition emit_create_index :: "index_decl \<Rightarrow> pystr" where
  "emit_create_index index =
     lit ''CREATE '' @ (if ix_unique index then lit ''UNIQUE '' else [])
     @ lit ''INDEX IF NOT EXISTS '' @ ix_name index @ lit '' ON _records (''
     @ py_join (lit '', '') (ix_columns index) @ lit '')''"

definition validate_generated_column :: "generated_column \<Rightarrow> exn + unit" where
  "validate_generated_column column =
     (case validate_identifier (col_name column) of Inl e \<Rightarrow> Inl e | Inr _ \<Rightarrow>
        if col_name column \<in> set SYSTEM_COLUMNS then Inl ConfigError
        else (case validate_json_path (col_json_path column) of Inl e \<Rightarrow> Inl e | Inr _ \<Rightarrow>
          if \<not> identifier_fullmatch (col_sql_type column) then Inl ConfigError else Inr ()))"

definition validate_index :: "index_decl \<Rightarrow> pystr list \<Rightarrow> exn + unit" where
  "validate_index index generated_column_names =
     (case validate_identifier (ix_name index) of Inl e \<Rightarrow> Inl e | Inr _ \<Rightarrow>
        if list_ex (\<lambda>c. c \<notin> set SYSTEM_COLUMNS \<and> c \<notin> set generated_column_names) (ix_columns index)
        then Inl ConfigError else Inr ())"

section \<open>Literals\<close>

lemma py_replace_quote:
  "py_replace [39] [39, 39] v = List.concat (map (\<lambda>c. if c = 39 then [39, 39] else [c]) v)"
  by (induction v) auto

text \<open>
  A reading of a single-quoted SQL literal: the opening quote, then characters with a
  doubled quote for a quote, up to the first single quote that is not doubled.
\<close>

fun read_quoted :: "pystr \<Rightarrow> (pystr \<times> pystr) option" where
  "read_quoted [] = None"
| "read_quoted (c # s) =
     (if c \<noteq> 39 then map_option (map_prod (Cons c) id) (read_quoted s)
      else (case s of
          [] \<Rightarrow> Some ([], [])
        | d # s' \<Rightarrow> if d = 39 then map_option (map_prod (Cons 39) id) (read_quoted s')
                    else Some ([], s)))"

fun read_literal :: "pystr \<Rightarrow> (pystr \<times> pystr) option" where
  "read_literal [] = None"
| "read_literal (c # s) = (if c = 39 then read_quoted s else None)"

lemma read_quoted_escaped:
  "(\<And>r'. r \<noteq> 39 # r') \<Longrightarrow>
   read_quoted (List.concat (map (\<lambda>c. if c = 39 then [39, 39] else [c]) v) @ 39 # r) = Some (v, r)"
  by (induction v) (auto split: list.split)

lemma read_escaped:
  assumes "\<And>r'. r \<noteq> 39 # r'"
  shows "read_literal (escape_string_literal v @ r) = Some (v, r)"
  using read_quoted_escaped [OF assms, of v]
  by (simp add: escape_string_literal_def py_replace_quote)

lemma escape_inject:
  assumes "escape_string_literal v @ 41 # r = escape_string_literal w @ 41 # t"
  shows "v = w \<and> r = t"
proof -
  have "read_literal (escape_string_literal v @ 41 # r) = Some (v, 41 # r)"
    by (rule read_escaped) simp
  moreover have "read_literal (escape_string_literal w @ 41 # t) = Some (w, 41 # t)"
    by (rule read_escaped) simp
  ultimately show ?thesis unfolding assms by simp
qed

text \<open>
  C31. An escaped value is one complete SQL literal, read back as the value, whatever text
  follows it (that does not itself start with a quote): a JSON path cannot close its
  literal early and inject SQL into the emitted DDL.
\<close>

theorem escape_read_back:
  assumes "hd (rest @ [0]) \<noteq> 39"
  shows "read_literal (escape_string_literal v @ rest) = Some (v, rest)"
  using assms by (intro read_escaped) auto

lemma escape_read_back_witness:
  "read_literal (escape_string_literal (lit ''$.a'') @ lit '') VIRTUAL'') = Some (lit ''$.a'', lit '') VIRTUAL'')"
  by (rule escape_read_back) (simp add: lit_def)


section \<open>Column clauses\<close>

lemma ident_no_space: "identifier_fullmatch s \<Longrightarrow> 32 \<notin> set s"
  by (cases s) (auto simp: ident_start_def ident_char_def list_all_iff)

lemma split_at_space: "a @ 32 # r = b @ 32 # s \<Longrightarrow> 32 \<notin> set a \<Longrightarrow> 32 \<notin> set b \<Longrightarrow> a = b \<and> r = s"
  for a b r s :: pystr
proof (induction a arbitrary: b)
  case Nil
  then show ?case by (cases b) auto
next
  case (Cons x a)
  then show ?case by (cases b) auto
qed

lemma lit_space: "lit '' '' = [32]" and lit_close: "lit '') VIRTUAL'' = 41 # lit '' VIRTUAL''"
  by (simp_all add: lit_def)

lemma validated_column:
  "validate_generated_column c = Inr () \<longleftrightarrow>
     identifier_fullmatch (col_name c) \<and> col_name c \<notin> set SYSTEM_COLUMNS
     \<and> py_startswith (lit ''$.'') (col_json_path c) \<and> 2 < length (col_json_path c)
     \<and> list_all (\<lambda>x. 0x20 \<le> x \<and> x \<noteq> 0x7F) (col_json_path c)
     \<and> identifier_fullmatch (col_sql_type c)"
  by (simp add: validate_generated_column_def validate_identifier_def validate_json_path_def
      list_ex_iff list_all_iff not_less) (meson not_le)

text \<open>
  The rendered clause determines the declaration: two validated columns with the same
  canonical clause have the same name, type and JSON path, so comparing clauses compares
  declarations.
\<close>

lemma column_clause_injective:
  assumes "validate_generated_column c = Inr ()" and "validate_generated_column d = Inr ()"
    and "render_column_clause c = render_column_clause d"
  shows "c = d"
proof -
  have sp: "32 \<notin> set (col_name c)" "32 \<notin> set (col_name d)"
    "32 \<notin> set (col_sql_type c)" "32 \<notin> set (col_sql_type d)"
    using assms(1,2) by (auto simp: validated_column dest: ident_no_space)
  from assms(3) have "col_name c @ 32 # col_sql_type c @ 32 # lit ''GENERATED ALWAYS AS (payload->>''
        @ escape_string_literal (col_json_path c) @ 41 # lit '' VIRTUAL'' =
      col_name d @ 32 # col_sql_type d @ 32 # lit ''GENERATED ALWAYS AS (payload->>''
        @ escape_string_literal (col_json_path d) @ 41 # lit '' VIRTUAL''"
    by (simp add: render_column_clause_def lit_space lit_close)
  from split_at_space [OF this] sp have "col_name c = col_name d"
    and "col_sql_type c @ 32 # lit ''GENERATED ALWAYS AS (payload->>''
        @ escape_string_literal (col_json_path c) @ 41 # lit '' VIRTUAL'' =
      col_sql_type d @ 32 # lit ''GENERATED ALWAYS AS (payload->>''
        @ escape_string_literal (col_json_path d) @ 41 # lit '' VIRTUAL''" by blast+
  moreover from split_at_space [OF this(2)] sp have "col_sql_type c = col_sql_type d"
    and "escape_string_literal (col_json_path c) @ 41 # lit '' VIRTUAL'' =
      escape_string_literal (col_json_path d) @ 41 # lit '' VIRTUAL''" by auto
  moreover from escape_inject [OF this(2)] have "col_json_path c = col_json_path d" by blast
  ultimately show ?thesis by simp
qed

lemma column_clause_injective_example:
  "\<lparr>col_name = lit ''a'', col_json_path = lit ''$.x'', col_sql_type = lit ''TEXT''\<rparr> =
   \<lparr>col_name = [97], col_json_path = [36, 46, 120], col_sql_type = [84, 69, 88, 84]\<rparr>"
  by (rule column_clause_injective)
    (simp_all add: validated_column lit_def ident_start_def ident_char_def SYSTEM_COLUMNS_def)

section \<open>The changelog template\<close>

lemma map_sum_ok: "(\<exists>r. map_sum id f x = Inr r) \<longleftrightarrow> (\<exists>r. x = Inr r)"
  by (cases x) auto

lemma field_value_args:
  assumes "\<And>f a c p t i. \<exists>v. ext f a c p t i = Inr v"
  shows "(\<exists>v. field_value ext n c p t i = Inr v) \<longleftrightarrow> (\<exists>v. field_value ext n c p t' i' = Inr v)"
  using assms by (auto simp: field_value_def Let_def)

text \<open>Whether formatting succeeds does not depend on the two arguments, once \<open>ext\<close> is total.\<close>

lemma py_format_args:
  assumes total: "\<And>f a c p t i. \<exists>v. ext f a c p t i = Inr v"
  shows "(\<exists>r. py_format ext t i s = Inr r) \<longleftrightarrow> (\<exists>r. py_format ext t' i' s = Inr r)"
  using total
proof (induction ext t i s rule: py_format.induct)
  case (1 ext topic part)
  then show ?case by simp
next
  case (2 ext topic part c s)
  consider "c \<noteq> 123" | "c = 123" "s = []" | s' where "c = 123" "s = 123 # s'"
    | d s' where "c = 123" "s = d # s'" "d \<noteq> 123"
    by (cases s) auto
  then show ?case
  proof cases
    case 1
    with 2 show ?thesis by (cases s) (auto simp: map_sum_ok)
  next
    case 2
    then show ?thesis by simp
  next
    case (3 s')
    then show ?thesis using 2(1) [OF 3(1,2) refl 2(5)] by (simp add: map_sum_ok)
  next
    case (4 d s')
    show ?thesis
    proof (cases "parse_field s")
      case (Inl e)
      with 4 show ?thesis by simp
    next
      case (Inr x)
      obtain n cv p r where x: "x = (n, cv, p, r)" by (cases x) auto
      have fv: "(\<exists>v. field_value ext n cv p topic part = Inr v) \<longleftrightarrow> (\<exists>v. field_value ext n cv p t' i' = Inr v)"
        using 2(5) by (rule field_value_args)
      show ?thesis
      proof (cases "field_value ext n cv p topic part")
        case Inl': (Inl e)
        with fv have "\<exists>e'. field_value ext n cv p t' i' = Inl e'"
          by (cases "field_value ext n cv p t' i'") auto
        with Inl' 4 Inr x show ?thesis by auto
      next
        case Inr': (Inr v)
        with fv obtain v' where "field_value ext n cv p t' i' = Inr v'" by auto
        with Inr' 4 Inr x 2(2) [OF 4 Inr, unfolded x, OF refl refl refl Inr' 2(5)]
        show ?thesis by (simp add: map_sum_ok)
      qed
    qed
  qed
qed

text \<open>
  A template that \<^verbatim>\<open>start()\<close> accepted formats for every source partition: the probe
  with fixed arguments stands for all of them, as long as attribute and item access,
  conversions and format specs in its fields do not raise.
\<close>

lemma accepted_template_formats:
  assumes "validate_changelog_template ext template = Inr ()"
    and "\<And>f a c p t i. \<exists>v. ext f a c p t i = Inr v"
  shows "\<exists>name. py_format ext topic part template = Inr name"
proof -
  from assms(1) have "\<exists>r. py_format ext (lit ''probe'') 0 template = Inr r"
    by (auto simp: validate_changelog_template_def split: if_splits sum.splits)
  then show ?thesis using py_format_args [of ext "lit ''probe''" 0 template topic part] assms(2) by blast
qed

definition DEFAULT_CHANGELOG_TEMPLATE :: pystr where
  "DEFAULT_CHANGELOG_TEMPLATE = lit ''{source_topic}.p{partition}.changelog''"

lemma format_source_topic:
  "field_value ext (lit ''source_topic'') None [] t i = Inr t"
  "field_value ext (lit ''partition'') None [] t i = Inr (py_str_int i)"
  by (simp_all add: field_value_def Let_def lit_def py_decimal_def decimal_zeros_def)

lemma default_template_parts:
  "DEFAULT_CHANGELOG_TEMPLATE = 123 # lit ''source_topic'' @ 125 # (lit ''.p'' @
     123 # lit ''partition'' @ 125 # (lit ''.changelog'' @ []))"
  by (simp add: DEFAULT_CHANGELOG_TEMPLATE_def lit_def)

lemma default_template_format:
  "py_format ext t i DEFAULT_CHANGELOG_TEMPLATE = Inr (t @ lit ''.p'' @ py_str_int i @ lit ''.changelog'')"
  unfolding default_template_parts
  by (subst py_format_field, simp add: lit_def, simp add: lit_def,
      subst py_format_literal, simp add: lit_def, simp add: lit_def,
      subst py_format_field, simp add: lit_def, simp add: lit_def,
      subst py_format_literal, simp add: lit_def, simp add: lit_def)
    (simp add: format_source_topic)

lemma default_template_accepted: "validate_changelog_template ext DEFAULT_CHANGELOG_TEMPLATE = Inr ()"
  by (simp add: validate_changelog_template_def default_template_format)
    (simp add: DEFAULT_CHANGELOG_TEMPLATE_def lit_def)

lemma accepted_template_formats_witness:
  "\<exists>name. py_format (\<lambda>f a c p t i. Inr t) (lit ''messages'') 3 DEFAULT_CHANGELOG_TEMPLATE = Inr name"
  by (rule accepted_template_formats [OF default_template_accepted]) simp

text \<open>
  Under the default template two distinct source partitions never share a changelog
  topic: the resolved name determines the topic and the partition.
\<close>

lemma default_changelog_names_distinct:
  assumes "py_format ext t i DEFAULT_CHANGELOG_TEMPLATE = py_format ext' t' i' DEFAULT_CHANGELOG_TEMPLATE"
  shows "t = t' \<and> i = i'"
proof -
  let ?d = "\<lambda>i. rev (py_str_int i)"
  from assms have "t @ [46, 112] @ py_str_int i = t' @ [46, 112] @ py_str_int i'"
    by (simp add: default_template_format lit_def)
  then have "rev (t @ [46, 112] @ py_str_int i) = rev (t' @ [46, 112] @ py_str_int i')"
    by (rule arg_cong)
  then have eq: "?d i @ 112 # 46 # rev t = ?d i' @ 112 # 46 # rev t'" by simp
  have tw: "takeWhile (\<lambda>c. c \<noteq> 112) (?d j @ 112 # r) = ?d j" for j r
    by (subst takeWhile_append2) (auto dest: py_str_int_chars)
  have "?d i = ?d i'" using arg_cong [OF eq, of "takeWhile (\<lambda>c. c \<noteq> 112)"] by (simp only: tw)
  with eq show ?thesis by (auto dest: py_str_int_inject)
qed

lemma default_changelog_names_distinct_witness:
  "lit ''m'' = [109] \<and> (3::int) = 1 + 2"
  by (rule default_changelog_names_distinct [where ext = "\<lambda>f a c p t i. Inr t" and ext' = "\<lambda>f a c p t i. Inr t"])
    (simp add: lit_def)

text \<open>
  The template check lets an exception through that is no \<^verbatim>\<open>ConfigError\<close>: a field that
  reads a missing attribute of an argument makes \<^verbatim>\<open>str.format\<close> raise \<^verbatim>\<open>AttributeError\<close>, which
  the \<^verbatim>\<open>except\<close> clause does not list, although the template contains both placeholders.
\<close>

lemma template_attribute_error_escapes:
  assumes "ext (lit ''partition'') (lit ''.x'') None [] (lit ''probe'') 0 = Inl AttributeError"
  shows "validate_changelog_template ext (lit ''{source_topic}{partition}{partition.x}'') = Inl AttributeError"
proof -
  have parts: "lit ''{source_topic}{partition}{partition.x}'' =
      123 # lit ''source_topic'' @ 125 # (123 # lit ''partition'' @ 125 # (123 # lit ''partition.x'' @ 125 # []))"
    by (simp add: lit_def)
  have "field_value ext (lit ''partition.x'') None [] (lit ''probe'') 0 = Inl AttributeError"
    using assms by (simp add: field_value_def Let_def lit_def py_decimal_def decimal_zeros_def)
  then have "py_format ext (lit ''probe'') 0 (lit ''{source_topic}{partition}{partition.x}'') = Inl AttributeError"
    unfolding parts
    by (subst py_format_field, simp add: lit_def, simp add: lit_def,
        subst format_source_topic, simp only: sum.case,
        subst py_format_field, simp add: lit_def, simp add: lit_def,
        subst format_source_topic, simp only: sum.case,
        subst py_format_field, simp add: lit_def, simp add: lit_def) simp
  moreover have "py_contains (lit ''{source_topic}'') (lit ''{source_topic}{partition}{partition.x}'')"
    "py_contains (lit ''{partition}'') (lit ''{source_topic}{partition}{partition.x}'')"
    by (simp_all add: lit_def)
  ultimately show ?thesis by (simp add: validate_changelog_template_def)
qed

lemma template_attribute_error_escapes_witness:
  "validate_changelog_template (\<lambda>f a c p t i. Inl AttributeError)
     (lit ''{source_topic}{partition}{partition.x}'') = Inl AttributeError"
  by (rule template_attribute_error_escapes) (rule refl)

end
