(* ===== verification/Wire_Format.thy ===== *)
theory Wire_Format imports
  Py_Text
begin

text \<open>
  The changelog record format of \<^verbatim>\<open>_wire.py\<close>: encoding of an append, and classification of
  a replayed record. The two JSON functions of the standard library are arguments:
  \<open>loads\<close> is the exception \<^verbatim>\<open>json.loads\<close> raises on a text, with the constants \<^verbatim>\<open>NaN\<close>,
  \<^verbatim>\<open>Infinity\<close> and \<^verbatim>\<open>-Infinity\<close> refused (if it raises), \<open>dumps\<close> is
  \<^verbatim>\<open>json.dumps(_, allow_nan=False)\<close>.
\<close>

section \<open>Definitions\<close>

definition FORMAT_VERSION :: pystr where
  "FORMAT_VERSION = lit ''1''"

datatype classified =
    KsqliteRecord pystr pystr pystr
  | UnknownVersionRecord pystr "pystr option"
  | ForeignRecord pystr

type_synonym headers = "(pystr \<times> pybytes) list"

text \<open>\<^verbatim>\<open>dict(headers)\<close>: of headers with the same name the last one counts.\<close>

definition header_map :: "headers \<Rightarrow> pystr \<Rightarrow> pybytes option" where
  "header_map hs = map_of (rev hs)"

definition classify :: "pybytes option \<Rightarrow> pybytes option \<Rightarrow> headers \<Rightarrow> classified" where
  "classify key val hs =
     (case header_map hs (lit ''message_id'') of
        None \<Rightarrow> ForeignRecord (lit ''missing message_id header'')
      | Some message_id_bytes \<Rightarrow>
     (case utf8_decode message_id_bytes of
        Inl _ \<Rightarrow> ForeignRecord (lit ''malformed message_id header'')
      | Inr message_id \<Rightarrow>
     if \<not> uuid_ok message_id then ForeignRecord (lit ''malformed message_id header'')
     else (case header_map hs (lit ''format_version'') of
        None \<Rightarrow> UnknownVersionRecord message_id None
      | Some version_bytes \<Rightarrow>
     let format_version = utf8_decode_replace version_bytes in
     if format_version \<noteq> FORMAT_VERSION then UnknownVersionRecord message_id (Some format_version)
     else (case key of
        None \<Rightarrow> ForeignRecord (lit ''null record key'')
      | Some k \<Rightarrow>
     (case utf8_decode k of
        Inl _ \<Rightarrow> ForeignRecord (lit ''undecodable record key'')
      | Inr entity_key \<Rightarrow>
     (case val of
        None \<Rightarrow> ForeignRecord (lit ''null record value'')
      | Some v \<Rightarrow>
     (case utf8_decode v of
        Inl _ \<Rightarrow> ForeignRecord (lit ''undecodable record value'')
      | Inr payload \<Rightarrow> KsqliteRecord message_id entity_key payload)))))))"

text \<open>A host payload is a \<^verbatim>\<open>str\<close> or any other object.\<close>

datatype 'o payload = PayloadStr pystr | PayloadObject 'o

record encoded_record =
  er_key :: pybytes
  er_value :: pybytes
  er_headers :: headers

definition serialize_payload ::
    "(pystr \<Rightarrow> exn option) \<Rightarrow> ('o \<Rightarrow> exn + pystr) \<Rightarrow> 'o payload \<Rightarrow> exn + pystr" where
  "serialize_payload loads dumps payload =
     (case payload of
        PayloadStr s \<Rightarrow>
          (case loads s of
             None \<Rightarrow> Inr s
           | Some e \<Rightarrow> if is_value_error e then Inl ValueError else Inl e)
      | PayloadObject obj \<Rightarrow>
          (case dumps obj of
             Inr s \<Rightarrow> Inr s
           | Inl e \<Rightarrow> if e = TypeError \<or> is_value_error e then Inl ValueError else Inl e))"

definition encode ::
    "(pystr \<Rightarrow> exn option) \<Rightarrow> ('o \<Rightarrow> exn + pystr) \<Rightarrow> pystr \<Rightarrow> 'o payload \<Rightarrow> pystr
     \<Rightarrow> exn + encoded_record" where
  "encode loads dumps entity_key payload message_id =
     (case serialize_payload loads dumps payload of Inl e \<Rightarrow> Inl e | Inr body \<Rightarrow>
     (case utf8_encode entity_key of Inl e \<Rightarrow> Inl e | Inr k \<Rightarrow>
     (case utf8_encode body of Inl e \<Rightarrow> Inl e | Inr v \<Rightarrow>
     (case utf8_encode FORMAT_VERSION of Inl e \<Rightarrow> Inl e | Inr fv \<Rightarrow>
     (case utf8_encode message_id of Inl e \<Rightarrow> Inl e | Inr mid \<Rightarrow>
       Inr \<lparr>er_key = k, er_value = v,
            er_headers = [(lit ''format_version'', fv), (lit ''message_id'', mid)]\<rparr>)))))"

section \<open>Classification\<close>

lemma lit_header_names: "lit ''message_id'' \<noteq> lit ''format_version''" "lit ''format_version'' \<noteq> lit ''message_id''"
  by (simp_all add: lit_def)

lemma version_bytes: "utf8_encode FORMAT_VERSION = Inr [49]"
  by (simp add: utf8_encode_def FORMAT_VERSION_def lit_def scalar_value_def utf8_encode_one_def)

lemma version_matches: "utf8_decode_replace b = FORMAT_VERSION \<longleftrightarrow> b = [49]"
proof
  assume "utf8_decode_replace b = FORMAT_VERSION"
  then have "utf8_decode_replace b = [49]" by (simp add: FORMAT_VERSION_def lit_def)
  from utf8_decode_replace_one [OF this] show "b = [49]" by simp
next
  assume "b = [49]"
  with utf8_decode_replace_encode [OF version_bytes] show "utf8_decode_replace b = FORMAT_VERSION" by simp
qed

text \<open>
  A record is accepted as a KSQLite record exactly when its \<^verbatim>\<open>message_id\<close> header is the
  UTF-8 encoding of a UUID text, its \<^verbatim>\<open>format_version\<close> header is the single byte \<^verbatim>\<open>1\<close>, and
  its key and value are present and well-formed UTF-8; the accepted texts are the ones
  whose encodings the record carries.
\<close>

lemma classify_accepts_iff:
  "classify key val hs = KsqliteRecord message_id entity_key payload \<longleftrightarrow>
     (\<exists>mb k v. header_map hs (lit ''message_id'') = Some mb \<and> utf8_encode message_id = Inr mb
        \<and> uuid_ok message_id
        \<and> header_map hs (lit ''format_version'') = Some [49]
        \<and> key = Some k \<and> utf8_encode entity_key = Inr k
        \<and> val = Some v \<and> utf8_encode payload = Inr v)"
  by (auto simp: classify_def Let_def version_matches utf8.dec_iff [symmetric]
      split: option.splits sum.splits if_splits)

text \<open>
  Fail loud, never drop: a record that carries a valid \<^verbatim>\<open>message_id\<close> but not the
  understood version is reported as such whatever its key and value are, with the version
  found, and is never classified as foreign.
\<close>

lemma classify_unknown_version:
  assumes "header_map hs (lit ''message_id'') = Some mb" and "utf8_decode mb = Inr message_id"
    and "uuid_ok message_id" and "header_map hs (lit ''format_version'') \<noteq> Some [49]"
  shows "classify key val hs = UnknownVersionRecord message_id
           (map_option utf8_decode_replace (header_map hs (lit ''format_version'')))"
  using assms by (auto simp: classify_def Let_def version_matches split: option.split)

definition sample_uuid :: pystr where
  "sample_uuid = lit ''01999999-aaaa-7bbb-8ccc-0123456789ab''"

lemma sample_uuid_canonical: "canonical_uuid sample_uuid"
  by (simp add: sample_uuid_def canonical_uuid_def lit_def lower_hex_def)

lemma sample_uuid_encoded: "\<exists>b. utf8_encode sample_uuid = Inr b"
  using canonical_uuid_scalar [OF sample_uuid_canonical] by (simp add: utf8_encode_def)

lemma sample_without_version:
  "classify None None [(lit ''message_id'', map of_nat sample_uuid)] = UnknownVersionRecord sample_uuid None"
proof -
  have "utf8_encode sample_uuid = Inr (map of_nat sample_uuid)"
    by (simp add: utf8_encode_def sample_uuid_def lit_def scalar_value_def utf8_encode_one_def)
  then have "utf8_decode (map of_nat sample_uuid) = Inr sample_uuid" by (rule utf8_decode_encode)
  from classify_unknown_version [OF _ this canonical_uuid_ok [OF sample_uuid_canonical],
      of "[(lit ''message_id'', map of_nat sample_uuid)]" None None]
  show ?thesis by (simp add: header_map_def lit_header_names)
qed

section \<open>Encoding\<close>

lemma encode_parts:
  assumes "encode loads dumps entity_key payload message_id = Inr r"
  obtains body mb where "serialize_payload loads dumps payload = Inr body"
    "utf8_encode entity_key = Inr (er_key r)" "utf8_encode body = Inr (er_value r)"
    "utf8_encode message_id = Inr mb"
    "er_headers r = [(lit ''format_version'', [49]), (lit ''message_id'', mb)]"
  using assms by (auto simp: encode_def version_bytes split: sum.splits)

text \<open>
  C29. Round trip of the wire format: what \<^verbatim>\<open>append\<close> produces is classified, on replay, as a
  KSQLite record with the message id, the entity key and the payload text it was made of.
  Headers are read by name: any header list with the same two entries, in any order and
  with any further headers, gives the same answer.
\<close>

theorem encode_classify_roundtrip:
  assumes "encode loads dumps entity_key payload message_id = Inr r" and "uuid_ok message_id"
    and "header_map hs (lit ''message_id'') = header_map (er_headers r) (lit ''message_id'')"
    and "header_map hs (lit ''format_version'') = header_map (er_headers r) (lit ''format_version'')"
  shows "\<exists>body. serialize_payload loads dumps payload = Inr body \<and>
    classify (Some (er_key r)) (Some (er_value r)) hs = KsqliteRecord message_id entity_key body"
proof -
  from assms(1) obtain body mb where p: "serialize_payload loads dumps payload = Inr body"
    "utf8_encode entity_key = Inr (er_key r)" "utf8_encode body = Inr (er_value r)"
    "utf8_encode message_id = Inr mb"
    "er_headers r = [(lit ''format_version'', [49]), (lit ''message_id'', mb)]"
    by (rule encode_parts)
  have "header_map hs (lit ''message_id'') = Some mb" "header_map hs (lit ''format_version'') = Some [49]"
    using assms(3,4) by (simp_all add: header_map_def p(5) lit_header_names)
  with p assms(2) show ?thesis by (auto simp: classify_accepts_iff)
qed

lemma encode_classify_roundtrip_witness:
  "\<exists>r body. encode (\<lambda>s. None) (\<lambda>x. Inl TypeError) (lit ''k'') (PayloadStr (lit ''{}'') :: unit payload) sample_uuid = Inr r
     \<and> serialize_payload (\<lambda>s. None) (\<lambda>x. Inl TypeError) (PayloadStr (lit ''{}'') :: unit payload) = Inr body
     \<and> classify (Some (er_key r)) (Some (er_value r)) (rev (er_headers r))
       = KsqliteRecord sample_uuid (lit ''k'') body"
proof -
  obtain b where b: "utf8_encode sample_uuid = Inr b" using sample_uuid_encoded by blast
  have "utf8_encode (lit ''k'') = Inr [107]" "utf8_encode (lit ''{}'') = Inr [123, 125]"
    by (simp_all add: utf8_encode_def lit_def scalar_value_def utf8_encode_one_def)
  with b obtain r where r: "encode (\<lambda>s. None) (\<lambda>x. Inl TypeError) (lit ''k'')
      (PayloadStr (lit ''{}'') :: unit payload) sample_uuid = Inr r"
    by (simp add: encode_def serialize_payload_def version_bytes)
  from r have "er_headers r = [(lit ''format_version'', [49]), (lit ''message_id'', b)]"
    by (rule encode_parts) (use b in simp)
  then have "header_map (rev (er_headers r)) (lit ''message_id'') = header_map (er_headers r) (lit ''message_id'')"
    "header_map (rev (er_headers r)) (lit ''format_version'') = header_map (er_headers r) (lit ''format_version'')"
    by (simp_all add: header_map_def lit_header_names)
  from encode_classify_roundtrip [OF r canonical_uuid_ok [OF sample_uuid_canonical] this] r
  show ?thesis by blast
qed

lemma encode_errors:
  assumes "encode loads dumps entity_key payload message_id = Inl e"
    and "\<And>s e. loads s = Some e \<Longrightarrow> is_value_error e"
    and "\<And>x e. dumps x = Inl e \<Longrightarrow> e = TypeError \<or> is_value_error e"
  shows "is_value_error e"
proof -
  have "is_value_error e'" if "utf8_encode s = Inl e'" for s e'
    using that by (auto simp: utf8_encode_def split: if_splits)
  moreover have "is_value_error e'" if "serialize_payload loads dumps payload = Inl e'" for e'
    using that assms(2,3)
    by (auto simp: serialize_payload_def split: payload.splits option.splits sum.splits if_splits)
  ultimately show ?thesis using assms(1) by (auto simp: encode_def split: sum.splits)
qed

text \<open>
  Bad input is refused as \<^verbatim>\<open>ValueError\<close> before anything is produced: if parsing and
  serialising raise nothing but \<^verbatim>\<open>TypeError\<close> and \<^verbatim>\<open>ValueError\<close>, every failure of \<^verbatim>\<open>encode\<close> is a
  \<^verbatim>\<open>ValueError\<close> (an encoding error of a lone surrogate included).
\<close>

lemma encode_raises_value_error:
  assumes "encode loads dumps entity_key payload message_id = Inl e"
    and "\<And>s e. loads s = Some e \<Longrightarrow> is_value_error e"
    and "\<And>x e. dumps x = Inl e \<Longrightarrow> e = TypeError \<or> is_value_error e"
  shows "is_value_error e"
  using assms by (rule encode_errors)

lemma encode_raises_value_error_witness: "is_value_error UnicodeEncodeError"
proof (rule encode_raises_value_error [where loads = "\<lambda>s. None" and dumps = "\<lambda>x. Inr x"
      and entity_key = "[0xD800]" and payload = "PayloadStr []" and message_id = "[]"])
  show "encode (\<lambda>s. None) (\<lambda>x. Inr x) [0xD800] (PayloadStr []) [] = Inl UnicodeEncodeError"
    by (simp add: encode_def serialize_payload_def utf8_encode_def scalar_value_def)
qed auto

end
