(* ===== verification/Sql_Store.thy ===== *)
theory Sql_Store imports
  Sql_Text Wire_Format Complex_Main
begin

text \<open>
  The database of a store as SQLite holds it, and the statements the program sends to it:
  the three tables and the catalog of \<^verbatim>\<open>_records\<close>, one constructor of \<open>stmt\<close> for each
  statement text of \<^verbatim>\<open>_schema.py\<close>, \<^verbatim>\<open>_pool.py\<close> and \<^verbatim>\<open>_read.py\<close>, and for each statement that
  writes its effect on the tables. The SQL function \<^verbatim>\<open>json()\<close> (minified text, or an error)
  and the engine's execution of the two migration statements are arguments.
\<close>

section \<open>Tables\<close>

record db_record =
  message_id :: pystr
  source_topic :: pystr
  source_partition :: int
  changelog_offset :: int
  entity_key :: pystr
  payload :: pystr

definition row_tp :: "db_record \<Rightarrow> topic_partition" where
  "row_tp r = \<lparr>tp_topic = source_topic r, tp_partition = source_partition r\<rparr>"

text \<open>
  What the catalog pragmas return for \<^verbatim>\<open>_records\<close>: the stored \<^verbatim>\<open>CREATE\<close> text, the columns of
  \<^verbatim>\<open>table_xinfo\<close> with their \<^verbatim>\<open>hidden\<close> value, and the indexes of \<^verbatim>\<open>index_list\<close> with their
  unique flag and the rows \<^verbatim>\<open>(seqno, name, key)\<close> of \<^verbatim>\<open>index_xinfo\<close>.
\<close>

record catalog_index =
  ci_name :: pystr
  ci_unique :: bool
  ci_xinfo :: "(int \<times> pystr \<times> bool) list"

record catalog =
  cat_sql :: pystr
  cat_columns :: "(pystr \<times> nat) list"
  cat_indexes :: "catalog_index list"

record database =
  db_records :: "db_record list"
  db_checkpoints :: "topic_partition \<rightharpoonup> int"
  db_owned :: "topic_partition set"
  db_catalog :: "catalog option"

text \<open>The view \<^verbatim>\<open>records\<close>: the rows whose partition has an \<^verbatim>\<open>_owned\<close> row.\<close>

definition records_view :: "database \<Rightarrow> db_record list" where
  "records_view d = filter (\<lambda>r. row_tp r \<in> db_owned d) (db_records d)"

section \<open>Statements\<close>

text \<open>
  Values as SQLite hands them to Python, and what a statement text of the host does to the
  connection that executes it: it reads, writes the tables, begins or ends a transaction,
  or sets the \<^verbatim>\<open>query_only\<close> flag.
\<close>

datatype sql_value = SqlNull | SqlInteger int | SqlReal rat | SqlText pystr | SqlBlob pybytes

type_synonym sql_row = "(pystr \<times> sql_value) list"

datatype host_effect =
    HostReads
  | HostWrites "database \<Rightarrow> exn + database"
  | HostBegins
  | HostCommits
  | HostRollbacks
  | HostSetsQueryOnly bool

datatype stmt =
    Connect
  | CloseConnection
  | PragmaBusyTimeout int
  | PragmaJournalModeWal
  | PragmaQueryOnly bool
  | BeginImmediate
  | Commit
  | Rollback
  | InsertRecord db_record
  | CheckpointUpsert topic_partition int
  | CheckpointClamp topic_partition int
  | OwnedInsert topic_partition
  | OwnedDelete topic_partition
  | OwnedDeleteAll
  | SelectCheckpoint topic_partition
  | CreateRecords
  | CreateCheckpoint
  | CreateOwned
  | CreateBaseIndex pystr "pystr list"
  | CreateView
  | TableXinfo
  | SelectStoredSchema
  | IndexList
  | IndexXinfo pystr
  | MigrationDdl pystr
  | HostSql pystr sql_row

text \<open>The statements SQLite refuses under \<^verbatim>\<open>PRAGMA query_only=ON\<close>.\<close>

fun writes :: "stmt \<Rightarrow> bool" where
  "writes (InsertRecord _) = True"
| "writes (CheckpointUpsert _ _) = True"
| "writes (CheckpointClamp _ _) = True"
| "writes (OwnedInsert _) = True"
| "writes (OwnedDelete _) = True"
| "writes OwnedDeleteAll = True"
| "writes CreateRecords = True"
| "writes CreateCheckpoint = True"
| "writes CreateOwned = True"
| "writes (CreateBaseIndex _ _) = True"
| "writes CreateView = True"
| "writes (MigrationDdl _) = True"
| "writes _ = False"

section \<open>Materialization statements\<close>

text \<open>
  \<^verbatim>\<open>INSERT_RECORD_SQL\<close>: the values are computed first, so a payload \<^verbatim>\<open>json()\<close> refuses is an
  error even when the row would be a duplicate; then the conflict clause applies.
\<close>

definition has_message :: "db_record list \<Rightarrow> pystr \<Rightarrow> bool" where
  "has_message rs i = list_ex (\<lambda>r. message_id r = i) rs"

definition malformed_json :: exn where
  "malformed_json = SqliteError True (lit ''malformed JSON'')"

definition insert_record ::
    "(pystr \<Rightarrow> pystr option) \<Rightarrow> db_record \<Rightarrow> database \<Rightarrow> exn + database" where
  "insert_record json r d =
     (case json (payload r) of
        None \<Rightarrow> Inl malformed_json
      | Some j \<Rightarrow>
          if has_message (db_records d) (message_id r) then Inr d
          else Inr (d\<lparr>db_records := db_records d @ [r\<lparr>payload := j\<rparr>]\<rparr>))"

text \<open>\<^verbatim>\<open>CHECKPOINT_UPSERT_SQL\<close>: on conflict the larger of the two offsets.\<close>

definition checkpoint_upsert :: "database \<Rightarrow> topic_partition \<Rightarrow> int \<Rightarrow> database" where
  "checkpoint_upsert d tp n =
     d\<lparr>db_checkpoints := (db_checkpoints d)
         (tp \<mapsto> (case db_checkpoints d tp of None \<Rightarrow> n | Some c \<Rightarrow> max c n))\<rparr>"

text \<open>\<^verbatim>\<open>CHECKPOINT_CLAMP_SQL\<close>: insert or replace.\<close>

definition checkpoint_clamp :: "database \<Rightarrow> topic_partition \<Rightarrow> int \<Rightarrow> database" where
  "checkpoint_clamp d tp n = d\<lparr>db_checkpoints := (db_checkpoints d)(tp \<mapsto> n)\<rparr>"

definition owned_insert :: "database \<Rightarrow> topic_partition \<Rightarrow> database" where
  "owned_insert d tp = d\<lparr>db_owned := insert tp (db_owned d)\<rparr>"

definition owned_delete :: "database \<Rightarrow> topic_partition \<Rightarrow> database" where
  "owned_delete d tp = d\<lparr>db_owned := db_owned d - {tp}\<rparr>"

definition owned_delete_all :: "database \<Rightarrow> database" where
  "owned_delete_all d = d\<lparr>db_owned := {}\<rparr>"

section \<open>Schema statements\<close>

text \<open>\<^verbatim>\<open>_CREATE_RECORDS\<close>, as SQLite stores it (without \<^verbatim>\<open>IF NOT EXISTS\<close>).\<close>

definition CREATE_RECORDS :: pystr where
  "CREATE_RECORDS = py_join [10]
     [lit ''CREATE TABLE _records ('',
      lit ''    message_id       TEXT    NOT NULL,'',
      lit ''    source_topic     TEXT    NOT NULL,'',
      lit ''    source_partition INTEGER NOT NULL,'',
      lit ''    changelog_offset INTEGER NOT NULL,'',
      lit ''    entity_key       TEXT    NOT NULL,'',
      lit ''    payload          TEXT    NOT NULL,'',
      lit ''    UNIQUE (message_id)'',
      lit '')'']"

definition fresh_catalog :: catalog where
  "fresh_catalog =
     \<lparr>cat_sql = CREATE_RECORDS,
      cat_columns = map (\<lambda>c. (lit c, 0))
        [''message_id'', ''source_topic'', ''source_partition'', ''changelog_offset'',
         ''entity_key'', ''payload''],
      cat_indexes =
        [\<lparr>ci_name = lit ''sqlite_autoindex__records_1'', ci_unique = True,
          ci_xinfo = [(0, lit ''message_id'', True)]\<rparr>]\<rparr>"

definition create_records :: "database \<Rightarrow> database" where
  "create_records d =
     (case db_catalog d of None \<Rightarrow> d\<lparr>db_catalog := Some fresh_catalog\<rparr> | Some _ \<Rightarrow> d)"

text \<open>\<^verbatim>\<open>CREATE INDEX IF NOT EXISTS\<close> of \<^verbatim>\<open>_BASE_INDEXES\<close>; \<^verbatim>\<open>index_list\<close> lists the newest first.\<close>

definition index_entry :: "pystr \<Rightarrow> pystr list \<Rightarrow> bool \<Rightarrow> catalog_index" where
  "index_entry n cols u =
     \<lparr>ci_name = n, ci_unique = u,
      ci_xinfo = zip (map int [0..<length cols]) (map (\<lambda>c. (c, True)) cols)\<rparr>"

definition create_base_index :: "pystr \<Rightarrow> pystr list \<Rightarrow> catalog \<Rightarrow> catalog" where
  "create_base_index n cols c =
     (if list_ex (\<lambda>i. ci_name i = n) (cat_indexes c) then c
      else c\<lparr>cat_indexes := index_entry n cols False # cat_indexes c\<rparr>)"

section \<open>Effects\<close>

text \<open>
  The effect of one statement on the tables, or the error its values cause. \<open>ddl\<close> is the
  engine's execution of an \<^verbatim>\<open>ALTER TABLE\<close> or \<^verbatim>\<open>CREATE INDEX\<close> text on the catalog.
  Statements that only read or set connection flags leave the tables alone.
\<close>

fun stmt_effect ::
    "(pystr \<Rightarrow> pystr option) \<Rightarrow> (pystr \<Rightarrow> catalog \<Rightarrow> exn + catalog) \<Rightarrow> stmt \<Rightarrow> database
     \<Rightarrow> exn + database" where
  "stmt_effect json ddl (InsertRecord r) d = insert_record json r d"
| "stmt_effect json ddl (CheckpointUpsert tp n) d = Inr (checkpoint_upsert d tp n)"
| "stmt_effect json ddl (CheckpointClamp tp n) d = Inr (checkpoint_clamp d tp n)"
| "stmt_effect json ddl (OwnedInsert tp) d = Inr (owned_insert d tp)"
| "stmt_effect json ddl (OwnedDelete tp) d = Inr (owned_delete d tp)"
| "stmt_effect json ddl OwnedDeleteAll d = Inr (owned_delete_all d)"
| "stmt_effect json ddl CreateRecords d = Inr (create_records d)"
| "stmt_effect json ddl (CreateBaseIndex n cols) d =
     Inr (d\<lparr>db_catalog := map_option (create_base_index n cols) (db_catalog d)\<rparr>)"
| "stmt_effect json ddl (MigrationDdl sql) d =
     (case db_catalog d of
        None \<Rightarrow> Inl (SqliteError True (lit ''no such table: _records''))
      | Some c \<Rightarrow>
          (case ddl sql c of Inl e \<Rightarrow> Inl e | Inr c' \<Rightarrow> Inr (d\<lparr>db_catalog := Some c'\<rparr>)))"
| "stmt_effect json ddl _ d = Inr d"

lemma not_writes_effect: "\<not> writes s \<Longrightarrow> stmt_effect json ddl s d = Inr d"
  by (cases s) auto

end
