(* ===== verification/Partition_State.thy ===== *)
theory Partition_State imports
  Ksqlite_Types
begin

text \<open>
  The in-memory partition machine of \<^verbatim>\<open>_state.py\<close>: one entry per partition the process
  has met, created on first touch as \<open>STANDBY\<close>, with its status, live checkpoint and the
  log end offset cached at the last rehydrate. The \<^verbatim>\<open>dict\<close> is a partial map.
\<close>

record entry =
  e_status :: partition_status
  e_checkpoint_offset :: "int option"
  e_log_end_offset :: "int option"

type_synonym machine = "topic_partition \<rightharpoonup> entry"

definition fresh_entry :: entry where
  "fresh_entry =
     \<lparr>e_status = STANDBY, e_checkpoint_offset = None, e_log_end_offset = None\<rparr>"

text \<open>\<^verbatim>\<open>_entry\<close>, which inserts the fresh entry, followed by an attribute write \<open>f\<close>.\<close>

definition entry_of :: "machine \<Rightarrow> topic_partition \<Rightarrow> entry" where
  "entry_of m tp = (case m tp of None \<Rightarrow> fresh_entry | Some e \<Rightarrow> e)"

definition with_entry :: "(entry \<Rightarrow> entry) \<Rightarrow> machine \<Rightarrow> topic_partition \<Rightarrow> machine" where
  "with_entry f m tp = m(tp \<mapsto> f (entry_of m tp))"

definition mark_restoring :: "machine \<Rightarrow> topic_partition \<Rightarrow> machine" where
  "mark_restoring = with_entry (\<lambda>e. e\<lparr>e_status := RESTORING\<rparr>)"

definition mark_ready :: "machine \<Rightarrow> topic_partition \<Rightarrow> machine" where
  "mark_ready = with_entry (\<lambda>e. e\<lparr>e_status := READY\<rparr>)"

definition mark_ready_partial :: "machine \<Rightarrow> topic_partition \<Rightarrow> machine" where
  "mark_ready_partial = with_entry (\<lambda>e. e\<lparr>e_status := READY_PARTIAL\<rparr>)"

definition mark_revoked :: "machine \<Rightarrow> topic_partition \<Rightarrow> machine" where
  "mark_revoked = with_entry (\<lambda>e. e\<lparr>e_status := STANDBY\<rparr>)"

definition record_applied :: "machine \<Rightarrow> topic_partition \<Rightarrow> int \<Rightarrow> machine" where
  "record_applied m tp offset =
     with_entry (\<lambda>e. case e_checkpoint_offset e of
         None \<Rightarrow> e\<lparr>e_checkpoint_offset := Some offset\<rparr>
       | Some c \<Rightarrow> if offset > c then e\<lparr>e_checkpoint_offset := Some offset\<rparr> else e) m tp"

definition status_of :: "machine \<Rightarrow> topic_partition \<Rightarrow> partition_status option" where
  "status_of m tp = map_option e_status (m tp)"

definition record_clamped :: "machine \<Rightarrow> topic_partition \<Rightarrow> int \<Rightarrow> machine" where
  "record_clamped m tp offset = with_entry (\<lambda>e. e\<lparr>e_checkpoint_offset := Some offset\<rparr>) m tp"

definition record_log_end :: "machine \<Rightarrow> topic_partition \<Rightarrow> int \<Rightarrow> machine" where
  "record_log_end m tp leo = with_entry (\<lambda>e. e\<lparr>e_log_end_offset := Some leo\<rparr>) m tp"

definition lag_of :: "entry \<Rightarrow> int option" where
  "lag_of e = (case e_log_end_offset e of
     None \<Rightarrow> None
   | Some leo \<Rightarrow>
       Some (leo - (case e_checkpoint_offset e of None \<Rightarrow> 0 | Some c \<Rightarrow> c + 1)))"

definition snapshot_of :: "entry \<Rightarrow> partition_state" where
  "snapshot_of e =
     \<lparr>ps_state = e_status e, ps_checkpoint_offset = e_checkpoint_offset e,
      ps_log_end_offset = e_log_end_offset e, ps_lag = lag_of e\<rparr>"

definition partition_states :: "machine \<Rightarrow> topic_partition \<rightharpoonup> partition_state" where
  "partition_states m = map_option snapshot_of \<circ> m"

section \<open>Field by field\<close>

text \<open>What each operation does to the status, the checkpoint and the cached log end.\<close>

definition checkpoint_of :: "machine \<Rightarrow> topic_partition \<Rightarrow> int option" where
  "checkpoint_of m tp = Option.bind (m tp) e_checkpoint_offset"

definition log_end_of :: "machine \<Rightarrow> topic_partition \<Rightarrow> int option" where
  "log_end_of m tp = Option.bind (m tp) e_log_end_offset"

lemmas machine_defs =
  with_entry_def entry_of_def fresh_entry_def status_of_def checkpoint_of_def log_end_of_def
  mark_restoring_def mark_ready_def mark_ready_partial_def mark_revoked_def
  record_applied_def record_clamped_def record_log_end_def

lemma status_of_mark [simp]:
  "status_of (mark_restoring m tp) = (status_of m)(tp \<mapsto> RESTORING)"
  "status_of (mark_ready m tp) = (status_of m)(tp \<mapsto> READY)"
  "status_of (mark_ready_partial m tp) = (status_of m)(tp \<mapsto> READY_PARTIAL)"
  "status_of (mark_revoked m tp) = (status_of m)(tp \<mapsto> STANDBY)"
  by (auto simp: machine_defs fun_eq_iff)

lemma checkpoint_of_mark [simp]:
  "checkpoint_of (mark_restoring m tp) = checkpoint_of m"
  "checkpoint_of (mark_ready m tp) = checkpoint_of m"
  "checkpoint_of (mark_ready_partial m tp) = checkpoint_of m"
  "checkpoint_of (mark_revoked m tp) = checkpoint_of m"
  "checkpoint_of (record_log_end m tp n) = checkpoint_of m"
  by (auto simp: machine_defs fun_eq_iff split: option.split)

lemma log_end_of_record [simp]:
  "log_end_of (mark_restoring m tp) = log_end_of m"
  "log_end_of (mark_ready m tp) = log_end_of m"
  "log_end_of (mark_ready_partial m tp) = log_end_of m"
  "log_end_of (mark_revoked m tp) = log_end_of m"
  "log_end_of (record_applied m tp n) = log_end_of m"
  "log_end_of (record_clamped m tp n) = log_end_of m"
  "log_end_of (record_log_end m tp n) = (log_end_of m)(tp \<mapsto> n)"
  by (auto simp: machine_defs fun_eq_iff split: option.split)

lemma checkpoint_of_record [simp]:
  "checkpoint_of (record_applied m tp n) = (checkpoint_of m)(tp \<mapsto> advanced (checkpoint_of m tp) n)"
  "checkpoint_of (record_clamped m tp n) = (checkpoint_of m)(tp \<mapsto> n)"
  by (auto simp: machine_defs fun_eq_iff split: option.split)

text \<open>A write to the checkpoint or to the log end leaves the status, but makes the entry.\<close>

lemma status_of_record [simp]:
  "status_of (record_applied m tp n) tp' =
     (if tp' = tp \<and> m tp = None then Some STANDBY else status_of m tp')"
  "status_of (record_clamped m tp n) tp' =
     (if tp' = tp \<and> m tp = None then Some STANDBY else status_of m tp')"
  "status_of (record_log_end m tp n) tp' =
     (if tp' = tp \<and> m tp = None then Some STANDBY else status_of m tp')"
  by (auto simp: machine_defs split: option.split)

interpretation memory: checkpoint_store checkpoint_of record_applied record_clamped
  by unfold_locales simp_all

section \<open>Properties\<close>

text \<open>
  The lag reported by \<^verbatim>\<open>partition_states()\<close>: absent exactly when the partition was never
  met or no log end offset is cached; otherwise the cached log end minus the next offset to
  apply, so negative exactly when the live checkpoint has reached the cached log end.
\<close>

lemma lag_reported:
  "case Option.bind (partition_states m tp) ps_lag of
     None \<Rightarrow> log_end_of m tp = None
   | Some l \<Rightarrow> (\<exists>leo. log_end_of m tp = Some leo \<and>
       (case checkpoint_of m tp of
          None \<Rightarrow> l = leo
        | Some c \<Rightarrow> l = leo - (c + 1) \<and> (l < 0 \<longleftrightarrow> leo \<le> c)))"
  by (cases "m tp")
    (auto simp: partition_states_def snapshot_of_def lag_of_def log_end_of_def checkpoint_of_def
      split: option.split)

text \<open>
  \<^verbatim>\<open>record_applied\<close> never lowers a checkpoint of any partition, so over any sequence of
  write-backs without a clamp the in-memory checkpoint of a partition only grows; after
  write-backs to one partition it is at least each written offset.
\<close>

lemma applied_write_backs_monotone:
  assumes "checkpoint_of m tp = Some c"
  shows "\<exists>d. checkpoint_of (fold (\<lambda>(k, n) s. record_applied s k n) ws m) tp = Some d \<and> c \<le> d
     \<and> list_all (\<lambda>(k, n). k = tp \<longrightarrow> n \<le> d) ws"
  using assms
proof (induction ws arbitrary: m c)
  case Nil
  then show ?case by simp
next
  case (Cons w ws)
  obtain k n where w: "w = (k, n)" by fastforce
  obtain d where d: "checkpoint_of (record_applied m k n) tp = Some d" "c \<le> d" "tp = k \<Longrightarrow> n \<le> d"
    using Cons.prems by (cases "tp = k") (auto simp: advanced_def)
  from Cons.IH [OF d(1)] d(2,3) show ?case by (force simp: w)
qed

lemma applied_write_backs_monotone_witness:
  "\<exists>d. checkpoint_of (fold (\<lambda>(k, n) s. record_applied s k n)
        [(\<lparr>tp_topic = lit ''m'', tp_partition = 0\<rparr>, 7), (\<lparr>tp_topic = lit ''m'', tp_partition = 0\<rparr>, 4)]
        [\<lparr>tp_topic = lit ''m'', tp_partition = 0\<rparr> \<mapsto> fresh_entry\<lparr>e_checkpoint_offset := Some 5\<rparr>])
      \<lparr>tp_topic = lit ''m'', tp_partition = 0\<rparr> = Some d \<and> 5 \<le> d
     \<and> list_all (\<lambda>(k, n). k = \<lparr>tp_topic = lit ''m'', tp_partition = 0\<rparr> \<longrightarrow> n \<le> d)
          [(\<lparr>tp_topic = lit ''m'', tp_partition = 0\<rparr>, 7), (\<lparr>tp_topic = lit ''m'', tp_partition = 0\<rparr>, 4)]"
  by (rule applied_write_backs_monotone) (simp add: checkpoint_of_def)

end
