(* ===== verification/Ksqlite_World.thy ===== *)
theory Ksqlite_World imports
  Sql_Store Partition_State Complex_Main
begin

text \<open>
  What the stateful components run on. The world of a process holds the connection in use
  (the tables as it sees them, the snapshot an open transaction would roll back to, the
  \<^verbatim>\<open>query_only\<close> flag, whether \<^verbatim>\<open>row_factory\<close> is set), the partition machine, the cache of verified partitions, whether the
  rehydrate consumer was started, the events logged so far, and the state \<open>'k\<close> of
  everything outside: the Kafka clients, the connection pool library, SQLite's locks, the
  clock and the scheduler. The record \<open>ops\<close> gives the outside's answer to each call the
  code makes, as a function of that state; no assumption is made on it here.
\<close>

section \<open>Log events\<close>

text \<open>One constructor for each \<^verbatim>\<open>extra={"event": ...}\<close> the code logs, with its fields.\<close>

datatype event =
    AppendToNonReady topic_partition
  | ProduceFailure topic_partition pystr
  | RehydrateStart topic_partition "int option" int
  | RehydrateEnd topic_partition nat
  | RehydrateForceStop topic_partition "int option" int
  | ForeignRecordSkipped topic_partition int pystr
  | TruncationReset topic_partition "int option" int
  | CheckpointClamped topic_partition "int option" int
  | TopicCreated pystr
  | TopicVerified pystr
  | CompactPolicyDetected pystr pystr
  | PolicyVerifyFailed pystr int
  | PolicyVerifyUnauthorized pystr int
  | MigrationDdlExecuted pystr
  | OrphanedColumn pystr
  | OrphanedIndex pystr
  | StartRollbackCloseFailed pystr
  | StopStepFailed pystr

section \<open>The outside\<close>

text \<open>
  How SQLite and the scheduler treat one statement: it runs; it fails and changes nothing
  (its error may be a cancellation that came before it ran); it fails and SQLite rolls the
  open transaction back; or it runs in the worker thread although the awaiting coroutine is
  cancelled.
\<close>

datatype verdict = Runs | Fails exn | Aborts exn | RunsCancelled

text \<open>
  What the pool library hands out: an idle connection, with its transaction and
  \<^verbatim>\<open>query_only\<close> flags as they were left, or a demand for a new connection.
\<close>

datatype acquired = Idle bool bool | Grow

text \<open>\<^verbatim>\<open>OffsetOutOfRangeError\<close>, by its error number.\<close>

definition OffsetOutOfRange :: exn where
  "OffsetOutOfRange = KafkaError 1"

record consumer_record =
  cr_offset :: int
  cr_key :: "pybytes option"
  cr_value :: "pybytes option"
  cr_headers :: headers

record new_topic =
  nt_name :: pystr
  nt_num_partitions :: int
  nt_replication_factor :: int
  nt_configs :: "(pystr \<times> pystr) list"

text \<open>An entry of \<^verbatim>\<open>topic_errors\<close>: the error code and whether a message follows.\<close>

type_synonym topic_error = "pystr \<times> int"

text \<open>A resource of a \<^verbatim>\<open>describe_configs\<close> response: its error code and its entries.\<close>

type_synonym config_resource = "int \<times> (pystr \<times> pystr) list"

type_synonym ('k, 'a) call = "'k \<Rightarrow> (exn + 'a) \<times> 'k"

record 'k ops =
  op_clock :: "'k \<Rightarrow> rat \<times> 'k"
  op_sleep :: "rat \<Rightarrow> ('k, unit) call"
  op_verdict :: "stmt \<Rightarrow> 'k \<Rightarrow> verdict \<times> 'k"
  op_json :: "pystr \<Rightarrow> pystr option"
  op_ddl :: "pystr \<Rightarrow> catalog \<Rightarrow> exn + catalog"
  op_journal_mode :: "'k \<Rightarrow> pystr option \<times> 'k"
  op_host_effect :: "pystr \<Rightarrow> sql_row \<Rightarrow> host_effect"
  op_host_rows :: "pystr \<Rightarrow> sql_row \<Rightarrow> database \<Rightarrow> sql_row list"
  op_acquire :: "('k, acquired) call"
  op_release :: "('k, unit) call"
  op_uuid7 :: "'k \<Rightarrow> pystr \<times> 'k"
  op_format :: fmt_ext
  op_send_and_wait :: "pystr \<Rightarrow> int \<Rightarrow> encoded_record \<Rightarrow> ('k, int) call"
  op_new_consumer :: "('k, unit) call"
  op_consumer_start :: "('k, unit) call"
  op_consumer_stop :: "('k, unit) call"
  op_assign :: "topic_partition \<Rightarrow> ('k, unit) call"
  op_seek :: "topic_partition \<Rightarrow> int \<Rightarrow> ('k, unit) call"
  op_seek_to_beginning :: "topic_partition \<Rightarrow> ('k, unit) call"
  op_beginning_offsets :: "topic_partition \<Rightarrow> ('k, topic_partition \<rightharpoonup> int) call"
  op_end_offsets :: "topic_partition \<Rightarrow> ('k, topic_partition \<rightharpoonup> int) call"
  op_getmany :: "topic_partition \<Rightarrow> nat \<Rightarrow> ('k, topic_partition \<rightharpoonup> consumer_record list) call"
  op_list_topics :: "('k, pystr list) call"
  op_create_topics :: "new_topic \<Rightarrow> ('k, topic_error list) call"
  op_describe_configs :: "pystr \<Rightarrow> ('k, config_resource list list) call"

section \<open>Settings\<close>

text \<open>The parameters of the constructor that the services read.\<close>

record settings =
  cfg_template :: pystr
  cfg_retention_ms :: "int option"
  cfg_verify_policy :: bool
  cfg_busy_timeout :: rat
  cfg_rehydrate_timeout :: rat
  cfg_batch_size :: nat

section \<open>The world\<close>

record 'k world =
  w_env :: 'k
  w_db :: database
  w_saved :: "database option"
  w_query_only :: bool
  w_parts :: machine
  w_checked :: "topic_partition set"
  w_consumer :: bool
  w_log :: "event list"
  w_row_factory :: bool

type_synonym ('k, 'a) act = "('k world, 'a) io"

text \<open>The tables another connection sees: an open transaction is not visible to it.\<close>

definition committed :: "'k world \<Rightarrow> database" where
  "committed w = (case w_saved w of None \<Rightarrow> w_db w | Some d \<Rightarrow> d)"

definition in_transaction :: "'k world \<Rightarrow> bool" where
  "in_transaction w = (w_saved w \<noteq> None)"

section \<open>Calls to the outside\<close>

definition ask :: "('k \<Rightarrow> 'a \<times> 'k) \<Rightarrow> ('k, 'a) act" where
  "ask f = (\<lambda>w. case f (w_env w) of (x, k) \<Rightarrow> (Ok x, w\<lparr>w_env := k\<rparr>))"

definition call :: "('k, 'a) call \<Rightarrow> ('k, 'a) act" where
  "call f = (\<lambda>w. case f (w_env w) of
     (Inl e, k) \<Rightarrow> (Exn e, w\<lparr>w_env := k\<rparr>) | (Inr x, k) \<Rightarrow> (Ok x, w\<lparr>w_env := k\<rparr>))"

definition log_event :: "event \<Rightarrow> ('k, unit) act" where
  "log_event e = io_modify (\<lambda>w. w\<lparr>w_log := w_log w @ [e]\<rparr>)"

definition on_parts :: "(machine \<Rightarrow> machine) \<Rightarrow> ('k, unit) act" where
  "on_parts f = io_modify (\<lambda>w. w\<lparr>w_parts := f (w_parts w)\<rparr>)"

text \<open>A value of the pure components used in effectful code: the error is raised.\<close>

definition lift_res :: "exn + 'a \<Rightarrow> ('k, 'a) act" where
  "lift_res r = (case r of Inl e \<Rightarrow> io_raise e | Inr x \<Rightarrow> io_ret x)"

text \<open>\<^verbatim>\<open>d[k]\<close> of a \<^verbatim>\<open>dict\<close>.\<close>

definition dict_get :: "('a \<rightharpoonup> 'b) \<Rightarrow> 'a \<Rightarrow> ('k, 'b) act" where
  "dict_get m x = (case m x of None \<Rightarrow> io_raise KeyError | Some y \<Rightarrow> io_ret y)"

lemma wp_ask [simp]:
  "wp (ask f) Q w = (case f (w_env w) of (x, k) \<Rightarrow> Q (Ok x) (w\<lparr>w_env := k\<rparr>))"
  by (simp add: wp_def ask_def split: prod.split)

lemma wp_call [simp]:
  "wp (call f) Q w = (case f (w_env w) of
     (Inl e, k) \<Rightarrow> Q (Exn e) (w\<lparr>w_env := k\<rparr>) | (Inr x, k) \<Rightarrow> Q (Ok x) (w\<lparr>w_env := k\<rparr>))"
  by (simp add: wp_def call_def split: prod.split sum.split)

lemma wp_log_event [simp]: "wp (log_event e) Q w = Q (Ok ()) (w\<lparr>w_log := w_log w @ [e]\<rparr>)"
  by (simp add: log_event_def)

lemma wp_on_parts [simp]: "wp (on_parts f) Q w = Q (Ok ()) (w\<lparr>w_parts := f (w_parts w)\<rparr>)"
  by (simp add: on_parts_def)

lemma wp_seq_memory:
  "wp (io_seq (on_parts f) n) Q w = wp n Q (w\<lparr>w_parts := f (w_parts w)\<rparr>)"
  "wp (io_seq (log_event e) n) Q w = wp n Q (w\<lparr>w_log := w_log w @ [e]\<rparr>)"
  by simp_all

lemma wp_lift_res [simp]:
  "wp (lift_res r) Q w = (case r of Inl e \<Rightarrow> Q (Exn e) w | Inr x \<Rightarrow> Q (Ok x) w)"
  by (simp add: lift_res_def split: sum.split)

lemma wp_dict_get [simp]:
  "wp (dict_get m x) Q w = (case m x of None \<Rightarrow> Q (Exn KeyError) w | Some y \<Rightarrow> Q (Ok y) w)"
  by (simp add: dict_get_def split: option.split)

lemma committed_simps [simp]:
  "w_saved w = None \<Longrightarrow> committed w = w_db w"
  "w_saved w = Some d \<Longrightarrow> committed w = d"
  by (simp_all add: committed_def)

lemma committed_update [simp]:
  "committed (w\<lparr>w_env := k\<rparr>) = committed w"
  "committed (w\<lparr>w_query_only := q\<rparr>) = committed w"
  "committed (w\<lparr>w_parts := m\<rparr>) = committed w"
  "committed (w\<lparr>w_checked := c\<rparr>) = committed w"
  "committed (w\<lparr>w_consumer := b\<rparr>) = committed w"
  "committed (w\<lparr>w_log := l\<rparr>) = committed w"
  "committed (w\<lparr>w_row_factory := b\<rparr>) = committed w"
  by (simp_all add: committed_def split: option.split)

lemma halts_calls [halts_intros]:
  "halts (ask f)" "halts (call g)" "halts (log_event e)" "halts (on_parts h)" "halts (lift_res r)"
  "halts (dict_get m x)"
  by (auto simp: halts_def ask_def call_def log_event_def on_parts_def lift_res_def dict_get_def
      io_simps split: prod.split sum.split option.split)

end
