(* ===== verification/Fake_Kafka.thy ===== *)
theory Fake_Kafka imports
  Ksqlite_World
begin

text \<open>
  The in-memory broker of \<^verbatim>\<open>tests/support/fakes.py\<close>, the double the repository's own tests
  run the code against: one log per topic partition with its first retained and next
  offset, the topic catalog, one rehydrate consumer with its injectable failures, the
  scripted clock, the producer and the admin client. Its operations fill the record of the
  outside, together with a connection pool that hands out idle connections and a database
  that follows a script of verdicts. Properties with assumptions on the outside are
  instantiated here.
\<close>

record fake =
  fk_logs :: "topic_partition \<rightharpoonup> consumer_record list"
  fk_next_offsets :: "topic_partition \<rightharpoonup> int"
  fk_log_starts :: "topic_partition \<rightharpoonup> int"
  fk_topics :: "(pystr \<times> (pystr \<times> pystr) list) list"
  fk_positions :: "topic_partition \<rightharpoonup> int"
  fk_spurious_empty :: bool
  fk_getmany_calls :: nat
  fk_fail_at_call :: "(nat \<times> exn) option"
  fk_clock :: rat
  fk_send_fails :: "exn option"
  fk_force_offset :: "int option"
  fk_duplicate_on_retry :: bool
  fk_phantom_failure :: "exn option"
  fk_create_error_code :: "int option"
  fk_describe_error_code :: "int option"
  fk_describe_fails :: "exn option"
  fk_verdicts :: "verdict list"
  fk_statements :: "stmt list"
  fk_stale :: "bool \<times> bool"
  fk_uuids :: "pystr list"

definition fake_start :: fake where
  "fake_start =
     \<lparr>fk_logs = Map.empty, fk_next_offsets = Map.empty, fk_log_starts = Map.empty,
      fk_topics = [], fk_positions = Map.empty, fk_spurious_empty = False,
      fk_getmany_calls = 0, fk_fail_at_call = None, fk_clock = 0,
      fk_send_fails = None, fk_force_offset = None, fk_duplicate_on_retry = False,
      fk_phantom_failure = None, fk_create_error_code = None, fk_describe_error_code = None,
      fk_describe_fails = None, fk_verdicts = [], fk_statements = [], fk_stale = (False, False),
      fk_uuids = []\<rparr>"

lemma fake_start_simps [simp]:
  "fk_logs fake_start = Map.empty" "fk_next_offsets fake_start = Map.empty"
  "fk_log_starts fake_start = Map.empty" "fk_topics fake_start = []"
  "fk_positions fake_start = Map.empty" "fk_spurious_empty fake_start = False"
  "fk_getmany_calls fake_start = 0" "fk_fail_at_call fake_start = None"
  "fk_clock fake_start = 0" "fk_send_fails fake_start = None"
  "fk_force_offset fake_start = None" "fk_duplicate_on_retry fake_start = False"
  "fk_phantom_failure fake_start = None" "fk_create_error_code fake_start = None"
  "fk_describe_error_code fake_start = None" "fk_describe_fails fake_start = None"
  "fk_verdicts fake_start = []" "fk_statements fake_start = []"
  "fk_stale fake_start = (False, False)" "fk_uuids fake_start = []"
  by (simp_all add: fake_start_def)

section \<open>InMemoryKafka\<close>

definition kafka_records :: "fake \<Rightarrow> topic_partition \<Rightarrow> consumer_record list" where
  "kafka_records k tp = (case fk_logs k tp of None \<Rightarrow> [] | Some rs \<Rightarrow> rs)"

definition kafka_log_start :: "fake \<Rightarrow> topic_partition \<Rightarrow> int" where
  "kafka_log_start k tp = (case fk_log_starts k tp of None \<Rightarrow> 0 | Some n \<Rightarrow> n)"

definition kafka_log_end :: "fake \<Rightarrow> topic_partition \<Rightarrow> int" where
  "kafka_log_end k tp = (case fk_next_offsets k tp of None \<Rightarrow> 0 | Some n \<Rightarrow> n)"

definition kafka_append ::
    "fake \<Rightarrow> topic_partition \<Rightarrow> pybytes option \<Rightarrow> pybytes option \<Rightarrow> headers \<Rightarrow> int \<times> fake" where
  "kafka_append k tp key val hs =
     (let offset = kafka_log_end k tp in
      (offset, k\<lparr>fk_logs := (fk_logs k)
                   (tp \<mapsto> kafka_records k tp @
                      [\<lparr>cr_offset = offset, cr_key = key, cr_value = val, cr_headers = hs\<rparr>]),
                 fk_next_offsets := (fk_next_offsets k)(tp \<mapsto> offset + 1)\<rparr>))"

definition kafka_trim :: "fake \<Rightarrow> topic_partition \<Rightarrow> int \<Rightarrow> fake" where
  "kafka_trim k tp before_offset =
     k\<lparr>fk_log_starts := (fk_log_starts k)(tp \<mapsto> max (kafka_log_start k tp) before_offset),
       fk_logs := (fk_logs k)
         (tp \<mapsto> filter (\<lambda>r. before_offset \<le> cr_offset r) (kafka_records k tp))\<rparr>"

section \<open>FakeConsumer, under auto\_offset\_reset = none\<close>

definition fake_seek :: "topic_partition \<Rightarrow> int \<Rightarrow> (fake, unit) call" where
  "fake_seek tp offset k = (Inr (), k\<lparr>fk_positions := (fk_positions k)(tp \<mapsto> offset)\<rparr>)"

definition fake_seek_to_beginning :: "topic_partition \<Rightarrow> (fake, unit) call" where
  "fake_seek_to_beginning tp k =
     (Inr (), k\<lparr>fk_positions := (fk_positions k)(tp \<mapsto> kafka_log_start k tp)\<rparr>)"

definition fake_position :: "fake \<Rightarrow> topic_partition \<Rightarrow> int" where
  "fake_position k tp = (case fk_positions k tp of None \<Rightarrow> 0 | Some n \<Rightarrow> n)"

text \<open>The fetch proper, after the injections of \<^verbatim>\<open>getmany\<close>.\<close>

definition fake_fetch ::
    "topic_partition \<Rightarrow> nat \<Rightarrow> (fake, topic_partition \<rightharpoonup> consumer_record list) call" where
  "fake_fetch tp max_records k =
     (let position = fake_position k tp in
      if position < kafka_log_start k tp \<or> kafka_log_end k tp < position
      then (Inl OffsetOutOfRange, k)
      else
        let taken = take max_records (filter (\<lambda>r. position \<le> cr_offset r) (kafka_records k tp)) in
        if taken = [] then (Inr Map.empty, k)
        else (Inr [tp \<mapsto> taken],
              k\<lparr>fk_positions := (fk_positions k)(tp \<mapsto> cr_offset (last taken) + 1)\<rparr>))"

definition fake_getmany ::
    "topic_partition \<Rightarrow> nat \<Rightarrow> (fake, topic_partition \<rightharpoonup> consumer_record list) call" where
  "fake_getmany tp max_records k =
     (let k = k\<lparr>fk_getmany_calls := fk_getmany_calls k + 1\<rparr> in
      case fk_fail_at_call k of
        Some (n, e) \<Rightarrow>
          if fk_getmany_calls k = n then (Inl e, k\<lparr>fk_fail_at_call := None\<rparr>)
          else if fk_spurious_empty k then (Inr Map.empty, k\<lparr>fk_spurious_empty := False\<rparr>)
          else fake_fetch tp max_records k
      | None \<Rightarrow>
          if fk_spurious_empty k then (Inr Map.empty, k\<lparr>fk_spurious_empty := False\<rparr>)
          else fake_fetch tp max_records k)"

section \<open>FakeAdmin\<close>

definition fake_create_topics :: "new_topic \<Rightarrow> (fake, topic_error list) call" where
  "fake_create_topics t k =
     (case fk_create_error_code k of
        Some c \<Rightarrow> (Inr [(nt_name t, c)], k)
      | None \<Rightarrow>
          if nt_name t \<in> set (List.map fst (fk_topics k)) then (Inr [(nt_name t, 36)], k)
          else (Inr [(nt_name t, 0)], k\<lparr>fk_topics := fk_topics k @ [(nt_name t, nt_configs t)]\<rparr>))"

definition fake_describe_configs :: "pystr \<Rightarrow> (fake, config_resource list list) call" where
  "fake_describe_configs name k =
     (case fk_describe_fails k of
        Some e \<Rightarrow> (Inl e, k)
      | None \<Rightarrow>
     (case fk_describe_error_code k of
        Some c \<Rightarrow> (Inr [[(c, [])]], k)
      | None \<Rightarrow>
          (Inr [[(0, case map_of (fk_topics k) name of None \<Rightarrow> [] | Some cs \<Rightarrow> cs)]], k)))"

section \<open>FakeProducer\<close>

definition fake_send_and_wait :: "pystr \<Rightarrow> int \<Rightarrow> encoded_record \<Rightarrow> (fake, int) call" where
  "fake_send_and_wait topic part er k =
     (let tp = \<lparr>tp_topic = topic, tp_partition = part\<rparr>;
          push = (\<lambda>k. kafka_append k tp (Some (er_key er)) (Some (er_value er)) (er_headers er)) in
      case fk_send_fails k of
        Some e \<Rightarrow> (Inl e, k)
      | None \<Rightarrow>
          (case (if fk_duplicate_on_retry k then push (snd (push k)) else push k) of
             (offset, k') \<Rightarrow>
               (case fk_phantom_failure k of
                  Some e \<Rightarrow> (Inl e, k')
                | None \<Rightarrow> (Inr (case fk_force_offset k of None \<Rightarrow> offset | Some n \<Rightarrow> n), k'))))"

section \<open>The outside of the tests\<close>

definition fake_verdict :: "stmt \<Rightarrow> fake \<Rightarrow> verdict \<times> fake" where
  "fake_verdict s k =
     (let k = k\<lparr>fk_statements := fk_statements k @ [s]\<rparr> in
      case fk_verdicts k of [] \<Rightarrow> (Runs, k) | v # vs \<Rightarrow> (v, k\<lparr>fk_verdicts := vs\<rparr>))"

definition fake_ops :: "fake ops" where
  "fake_ops =
     \<lparr>op_clock = (\<lambda>k. (fk_clock k, k)),
      op_sleep = (\<lambda>s k. (Inr (), k\<lparr>fk_clock := fk_clock k + s\<rparr>)),
      op_verdict = fake_verdict,
      op_json = Some,
      op_ddl = (\<lambda>_ c. Inr c),
      op_journal_mode = (\<lambda>k. (Some (lit ''wal''), k)),
      op_host_effect = (\<lambda>_ _. HostReads),
      op_host_rows = (\<lambda>_ _ d. List.map (\<lambda>r. [(lit ''payload'', SqlText (payload r))]) (records_view d)),
      op_acquire = (\<lambda>k. (Inr (Idle (fst (fk_stale k)) (snd (fk_stale k))), k)),
      op_release = (\<lambda>k. (Inr (), k)),
      op_uuid7 = (\<lambda>k. case fk_uuids k of [] \<Rightarrow> ([], k) | u # us \<Rightarrow> (u, k\<lparr>fk_uuids := us\<rparr>)),
      op_format = (\<lambda>_ _ _ _ _ _. Inl AttributeError),
      op_send_and_wait = fake_send_and_wait,
      op_new_consumer = (\<lambda>k. (Inr (), k)),
      op_consumer_start = (\<lambda>k. (Inr (), k)),
      op_consumer_stop = (\<lambda>k. (Inr (), k)),
      op_assign = (\<lambda>_ k. (Inr (), k)),
      op_seek = fake_seek,
      op_seek_to_beginning = fake_seek_to_beginning,
      op_beginning_offsets = (\<lambda>tp k. (Inr [tp \<mapsto> kafka_log_start k tp], k)),
      op_end_offsets = (\<lambda>tp k. (Inr [tp \<mapsto> kafka_log_end k tp], k)),
      op_getmany = fake_getmany,
      op_list_topics = (\<lambda>k. (Inr (List.map fst (fk_topics k)), k)),
      op_create_topics = fake_create_topics,
      op_describe_configs = fake_describe_configs\<rparr>"

text \<open>The same outside where every fetch takes the poll timeout of 200 milliseconds.\<close>

definition polling_ops :: "fake ops" where
  "polling_ops = fake_ops
     \<lparr>op_getmany := \<lambda>tp n k. fake_getmany tp n (k\<lparr>fk_clock := fk_clock k + 1 / 5\<rparr>),
      op_sleep := \<lambda>s k. (Inr (), k\<lparr>fk_clock := fk_clock k + max 0 s\<rparr>)\<rparr>"

text \<open>A process that has just started on an empty, migrated database.\<close>

definition empty_database :: database where
  "empty_database =
     \<lparr>db_records = [], db_checkpoints = Map.empty, db_owned = {}, db_catalog = Some fresh_catalog\<rparr>"

definition boot :: "'k \<Rightarrow> database \<Rightarrow> 'k world" where
  "boot k d =
     \<lparr>w_env = k, w_db = d, w_saved = None, w_query_only = False, w_parts = Map.empty,
      w_checked = {}, w_consumer = False, w_log = [], w_row_factory = False\<rparr>"

lemma boot_simps [simp]:
  "w_env (boot k d) = k" "w_db (boot k d) = d" "w_saved (boot k d) = None"
  "w_query_only (boot k d) = False" "w_parts (boot k d) = Map.empty" "w_checked (boot k d) = {}"
  "w_consumer (boot k d) = False" "w_log (boot k d) = []" "\<not> w_row_factory (boot k d)" "committed (boot k d) = d"
  by (simp_all add: boot_def committed_def)

definition sample_tp :: topic_partition where
  "sample_tp = \<lparr>tp_topic = lit ''m'', tp_partition = 0\<rparr>"

end
