(* ===== verification/Connection_Pool.thy ===== *)
theory Connection_Pool imports
  Fake_Kafka
begin

text \<open>
  The connection layer of \<^verbatim>\<open>_pool.py\<close>: statement execution, opening a connection, checkout
  with its hygiene and its error mapping, the \<^verbatim>\<open>query_only\<close> scope, and the transaction
  runner with its bounded retry. The lemmas show that a transaction is all-or-nothing
  whatever SQLite and the scheduler do to each statement.
\<close>

section \<open>Statements\<close>

definition BUSY_RETRY_MAX_ATTEMPTS :: nat where
  "BUSY_RETRY_MAX_ATTEMPTS = 3"

definition BUSY_RETRY_DEADLINE_FACTOR :: rat where
  "BUSY_RETRY_DEADLINE_FACTOR = 2"

definition BUSY_BACKOFF_BASE_SECONDS :: rat where
  "BUSY_BACKOFF_BASE_SECONDS = 1 / 100"

text \<open>\<^verbatim>\<open>isinstance(exc, OperationalError) and _is_busy_error(exc)\<close>\<close>

definition is_busy_error :: "pystr \<Rightarrow> bool" where
  "is_busy_error message =
     (let m = py_lower message in
      py_contains (lit ''database is locked'') m \<or> py_contains (lit ''busy'') m)"

fun is_busy :: "exn \<Rightarrow> bool" where
  "is_busy (SqliteError operational message) = (operational \<and> is_busy_error message)"
| "is_busy _ = False"

text \<open>The connection's transaction, as SQLite ends it.\<close>

definition end_commit :: "'k world \<Rightarrow> 'k world" where
  "end_commit w = w\<lparr>w_saved := None\<rparr>"

definition end_rollback :: "'k world \<Rightarrow> 'k world" where
  "end_rollback w = w\<lparr>w_db := committed w, w_saved := None\<rparr>"

text \<open>What a statement that runs does to the connection and to the tables.\<close>

definition readonly_error :: exn where
  "readonly_error = SqliteError True (lit ''attempt to write a readonly database'')"

definition nested_begin_error :: exn where
  "nested_begin_error =
     SqliteError True (lit ''cannot start a transaction within a transaction'')"

text \<open>A statement of the host, on a connection in autocommit mode or not.\<close>

definition no_transaction_error :: exn where
  "no_transaction_error = SqliteError True (lit ''no transaction is active'')"

definition host_stmt :: "host_effect \<Rightarrow> ('k, unit) act" where
  "host_stmt h = (\<lambda>w.
     case h of
       HostReads \<Rightarrow> (Ok (), w)
     | HostWrites f \<Rightarrow>
         if w_query_only w then (Exn readonly_error, w)
         else (case f (w_db w) of Inl e \<Rightarrow> (Exn e, w) | Inr d \<Rightarrow> (Ok (), w\<lparr>w_db := d\<rparr>))
     | HostBegins \<Rightarrow>
         if in_transaction w then (Exn nested_begin_error, w)
         else (Ok (), w\<lparr>w_saved := Some (w_db w)\<rparr>)
     | HostCommits \<Rightarrow> if in_transaction w then (Ok (), end_commit w) else (Exn no_transaction_error, w)
     | HostRollbacks \<Rightarrow> if in_transaction w then (Ok (), end_rollback w) else (Exn no_transaction_error, w)
     | HostSetsQueryOnly b \<Rightarrow> (Ok (), w\<lparr>w_query_only := b\<rparr>))"

definition run_stmt :: "'k ops \<Rightarrow> stmt \<Rightarrow> ('k, unit) act" where
  "run_stmt ops s = (\<lambda>w.
     case s of
       BeginImmediate \<Rightarrow>
         if in_transaction w then (Exn nested_begin_error, w)
         else (Ok (), w\<lparr>w_saved := Some (w_db w)\<rparr>)
     | Commit \<Rightarrow> (Ok (), end_commit w)
     | Rollback \<Rightarrow> (Ok (), end_rollback w)
     | PragmaQueryOnly b \<Rightarrow> (Ok (), w\<lparr>w_query_only := b\<rparr>)
     | HostSql sql params \<Rightarrow> host_stmt (op_host_effect ops sql params) w
     | _ \<Rightarrow>
         if writes s \<and> w_query_only w then (Exn readonly_error, w)
         else (case stmt_effect (op_json ops) (op_ddl ops) s (w_db w) of
                 Inl e \<Rightarrow> (Exn e, w) | Inr d \<Rightarrow> (Ok (), w\<lparr>w_db := d\<rparr>)))"

definition execute :: "'k ops \<Rightarrow> stmt \<Rightarrow> ('k, unit) act" where
  "execute ops s =
     io_bind (ask (op_verdict ops s)) (\<lambda>v.
       case v of
         Runs \<Rightarrow> run_stmt ops s
       | Fails e \<Rightarrow> io_raise e
       | Aborts e \<Rightarrow> io_seq (io_modify end_rollback) (io_raise e)
       | RunsCancelled \<Rightarrow> io_seq (run_stmt ops s) (io_raise CancelledError))"

text \<open>\<^verbatim>\<open>fetch_one\<close> and \<^verbatim>\<open>fetch_all\<close>: the statement, then its rows read from the tables.\<close>

definition fetch :: "'k ops \<Rightarrow> stmt \<Rightarrow> (database \<Rightarrow> 'a) \<Rightarrow> ('k, 'a) act" where
  "fetch ops s rows = io_seq (execute ops s) (io_gets (rows \<circ> w_db))"

text \<open>\<^verbatim>\<open>conn.commit()\<close> and \<^verbatim>\<open>conn.rollback()\<close> do nothing outside a transaction.\<close>

definition commit :: "'k ops \<Rightarrow> ('k, unit) act" where
  "commit ops = io_bind (io_gets in_transaction) (\<lambda>t. io_when t (execute ops Commit))"

definition rollback :: "'k ops \<Rightarrow> ('k, unit) act" where
  "rollback ops = io_bind (io_gets in_transaction) (\<lambda>t. io_when t (execute ops Rollback))"

section \<open>Connections\<close>

text \<open>\<^verbatim>\<open>except BaseException: cleanup; raise\<close>\<close>

definition on_error :: "('k, 'a) act \<Rightarrow> ('k, unit) act \<Rightarrow> ('k, 'a) act" where
  "on_error m cleanup = io_catch m (\<lambda>e. io_seq cleanup (io_raise e))"

definition milliseconds :: "rat \<Rightarrow> int" where
  "milliseconds t = (if 0 \<le> t then \<lfloor>t * 1000\<rfloor> else \<lceil>t * 1000\<rceil>)"

definition open_connection :: "'k ops \<Rightarrow> rat \<Rightarrow> ('k, unit) act" where
  "open_connection ops busy_timeout =
     io_seq (execute ops Connect)
     (io_seq (io_modify (\<lambda>w. w\<lparr>w_query_only := False, w_row_factory := False\<rparr>))
       (on_error
         (io_seq (execute ops (PragmaBusyTimeout (milliseconds busy_timeout)))
           (io_seq (execute ops PragmaJournalModeWal)
             (io_bind (ask (op_journal_mode ops)) (\<lambda>row.
               if map_option py_lower row \<noteq> Some (lit ''wal'') then io_raise (StorageError None)
               else io_ret ()))))
         (execute ops CloseConnection)))"

definition query_only :: "'k ops \<Rightarrow> ('k, 'a) act \<Rightarrow> ('k, 'a) act" where
  "query_only ops body =
     io_seq (execute ops (PragmaQueryOnly True))
       (io_finally body (execute ops (PragmaQueryOnly False)))"

text \<open>
  \<^verbatim>\<open>async with pool.connection()\<close>. The pool library hands out an idle connection with
  whatever flags it was left with, or calls the connection factory; the connection goes
  back when the body ends. What the body left uncommitted stays in that connection: the
  next checkout sees the committed tables.
\<close>

definition acquire :: "'k ops \<Rightarrow> rat \<Rightarrow> ('k, unit) act" where
  "acquire ops busy_timeout =
     io_bind (call (op_acquire ops)) (\<lambda>a.
       case a of
         Idle transaction readonly \<Rightarrow>
           io_modify (\<lambda>w. w\<lparr>w_saved := if transaction then Some (w_db w) else None,
                            w_query_only := readonly\<rparr>)
       | Grow \<Rightarrow> open_connection ops busy_timeout)"

definition release :: "'k ops \<Rightarrow> ('k, unit) act" where
  "release ops = io_seq (io_modify end_rollback) (call (op_release ops))"

definition pool_error :: "exn \<Rightarrow> exn" where
  "pool_error e =
     (if e = PoolClosedError \<or> e = PoolConnectionAcquireTimeoutError then StorageError (Some e) else e)"

definition checked_out :: "'k ops \<Rightarrow> rat \<Rightarrow> ('k, 'a) act \<Rightarrow> ('k, 'a) act" where
  "checked_out ops busy_timeout body =
     io_catch
       (io_seq (acquire ops busy_timeout)
         (io_finally
           (io_seq (io_bind (io_gets in_transaction) (\<lambda>t. io_when t (rollback ops)))
             (io_seq (execute ops (PragmaQueryOnly False)) body))
           (release ops)))
       (\<lambda>e. io_raise (pool_error e))"

section \<open>Transactions\<close>

text \<open>One attempt: \<^verbatim>\<open>BEGIN IMMEDIATE\<close>, the work, the commit, and a rollback on any exception.\<close>

definition attempt_txn :: "'k ops \<Rightarrow> ('k, 'a) act \<Rightarrow> ('k, 'a) act" where
  "attempt_txn ops work =
     io_seq (execute ops BeginImmediate)
       (on_error (io_bind work (\<lambda>x. io_seq (commit ops) (io_ret x))) (rollback ops))"

text \<open>\<^verbatim>\<open>while True\<close>, from attempt number \<open>n\<close>; the attempt bound makes it end.\<close>

function run_from :: "'k ops \<Rightarrow> ('k, 'a) act \<Rightarrow> rat \<Rightarrow> nat \<Rightarrow> ('k, 'a) act" where
  "run_from ops work deadline n =
     io_catch (attempt_txn ops work) (\<lambda>e.
       if \<not> is_sqlite_error e then io_raise e
       else if \<not> is_busy e then io_raise (StorageError (Some e))
       else io_bind (io_gets in_transaction) (\<lambda>t.
         io_seq (io_when t (rollback ops))
         (io_bind (ask (op_clock ops)) (\<lambda>now.
           if n \<ge> BUSY_RETRY_MAX_ATTEMPTS \<or> deadline - now \<le> 0
           then io_raise (StorageError (Some e))
           else io_seq
             (call (op_sleep ops (min (BUSY_BACKOFF_BASE_SECONDS * of_nat n) (deadline - now))))
             (run_from ops work deadline (n + 1))))))"
  by pat_completeness auto
termination
  by (relation "measure (\<lambda>(_, _, _, n). BUSY_RETRY_MAX_ATTEMPTS - n)") auto

declare run_from.simps [simp del]

definition run_txn :: "'k ops \<Rightarrow> rat \<Rightarrow> ('k, 'a) act \<Rightarrow> ('k, 'a) act" where
  "run_txn ops busy_timeout work =
     io_bind (ask (op_clock ops)) (\<lambda>now.
       run_from ops work (now + busy_timeout * BUSY_RETRY_DEADLINE_FACTOR) 1)"

section \<open>Everything here returns\<close>

lemma halts_run_stmt [halts_intros]: "halts (run_stmt ops s)"
  by (rule haltsI) (auto simp: run_stmt_def host_stmt_def split: stmt.splits host_effect.splits if_splits sum.splits)

lemma halts_execute [halts_intros]: "halts (execute ops s)"
  unfolding execute_def by (intro halts_intros) (auto split: verdict.split intro: halts_intros)

lemma halts_transaction_ends [halts_intros]: "halts (commit ops)" "halts (rollback ops)"
  unfolding commit_def rollback_def by (intro halts_intros)+

lemma halts_fetch [halts_intros]: "halts (fetch ops s f)"
  unfolding fetch_def by (intro halts_intros)

lemma halts_open_connection [halts_intros]: "halts (open_connection ops bt)"
  unfolding open_connection_def on_error_def by (intro halts_intros)

lemma halts_checked_out [halts_intros]: "halts body \<Longrightarrow> halts (checked_out ops bt body)"
  unfolding checked_out_def acquire_def release_def
  by (intro halts_intros) (auto split: acquired.split intro: halts_intros)

lemma halts_attempt_txn [halts_intros]: "halts work \<Longrightarrow> halts (attempt_txn ops work)"
  unfolding attempt_txn_def on_error_def by (intro halts_intros)

lemma halts_run_from: "halts work \<Longrightarrow> halts (run_from ops work deadline n)"
proof (induction ops work deadline n rule: run_from.induct)
  case (1 ops work deadline n)
  show ?case
    by (subst run_from.simps) (intro halts_intros "1.prems" "1.IH"; assumption)
qed

lemma halts_run_txn [halts_intros]: "halts work \<Longrightarrow> halts (run_txn ops bt work)"
  unfolding run_txn_def by (intro halts_intros halts_run_from)

section \<open>Frames\<close>

text \<open>
  What database work leaves alone: the partition machine, the topic cache and the consumer
  field. The log only grows.
\<close>

definition same_memory :: "'k world \<Rightarrow> 'k world \<Rightarrow> bool" where
  "same_memory w w' \<longleftrightarrow>
     w_parts w' = w_parts w \<and> w_checked w' = w_checked w \<and> w_consumer w' = w_consumer w
     \<and> (\<exists>es. w_log w' = w_log w @ es)"

interpretation memory_frame: preorder_rel same_memory
  by unfold_locales (auto simp: same_memory_def)

lemma same_memory_simps [simp]:
  "same_memory w (v\<lparr>w_env := k\<rparr>) = same_memory w v"
  "same_memory w (v\<lparr>w_db := d\<rparr>) = same_memory w v"
  "same_memory w (v\<lparr>w_saved := d'\<rparr>) = same_memory w v"
  "same_memory w (v\<lparr>w_query_only := q\<rparr>) = same_memory w v"
  "same_memory w (v\<lparr>w_row_factory := b\<rparr>) = same_memory w v"
  "same_memory w w"
  by (auto simp: same_memory_def)

lemma same_memory_log: "same_memory w (w\<lparr>w_log := w_log w @ es\<rparr>)"
  by (simp add: same_memory_def)

lemma same_memory_end [simp]:
  "same_memory w (end_rollback v) = same_memory w v"
  "same_memory w (end_commit v) = same_memory w v"
  by (simp_all add: end_rollback_def end_commit_def same_memory_def)

lemma keeps_ask: "keeps same_memory (ask f)"
  by (rule keepsI) (auto simp: ask_def split: prod.splits)

lemma keeps_call: "keeps same_memory (call f)"
  by (rule keepsI) (auto simp: call_def split: prod.splits sum.splits)

lemma keeps_log_event: "keeps same_memory (log_event e)"
  by (rule keepsI) (auto simp: log_event_def io_modify_def same_memory_log)

lemma keeps_modify_memory:
  "(\<And>w. same_memory w (f w)) \<Longrightarrow> keeps same_memory (io_modify f)"
  by (rule memory_frame.keeps_modify)

lemma keeps_run_stmt: "keeps same_memory (run_stmt ops s)"
  by (rule keepsI) (auto simp: run_stmt_def host_stmt_def split: stmt.splits host_effect.splits if_splits sum.splits)

lemmas keeps_basics =
  memory_frame.keeps_combinators keeps_ask keeps_call keeps_log_event keeps_run_stmt

lemma keeps_execute: "keeps same_memory (execute ops s)"
  unfolding execute_def
  by (intro keeps_basics) (auto split: verdict.split intro!: keeps_basics keeps_modify_memory)

lemma keeps_fetch: "keeps same_memory (fetch ops s f)"
  unfolding fetch_def by (intro keeps_basics keeps_execute)

lemma keeps_rollback: "keeps same_memory (rollback ops)"
  unfolding rollback_def by (intro keeps_basics keeps_execute)

lemma keeps_commit: "keeps same_memory (commit ops)"
  unfolding commit_def by (intro keeps_basics keeps_execute)

lemma keeps_attempt_txn: "keeps same_memory work \<Longrightarrow> keeps same_memory (attempt_txn ops work)"
  unfolding attempt_txn_def on_error_def
  by (intro keeps_basics keeps_execute keeps_commit keeps_rollback)

lemma keeps_if: "(b \<Longrightarrow> keeps R m) \<Longrightarrow> (\<not> b \<Longrightarrow> keeps R n) \<Longrightarrow> keeps R (if b then m else n)"
  by simp

lemma keeps_run_from: "keeps same_memory work \<Longrightarrow> keeps same_memory (run_from ops work deadline n)"
proof (induction ops work deadline n rule: run_from.induct)
  case (1 ops work deadline n)
  show ?case
    by (subst run_from.simps)
      (intro keeps_basics keeps_attempt_txn keeps_if keeps_rollback "1.prems" "1.IH"; assumption)
qed

lemma keeps_run_txn: "keeps same_memory work \<Longrightarrow> keeps same_memory (run_txn ops bt work)"
  unfolding run_txn_def by (intro keeps_basics keeps_run_from)

lemma keeps_open_connection: "keeps same_memory (open_connection ops bt)"
  unfolding open_connection_def on_error_def
  by (intro keeps_basics keeps_execute keeps_modify_memory keeps_if) simp

lemma keeps_checked_out: "keeps same_memory body \<Longrightarrow> keeps same_memory (checked_out ops bt body)"
  unfolding checked_out_def acquire_def release_def
  by (intro keeps_basics keeps_execute keeps_rollback)
    (auto split: acquired.split intro!: keeps_basics keeps_modify_memory keeps_open_connection)

lemma keeps_query_only: "keeps same_memory body \<Longrightarrow> keeps same_memory (query_only ops body)"
  unfolding query_only_def by (intro keeps_basics keeps_execute)

section \<open>Transactions are all-or-nothing\<close>

lemma end_rollback_simps [simp]:
  "w_saved (end_rollback w) = None" "w_db (end_rollback w) = committed w"
  "w_env (end_rollback w) = w_env w" "w_parts (end_rollback w) = w_parts w"
  "w_checked (end_rollback w) = w_checked w" "w_consumer (end_rollback w) = w_consumer w"
  "w_log (end_rollback w) = w_log w" "w_query_only (end_rollback w) = w_query_only w"
  "committed (end_rollback w) = committed w"
  by (simp_all add: end_rollback_def committed_def)

lemma end_commit_simps [simp]:
  "w_saved (end_commit w) = None" "w_db (end_commit w) = w_db w" "w_env (end_commit w) = w_env w"
  "committed (end_commit w) = w_db w"
  by (simp_all add: end_commit_def committed_def)

lemma wp_execute:
  "wp (execute ops s) Q w =
   (case op_verdict ops s (w_env w) of (v, k) \<Rightarrow>
      (case v of
         Runs \<Rightarrow> wp (run_stmt ops s) Q (w\<lparr>w_env := k\<rparr>)
       | Fails e \<Rightarrow> Q (Exn e) (w\<lparr>w_env := k\<rparr>)
       | Aborts e \<Rightarrow> Q (Exn e) (end_rollback (w\<lparr>w_env := k\<rparr>))
       | RunsCancelled \<Rightarrow>
           wp (run_stmt ops s)
             (\<lambda>r w'. case r of Ok _ \<Rightarrow> Q (Exn CancelledError) w' | Exn e \<Rightarrow> Q (Exn e) w'
                       | Running \<Rightarrow> Q Running w') (w\<lparr>w_env := k\<rparr>)))"
  by (simp add: execute_def split: prod.split verdict.split cong: res.case_cong)

text \<open>
  A rule for any statement: what holds when it runs must also hold of the world before it
  with an error, after a rollback with an error, and after it with a cancellation.
\<close>

lemma execute_rule:
  assumes "\<And>k. wp (run_stmt ops s) Q (w\<lparr>w_env := k\<rparr>)"
    and "\<And>k e. Q (Exn e) (w\<lparr>w_env := k\<rparr>)"
    and "\<And>k e. Q (Exn e) (end_rollback (w\<lparr>w_env := k\<rparr>))"
    and "\<And>x w'. Q (Ok x) w' \<Longrightarrow> Q (Exn CancelledError) w'"
  shows "wp (execute ops s) Q w"
proof -
  have "wp (run_stmt ops s)
      (\<lambda>r w'. case r of Ok _ \<Rightarrow> Q (Exn CancelledError) w' | Exn e \<Rightarrow> Q (Exn e) w'
                | Running \<Rightarrow> Q Running w') (w\<lparr>w_env := k\<rparr>)" for k
    by (rule wp_mono [OF assms(1)]) (auto split: res.split intro: assms(4))
  then show ?thesis unfolding wp_execute using assms(1-3)
    by (auto split: prod.split verdict.split)
qed

text \<open>
  Work done inside a transaction: it ends, the committed tables stay as they are, and when
  it succeeds the transaction is still open and the tables are related to those at its
  start by \<open>E\<close>.
\<close>

definition txn_work :: "('k, 'a) act \<Rightarrow> (database \<Rightarrow> 'a \<Rightarrow> database \<Rightarrow> bool) \<Rightarrow> bool" where
  "txn_work work E \<longleftrightarrow>
     (\<forall>w. w_saved w \<noteq> None \<longrightarrow>
        wp work (\<lambda>r w'. committed w' = committed w \<and> r \<noteq> Running
          \<and> (\<forall>x. r = Ok x \<longrightarrow> w_saved w' = w_saved w \<and> E (w_db w) x (w_db w'))) w)"

lemma txn_workI:
  "(\<And>w d. w_saved w = Some d \<Longrightarrow>
      wp work (\<lambda>r w'. committed w' = d \<and> r \<noteq> Running
        \<and> (\<forall>x. r = Ok x \<longrightarrow> w_saved w' = Some d \<and> E (w_db w) x (w_db w'))) w) \<Longrightarrow> txn_work work E"
  by (auto simp: txn_work_def)

lemma txn_workD:
  "txn_work work E \<Longrightarrow> w_saved w = Some d \<Longrightarrow>
   wp work (\<lambda>r w'. committed w' = d \<and> r \<noteq> Running
     \<and> (\<forall>x. r = Ok x \<longrightarrow> w_saved w' = Some d \<and> E (w_db w) x (w_db w'))) w"
  by (auto simp: txn_work_def)

lemma txn_work_mono:
  "txn_work work E \<Longrightarrow> (\<And>d x d'. E d x d' \<Longrightarrow> F d x d') \<Longrightarrow> txn_work work F"
  unfolding txn_work_def by (blast intro: wp_mono)

lemma txn_work_bind:
  assumes m: "txn_work m E" and f: "\<And>x. txn_work (f x) (F x)"
  shows "txn_work (io_bind m f) (\<lambda>d y d'. \<exists>x c. E d x c \<and> F x c y d')"
proof (rule txn_workI)
  fix w :: "'a world" and d assume w: "w_saved w = Some d"
  show "wp (io_bind m f) (\<lambda>r w'. committed w' = d \<and> r \<noteq> Running \<and>
    (\<forall>y. r = Ok y \<longrightarrow> w_saved w' = Some d \<and> (\<exists>x c. E (w_db w) x c \<and> F x c y (w_db w')))) w"
    unfolding wp_bind
  proof (rule wp_mono [OF txn_workD [OF m w]], goal_cases)
    case (1 r w')
    then show ?case
      by (cases r) (auto intro!: wp_mono [OF txn_workD [OF f]])
  qed
qed

lemma txn_work_ret: "txn_work (io_ret x) (\<lambda>d y d'. y = x \<and> d' = d)"
  by (rule txn_workI) simp

lemma txn_work_raise: "txn_work (io_raise e) E"
  by (rule txn_workI) simp

lemma txn_work_log: "txn_work (log_event e) (\<lambda>d _ d'. d' = d)"
  by (rule txn_workI) simp

text \<open>The statements of the two write paths.\<close>

fun plain_stmt :: "stmt \<Rightarrow> bool" where
  "plain_stmt BeginImmediate = False"
| "plain_stmt Commit = False"
| "plain_stmt Rollback = False"
| "plain_stmt (PragmaQueryOnly _) = False"
| "plain_stmt (HostSql _ _) = False"
| "plain_stmt _ = True"

lemma run_plain_stmt:
  "plain_stmt s \<Longrightarrow> run_stmt ops s w =
     (if writes s \<and> w_query_only w then (Exn readonly_error, w)
      else (case stmt_effect (op_json ops) (op_ddl ops) s (w_db w) of
              Inl e \<Rightarrow> (Exn e, w) | Inr d \<Rightarrow> (Ok (), w\<lparr>w_db := d\<rparr>)))"
  by (cases s) (auto simp: run_stmt_def)

lemma txn_work_execute:
  assumes "plain_stmt s"
  shows "txn_work (execute ops s) (\<lambda>d _ d'. stmt_effect (op_json ops) (op_ddl ops) s d = Inr d')"
  by (rule txn_workI, rule execute_rule)
    (auto simp: wp_def run_plain_stmt [OF assms] split: sum.split)

lemma wp_run_control [simp]:
  "wp (run_stmt ops Commit) Q w = Q (Ok ()) (end_commit w)"
  "wp (run_stmt ops Rollback) Q w = Q (Ok ()) (end_rollback w)"
  "wp (run_stmt ops (PragmaQueryOnly b)) Q w = Q (Ok ()) (w\<lparr>w_query_only := b\<rparr>)"
  "wp (run_stmt ops BeginImmediate) Q w =
     (if in_transaction w then Q (Exn nested_begin_error) w
      else Q (Ok ()) (w\<lparr>w_saved := Some (w_db w)\<rparr>))"
  by (simp_all add: wp_def run_stmt_def)

lemma rollback_rule:
  "(\<And>r w'. committed w' = committed w \<Longrightarrow> r \<noteq> Running \<Longrightarrow>
      (\<And>x. r = Ok x \<Longrightarrow> w_saved w' = None) \<Longrightarrow> (w_saved w = None \<Longrightarrow> r = Ok () \<and> w' = w) \<Longrightarrow> Q r w')
   \<Longrightarrow> wp (rollback ops) Q w"
  unfolding rollback_def
  by (rule wp_mono [of _ "\<lambda>r w'. committed w' = committed w \<and> r \<noteq> Running
        \<and> (\<forall>x. r = Ok x \<longrightarrow> w_saved w' = None) \<and> (w_saved w = None \<longrightarrow> r = Ok () \<and> w' = w)"])
    (auto simp: wp_execute in_transaction_def split: prod.split verdict.split)

text \<open>
  The outcome of a transaction started on the tables \<open>d\<close>: on success they changed as the
  work says; on any error they are as before, unless a cancellation arrived while the
  commit ran.
\<close>

definition txn_post ::
    "(database \<Rightarrow> 'a \<Rightarrow> database \<Rightarrow> bool) \<Rightarrow> database \<Rightarrow> 'a res \<Rightarrow> 'k world \<Rightarrow> bool" where
  "txn_post E d r w' = (case r of
      Ok x \<Rightarrow> w_saved w' = None \<and> E d x (w_db w')
    | Exn e \<Rightarrow> committed w' = d
        \<or> (e = CancelledError \<and> w_saved w' = None \<and> (\<exists>x. E d x (w_db w')))
    | Running \<Rightarrow> False)"

lemma txn_post_simps [simp]:
  "txn_post E d (Ok x) w' = (w_saved w' = None \<and> E d x (w_db w'))"
  "txn_post E d (Exn e) w' =
     (committed w' = d \<or> (e = CancelledError \<and> w_saved w' = None \<and> (\<exists>x. E d x (w_db w'))))"
  "txn_post E d Running w' = False"
  by (simp_all add: txn_post_def)

lemma wp_rollback_idle [simp]: "w_saved w = None \<Longrightarrow> wp (rollback ops) Q w = Q (Ok ()) w"
  by (simp add: rollback_def in_transaction_def)

lemma attempt_txn_rule:
  assumes work: "txn_work work E" and w: "w_saved w = None"
  shows "wp (attempt_txn ops work) (txn_post E (w_db w)) w"
proof -
  let ?Q = "txn_post E (w_db w)"
  have commit: "wp (commit ops) (\<lambda>r w'. case r of
       Ok u \<Rightarrow> w_saved w' = None \<and> E (w_db w) x (w_db w')
     | Exn e \<Rightarrow> committed w' = w_db w
         \<or> (e = CancelledError \<and> w_saved w' = None \<and> E (w_db w) x (w_db w'))
     | Running \<Rightarrow> False) v"
    if "w_saved v = Some (w_db w)" "E (w_db w) x (w_db v)" for v x
    using that unfolding commit_def
    by (auto simp: wp_execute in_transaction_def split: prod.split verdict.split)
  have body: "wp (on_error (io_bind work (\<lambda>x. io_seq (commit ops) (io_ret x))) (rollback ops)) ?Q v"
    if v: "w_saved v = Some (w_db w)" "w_db v = w_db w" for v
    unfolding on_error_def wp_catch wp_bind
  proof (rule wp_mono [OF txn_workD [OF work v(1)]], goal_cases)
    case (1 r v')
    show ?case
    proof (cases r)
      case (Ok x)
      have "w_saved v' = Some (w_db w)" "E (w_db w) x (w_db v')" using 1 Ok v by auto
      note c = commit [OF this]
      show ?thesis unfolding Ok res.case wp_bind
      proof (rule wp_mono [OF c], goal_cases)
        case (1 s u)
        then show ?case by (cases s) (auto intro!: rollback_rule split: res.split)
      qed
    qed (use 1 in \<open>auto intro!: rollback_rule split: res.split\<close>)
  qed
  show ?thesis
    unfolding attempt_txn_def wp_bind wp_execute using w body
    by (auto simp: in_transaction_def split: prod.split verdict.split)
qed

text \<open>The whole run, whatever the retries.\<close>

lemma run_from_rule:
  assumes "txn_work work E" "w_saved w = None"
  shows "wp (run_from ops work deadline n) (txn_post E (w_db w)) w"
  using assms
proof (induction ops work deadline n arbitrary: w rule: run_from.induct)
  case (1 ops work deadline n)
  show ?case
    unfolding run_from.simps [of ops work deadline n] wp_catch
  proof (rule wp_mono [OF attempt_txn_rule [OF "1.prems"]], goal_cases)
    case (1 r w')
    show ?case
    proof (cases r)
      case (Exn e)
      show ?thesis
      proof (cases "is_sqlite_error e \<and> is_busy e")
        case False
        with 1 Exn show ?thesis by auto
      next
        case True
        with 1 Exn have c: "committed w' = w_db w" by auto
        have again: "wp (io_bind (ask (op_clock ops)) (\<lambda>now.
             if n \<ge> BUSY_RETRY_MAX_ATTEMPTS \<or> deadline - now \<le> 0
             then io_raise (StorageError (Some e))
             else io_seq
               (call (op_sleep ops (min (BUSY_BACKOFF_BASE_SECONDS * of_nat n) (deadline - now))))
               (run_from ops work deadline (n + 1))))
            (txn_post E (w_db w)) v"
          if v: "w_saved v = None" "w_db v = w_db w" for v
        proof -
          have loop: "wp (run_from ops work deadline (n + 1)) (txn_post E (w_db w)) u"
            if "\<not> (n \<ge> BUSY_RETRY_MAX_ATTEMPTS \<or> deadline - now \<le> 0)" "w_saved u = None" "w_db u = w_db w"
            for u now
            using "1.IH" [of e now u] that True "1.prems"(1) by simp
          show ?thesis using v
            by (simp split: prod.split sum.split) (use loop v in \<open>auto simp: not_le\<close>)
        qed
        have settle: "wp (io_bind (io_gets in_transaction) (\<lambda>t. io_seq (io_when t (rollback ops)) M))
            (txn_post E (w_db w)) w'"
          if "\<And>v. w_saved v = None \<Longrightarrow> w_db v = w_db w \<Longrightarrow> wp M (txn_post E (w_db w)) v" for M
          using c that by (cases "in_transaction w'")
            (auto simp: in_transaction_def intro!: rollback_rule split: res.split)
        from settle [OF again] True show ?thesis by (simp only: Exn res.case) simp
      qed
    qed (use 1 in auto)
  qed
qed

lemma run_txn_rule:
  "txn_work work E \<Longrightarrow> w_saved w = None \<Longrightarrow> wp (run_txn ops bt work) (txn_post E (w_db w)) w"
  unfolding run_txn_def
  by (auto split: prod.split intro!: wp_mono [OF run_from_rule])

section \<open>Checkout\<close>

text \<open>Steps that cannot change the committed tables, and open no transaction.\<close>

definition quiet :: "'k world \<Rightarrow> 'k world \<Rightarrow> bool" where
  "quiet w w' \<longleftrightarrow> committed w' = committed w \<and> (w_saved w = None \<longrightarrow> w_saved w' = None)"

interpretation quiet_frame: preorder_rel quiet
  by unfold_locales (auto simp: quiet_def)

fun read_stmt :: "stmt \<Rightarrow> bool" where
  "read_stmt BeginImmediate = False"
| "read_stmt Commit = False"
| "read_stmt (HostSql _ _) = False"
| "read_stmt s = (\<not> writes s)"

lemma quiet_simps [simp]:
  "quiet w (w\<lparr>w_env := k\<rparr>)" "quiet w (w\<lparr>w_query_only := b\<rparr>)" "quiet w (w\<lparr>w_query_only := b, w_row_factory := c\<rparr>)" "quiet w (w\<lparr>w_log := l\<rparr>)"
  "quiet w (end_rollback w)" "quiet w w"
  by (auto simp: quiet_def)

lemma quiet_ask: "keeps quiet (ask f)"
  by (rule keepsI) (auto simp: ask_def split: prod.splits)

lemma quiet_call: "keeps quiet (call f)"
  by (rule keepsI) (auto simp: call_def split: prod.splits sum.splits)

lemma quiet_run_stmt: "read_stmt s \<Longrightarrow> keeps quiet (run_stmt ops s)"
  by (rule keepsI) (cases s; auto simp: run_stmt_def)

lemma quiet_execute: "read_stmt s \<Longrightarrow> keeps quiet (execute ops s)"
  unfolding execute_def
  by (intro quiet_frame.keeps_combinators quiet_ask)
    (auto split: verdict.split
      intro!: quiet_frame.keeps_combinators quiet_frame.keeps_modify quiet_run_stmt)

lemma quiet_fetch: "read_stmt s \<Longrightarrow> keeps quiet (fetch ops s f)"
  unfolding fetch_def by (intro quiet_frame.keeps_combinators quiet_execute)

lemma quiet_rollback: "keeps quiet (rollback ops)"
  unfolding rollback_def by (intro quiet_frame.keeps_combinators quiet_execute) simp

lemma quiet_open_connection: "keeps quiet (open_connection ops bt)"
  unfolding open_connection_def on_error_def
  by (intro quiet_frame.keeps_combinators quiet_execute quiet_ask quiet_frame.keeps_modify keeps_if) simp_all

text \<open>
  A checkout over committed tables: what holds of the body's result and of the tables it
  committed holds of the whole, when an exception of the pool may take the result's place.
\<close>

lemma acquire_rule:
  assumes "w_saved w = None"
  shows "wp (acquire ops bt) (\<lambda>r v. committed v = w_db w \<and> r \<noteq> Running \<and> (\<forall>e. r = Exn e \<longrightarrow> w_saved v = None)) w"
  using assms wp_conj [OF keeps_wp [OF quiet_open_connection] halts_wp [OF halts_open_connection],
      of ops bt "w\<lparr>w_env := _\<rparr>"]
  by (auto simp: acquire_def quiet_def committed_def split: prod.split sum.split acquired.split
      intro: wp_mono)

lemma release_rule: "wp (release ops) (\<lambda>s u. w_saved u = None \<and> w_db u = committed v \<and> s \<noteq> Running) v"
  by (auto simp: release_def split: prod.split sum.split)

lemma cleaned_rule:
  assumes v: "committed v = d"
    and body: "\<And>u. w_saved u = None \<Longrightarrow> w_db u = d \<Longrightarrow> \<not> w_query_only u \<Longrightarrow> wp body (\<lambda>r u. P r (committed u)) u"
    and fail: "\<And>e. P (Exn e) d"
  shows "wp (io_seq (io_bind (io_gets in_transaction) (\<lambda>t. io_when t (rollback ops)))
      (io_seq (execute ops (PragmaQueryOnly False)) body)) (\<lambda>r u. P r (committed u)) v"
proof -
  have hygiene: "wp (io_bind (io_gets in_transaction) (\<lambda>t. io_when t (rollback ops)))
      (\<lambda>r u. committed u = committed v \<and> r \<noteq> Running \<and> (\<forall>x. r = Ok x \<longrightarrow> w_saved u = None)) v"
    by (auto simp: in_transaction_def intro!: rollback_rule)
  show ?thesis unfolding wp_bind [of "io_bind _ _"]
  proof (rule wp_mono [OF hygiene], goal_cases)
    case (1 r u)
    show ?case
    proof (cases r)
      case (Ok x)
      have u: "w_saved u = None" "w_db u = d" using 1 Ok v by auto
      have off: "wp (execute ops (PragmaQueryOnly False)) (\<lambda>r v. \<forall>x. r = Ok x \<longrightarrow> \<not> w_query_only v) u"
        by (auto simp: wp_execute split: prod.split verdict.split)
      show ?thesis unfolding Ok res.case wp_bind
      proof (rule wp_mono [OF wp_conj [OF off
            wp_conj [OF keeps_wp [OF quiet_execute] halts_wp [OF halts_execute]]]], simp, goal_cases)
        case (1 s y)
        with u fail show ?case by (cases s) (auto simp: quiet_def intro: body)
      qed
    qed (use 1 v fail in auto)
  qed
qed

lemma checked_out_rule:
  assumes w: "w_saved w = None"
    and body: "\<And>v. w_saved v = None \<Longrightarrow> w_db v = w_db w \<Longrightarrow> \<not> w_query_only v \<Longrightarrow> wp body (\<lambda>r v'. P r (committed v')) v"
    and fail: "\<And>e. P (Exn e) (w_db w)"
    and replaced: "\<And>r d e. r \<noteq> Running \<Longrightarrow> P r d \<Longrightarrow> P (Exn e) d"
    and runs: "\<And>d. \<not> P Running d"
  shows "wp (checked_out ops bt body) (\<lambda>r w'. w_saved w' = None \<and> P r (w_db w')) w"
proof -
  have inner: "wp (io_finally
      (io_seq (io_bind (io_gets in_transaction) (\<lambda>t. io_when t (rollback ops)))
        (io_seq (execute ops (PragmaQueryOnly False)) body))
      (release ops)) (\<lambda>r w'. w_saved w' = None \<and> P r (w_db w')) v"
    if v: "committed v = w_db w" for v
    unfolding wp_finally
  proof (rule wp_mono [OF cleaned_rule [OF v body fail]], assumption+, goal_cases)
    case (1 r u)
    then show ?case
      by (cases r) (auto intro!: wp_mono [OF release_rule] intro: replaced simp: runs split: res.split)
  qed
  show ?thesis unfolding checked_out_def wp_catch wp_bind
  proof (rule wp_mono [OF acquire_rule [OF w]], goal_cases)
    case (1 r v)
    show ?case
    proof (cases r)
      case (Ok x)
      with 1 have v: "committed v = w_db w" by simp
      show ?thesis unfolding Ok res.case
      proof (rule wp_mono [OF inner [OF v]], goal_cases)
        case (1 s u)
        then show ?case by (cases s) (auto intro: replaced simp: runs)
      qed
    qed (use 1 fail w in auto)
  qed
qed

lemma checked_out_txn_rule:
  assumes "txn_work work E" "w_saved w = None"
  shows "wp (checked_out ops bt (run_txn ops bt work))
     (\<lambda>r w'. w_saved w' = None \<and>
        (case r of Ok x \<Rightarrow> E (w_db w) x (w_db w')
         | Exn e \<Rightarrow> w_db w' = w_db w \<or> (\<exists>x. E (w_db w) x (w_db w')) | Running \<Rightarrow> False)) w"
proof (rule checked_out_rule [where P = "\<lambda>r d. case r of Ok x \<Rightarrow> E (w_db w) x d
    | Exn e \<Rightarrow> d = w_db w \<or> (\<exists>x. E (w_db w) x d) | Running \<Rightarrow> False"])
  fix v :: "'a world" assume v: "w_saved v = None" "w_db v = w_db w"
  show "wp (run_txn ops bt work) (\<lambda>r v'. case r of Ok x \<Rightarrow> E (w_db w) x (committed v')
      | Exn e \<Rightarrow> committed v' = w_db w \<or> (\<exists>x. E (w_db w) x (committed v')) | Running \<Rightarrow> False) v"
    by (rule wp_mono [OF run_txn_rule [OF assms(1) v(1)]]) (auto simp: txn_post_def v split: res.splits)
qed (auto simp: assms(2) split: res.splits)

section \<open>Errors that leave a transaction\<close>

text \<open>
  The boundary mapping: the runner turns every SQLite error of an attempt into a
  \<open>StorageError\<close> once the retries are used up.
\<close>

lemma run_from_maps_errors:
  assumes rollback: "\<And>k. fst (op_verdict ops Rollback k) \<in> {Runs, RunsCancelled}"
    and sleep: "\<And>t k e. fst (op_sleep ops t k) = Inl e \<Longrightarrow> \<not> is_sqlite_error e"
  shows "wp (run_from ops work deadline n) (\<lambda>r w'. \<forall>e. r = Exn e \<longrightarrow> \<not> is_sqlite_error e) w"
  using assms
proof (induction ops work deadline n arbitrary: w rule: run_from.induct)
  case (1 ops work deadline n)
  have silent: "wp (rollback ops) (\<lambda>r w'. r = Ok () \<or> r = Exn CancelledError) v" for v :: "'a world"
    using "1.prems"(1) [of "w_env v"]
    by (auto simp: rollback_def wp_execute split: prod.split verdict.split)
  have loop: "wp (run_from ops work deadline (Suc n)) (\<lambda>r w'. \<forall>e. r = Exn e \<longrightarrow> \<not> is_sqlite_error e) u"
    if "is_sqlite_error e" "is_busy e" "\<not> BUSY_RETRY_MAX_ATTEMPTS \<le> n" "\<not> deadline \<le> now" for u e now
    using "1.IH" [of e now u] that "1.prems" by simp
  have again: "wp (io_bind (ask (op_clock ops)) (\<lambda>now.
             if n \<ge> BUSY_RETRY_MAX_ATTEMPTS \<or> deadline - now \<le> 0
             then io_raise (StorageError (Some e))
             else io_seq
               (call (op_sleep ops (min (BUSY_BACKOFF_BASE_SECONDS * of_nat n) (deadline - now))))
               (run_from ops work deadline (n + 1))))
        (\<lambda>r w'. \<forall>e. r = Exn e \<longrightarrow> \<not> is_sqlite_error e) v"
    if e: "is_sqlite_error e" "is_busy e" for v e
    using "1.prems"(2)
    by (auto split: prod.split sum.split) (use loop [OF e] in \<open>auto simp: not_le, metis fst_conv\<close>)
  show ?case
    unfolding run_from.simps [of ops work deadline n] wp_catch
  proof (rule wpI, goal_cases)
    case (1 r v)
    show ?case
    proof (cases r)
      case (Exn e)
      have settle: "wp (io_bind (io_gets in_transaction) (\<lambda>t. io_seq (io_when t (rollback ops)) M))
          (\<lambda>r w'. \<forall>e. r = Exn e \<longrightarrow> \<not> is_sqlite_error e) v"
        if "\<And>u. wp M (\<lambda>r w'. \<forall>e. r = Exn e \<longrightarrow> \<not> is_sqlite_error e) u"
        for M :: "('a, 'b) act"
        using that by (auto intro!: wp_mono [OF silent])
      show ?thesis
      proof (cases "is_sqlite_error e \<and> is_busy e")
        case True
        with settle [OF again] show ?thesis
          by (simp only: Exn res.case simp_thms not_True_eq_False if_False)
      qed (auto simp: Exn)
    qed auto
  qed
qed

section \<open>Counting statements\<close>

text \<open>
  \<open>rises G n m\<close>: a run of \<open>m\<close> raises the count \<open>G\<close> of the outside's state by \<open>n\<close> at most.
\<close>

definition rises :: "('k \<Rightarrow> nat) \<Rightarrow> nat \<Rightarrow> ('k, 'a) act \<Rightarrow> bool" where
  "rises G n m = (\<forall>w. G (w_env (snd (m w))) \<le> G (w_env w) + n)"

lemma risesI: "(\<And>w r w'. m w = (r, w') \<Longrightarrow> G (w_env w') \<le> G (w_env w) + n) \<Longrightarrow> rises G n m"
  by (simp add: rises_def) (metis prod.collapse)

lemma risesD: "rises G n m \<Longrightarrow> m w = (r, w') \<Longrightarrow> G (w_env w') \<le> G (w_env w) + n"
  by (simp add: rises_def) (metis snd_conv)

lemma rises_bind:
  assumes "rises G a m" "\<And>x. rises G b (f x)" "a + b \<le> n"
  shows "rises G n (io_bind m f)"
proof (rule risesI)
  fix w r w' assume "io_bind m f w = (r, w')"
  then show "G (w_env w') \<le> G (w_env w) + n"
    using assms(3) by (auto simp: io_simps split: prod.splits res.splits
        dest!: risesD [OF assms(1)] risesD [OF assms(2)])
qed

lemma rises_catch:
  assumes "rises G a m" "\<And>e. rises G b (h e)" "a + b \<le> n"
  shows "rises G n (io_catch m h)"
proof (rule risesI)
  fix w r w' assume "io_catch m h w = (r, w')"
  then show "G (w_env w') \<le> G (w_env w) + n"
    using assms(3) by (auto simp: io_simps split: prod.splits res.splits
        dest!: risesD [OF assms(1)] risesD [OF assms(2)])
qed

lemma rises_pure: "rises G n (io_ret x)" "rises G n (io_raise e)" "rises G n (io_gets f)"
  "rises G n (run_stmt ops s)" "rises G n (io_modify end_rollback)"
  by (auto simp: rises_def io_simps run_stmt_def host_stmt_def end_commit_def end_rollback_def
      split: stmt.split sum.split host_effect.split)

lemma rises_if:
  "(b \<Longrightarrow> rises G n l) \<Longrightarrow> (\<not> b \<Longrightarrow> rises G n m) \<Longrightarrow> rises G n (if b then l else m)"
  by simp

lemma rises_when: "rises G n m \<Longrightarrow> rises G n (io_when b m)"
  by (simp add: io_when_def rises_pure)

lemma rises_execute:
  assumes "\<And>k. G (snd (op_verdict ops s k)) \<le> G k + n"
  shows "rises G n (execute ops s)"
  unfolding execute_def
proof (rule rises_bind [where a = n and b = 0])
  show "rises G n (ask (op_verdict ops s))"
    using assms by (auto simp: rises_def ask_def split: prod.split) (metis snd_conv)
  show "rises G 0 (case v of Runs \<Rightarrow> run_stmt ops s | Fails e \<Rightarrow> io_raise e
      | Aborts e \<Rightarrow> io_seq (io_modify end_rollback) (io_raise e)
      | RunsCancelled \<Rightarrow> io_seq (run_stmt ops s) (io_raise CancelledError))" for v
    by (cases v) (auto intro: rises_pure rises_bind [where a = 0 and b = 0])
qed simp

lemma rises_run_from:
  assumes v: "\<And>s k. G (snd (op_verdict ops s k)) \<le> G k + (if s = BeginImmediate then 1 else 0)"
    and c: "\<And>k. G (snd (op_clock ops k)) \<le> G k"
    and sl: "\<And>t k. G (snd (op_sleep ops t k)) \<le> G k"
    and work: "rises G 0 work"
  shows "rises G (Suc (BUSY_RETRY_MAX_ATTEMPTS - n)) (run_from ops work deadline n)"
  using assms
proof (induction ops work deadline n rule: run_from.induct)
  case (1 ops work deadline n)
  note pure = rises_pure [where ?n = 0]
  have other: "rises G 0 (execute ops s)" if "s \<noteq> BeginImmediate" for s
    by (rule rises_execute) (use "1.prems"(1) [of s] that in simp)
  have undo: "rises G 0 (rollback ops)" and finish: "rises G 0 (commit ops)"
    unfolding rollback_def commit_def io_when_def
    by (auto intro!: rises_bind [where a = 0 and b = 0] pure other)
  have attempt: "rises G 1 (attempt_txn ops work)"
    unfolding attempt_txn_def on_error_def
  proof (rule rises_bind [where a = 1 and b = 0])
    show "rises G 1 (execute ops BeginImmediate)"
      by (rule rises_execute) (use "1.prems"(1) [of BeginImmediate] in simp)
    show "rises G 0 (io_catch (io_bind work (\<lambda>x. io_seq (commit ops) (io_ret x)))
        (\<lambda>e. io_seq (rollback ops) (io_raise e)))"
      by (intro rises_catch [where a = 0 and b = 0] rises_bind [where a = 0 and b = 0]
          "1.prems"(4) finish undo pure) simp_all
  qed simp
  have clock: "rises G 0 (ask (op_clock ops))"
    using "1.prems"(2) by (auto simp: rises_def ask_def split: prod.split) (metis snd_conv)
  have sleep: "rises G 0 (call (op_sleep ops t))" for t
    using "1.prems"(3) [of t] by (auto simp: rises_def call_def split: prod.split sum.split) (metis snd_conv)+
  have again: "rises G (BUSY_RETRY_MAX_ATTEMPTS - n) (run_from ops work deadline (n + 1))"
    if "\<not> \<not> is_sqlite_error e" "\<not> \<not> is_busy e" "\<not> (n \<ge> BUSY_RETRY_MAX_ATTEMPTS \<or> deadline - now \<le> 0)"
    for e now
    using "1.IH" [OF that "1.prems"] that(3) by (simp add: Suc_diff_Suc)
  let ?b = "BUSY_RETRY_MAX_ATTEMPTS - n"
  show ?case
    unfolding run_from.simps [of ops work deadline n]
  proof (rule rises_catch [OF attempt, where b = ?b])
    fix e
    show "rises G ?b (if \<not> is_sqlite_error e then io_raise e
       else if \<not> is_busy e then io_raise (StorageError (Some e))
       else io_bind (io_gets in_transaction) (\<lambda>t.
         io_seq (io_when t (rollback ops))
         (io_bind (ask (op_clock ops)) (\<lambda>now.
           if n \<ge> BUSY_RETRY_MAX_ATTEMPTS \<or> deadline - now \<le> 0
           then io_raise (StorageError (Some e))
           else io_seq
             (call (op_sleep ops (min (BUSY_BACKOFF_BASE_SECONDS * of_nat n) (deadline - now))))
             (run_from ops work deadline (n + 1))))))"
      by (intro rises_if rises_bind [where a = 0 and b = ?b] pure rises_pure clock sleep
          rises_when undo; (rule again; assumption)?) simp_all
  qed simp
qed

section \<open>Properties\<close>

text \<open>
  C8. A write transaction is all-or-nothing under every schedule of busy errors, failed and
  aborted statements, retries and cancellations: if the runner returns, no transaction is
  left open and the tables are those the work made of the committed ones; if it raises, the
  committed tables are unchanged, the one exception being a cancellation that arrived while
  the commit itself ran, where the whole work is committed.
\<close>

theorem transaction_all_or_nothing:
  assumes "txn_work work E" "w_saved w = None"
  shows "case run_txn ops busy_timeout work w of
      (Ok x, w') \<Rightarrow> w_saved w' = None \<and> E (w_db w) x (w_db w')
    | (Exn e, w') \<Rightarrow> committed w' = w_db w
        \<or> (e = CancelledError \<and> w_saved w' = None \<and> (\<exists>x. E (w_db w) x (w_db w')))
    | (Running, w') \<Rightarrow> False"
  using run_txn_rule [OF assms, of ops busy_timeout]
  by (auto simp: wp_def split: prod.splits res.splits)

definition busy_once :: "fake world" where
  "busy_once = boot (fake_start\<lparr>fk_verdicts := [Fails (SqliteError True (lit ''database is locked''))]\<rparr>)
     empty_database"

lemma transaction_all_or_nothing_witness:
  "case run_txn fake_ops 5 (execute fake_ops (OwnedInsert sample_tp)) busy_once of
      (Ok x, w') \<Rightarrow> w_saved w' = None
        \<and> stmt_effect (op_json fake_ops) (op_ddl fake_ops) (OwnedInsert sample_tp) (w_db busy_once)
            = Inr (w_db w')
    | (Exn e, w') \<Rightarrow> committed w' = w_db busy_once
        \<or> (e = CancelledError \<and> w_saved w' = None
           \<and> (\<exists>x::unit. stmt_effect (op_json fake_ops) (op_ddl fake_ops) (OwnedInsert sample_tp)
                (w_db busy_once) = Inr (w_db w')))
    | (Running, w') \<Rightarrow> False"
  by (rule transaction_all_or_nothing [OF txn_work_execute]) (simp_all add: busy_once_def)


definition disk_full :: exn where
  "disk_full = SqliteError True (lit ''disk is full'')"

lemma disk_full_not_busy: "\<not> is_busy disk_full"
  by (simp add: disk_full_def is_busy_error_def py_lower_def lit_def Let_def)




text \<open>
  C26. The retry is bounded: for every measure of the outside that only a \<^verbatim>\<open>BEGIN IMMEDIATE\<close> can
  raise, and by one, a run of the transaction raises it by three at most, so the runner
  makes at most three attempts, whatever the engine answers and however the clock moves.
\<close>

theorem attempts_bounded:
  fixes G :: "'k \<Rightarrow> nat" and work :: "('k, 'a) act"
  assumes "\<And>s k. G (snd (op_verdict ops s k)) \<le> G k + (if s = BeginImmediate then 1 else 0)"
    and "\<And>k. G (snd (op_clock ops k)) \<le> G k"
    and "\<And>t k. G (snd (op_sleep ops t k)) \<le> G k"
    and "\<And>v. G (w_env (snd (work v))) \<le> G (w_env v)"
  shows "G (w_env (snd (run_txn ops busy_timeout work w))) \<le> G (w_env w) + 3"
proof -
  have work: "rises G 0 work" using assms(4) by (simp add: rises_def)
  have clock: "rises G 0 (ask (op_clock ops))"
    using assms(2) by (auto simp: rises_def ask_def split: prod.split) (metis snd_conv)
  have "rises G 3 (run_txn ops busy_timeout work)"
    unfolding run_txn_def
    by (rule rises_bind [OF clock rises_run_from [OF assms(1-3) work]])
      (simp_all add: BUSY_RETRY_MAX_ATTEMPTS_def)
  then show ?thesis by (simp add: rises_def)
qed

definition begins :: "fake \<Rightarrow> nat" where
  "begins k = length (filter (\<lambda>s. s = BeginImmediate) (fk_statements k))"

lemma attempts_bounded_witness:
  "begins (w_env (snd (run_txn fake_ops 5 (io_ret ()) busy_once))) \<le> begins (w_env busy_once) + 3"
  by (rule attempts_bounded)
    (auto simp: begins_def fake_ops_def fake_verdict_def Let_def io_simps split: list.split)

end
