(* ===== verification/Materialization.thy ===== *)
theory Materialization imports
  Connection_Pool
begin

text \<open>
  The materialization statements of \<^verbatim>\<open>_schema.py\<close> as both write paths use them:
  \<^verbatim>\<open>apply_materialization\<close> (one append) and the records of a replayed batch. The records
  table is a store that deduplicates by message id, the checkpoint table a checkpoint
  store; the laws of both are proved here and their consequences (replay twice is replay
  once, one upsert per batch is one per record) follow.
\<close>

section \<open>Deduplicating stores\<close>

text \<open>
  The contract of a table with a unique key and \<^verbatim>\<open>ON CONFLICT DO NOTHING\<close>: a known key is
  no change, a stored key becomes known, and whether a row is refused does not depend on
  the store.
\<close>

locale dedup_store =
  fixes put :: "'r \<Rightarrow> 's \<Rightarrow> 'e + 's"
    and key :: "'r \<Rightarrow> 'i"
    and keys :: "'s \<Rightarrow> 'i set"
  assumes put_known: "key r \<in> keys s \<Longrightarrow> put r s = Inr s' \<Longrightarrow> s' = s"
    and put_keys: "put r s = Inr s' \<Longrightarrow> keys s' = insert (key r) (keys s)"
    and put_refused: "put r s = Inl e \<Longrightarrow> put r t = Inl e"
begin

fun run :: "'r list \<Rightarrow> 's \<Rightarrow> 'e + 's" where
  "run [] s = Inr s"
| "run (r # rs) s = (case put r s of Inl e \<Rightarrow> Inl e | Inr s' \<Rightarrow> run rs s')"

lemma run_append: "run (xs @ ys) s = (case run xs s of Inl e \<Rightarrow> Inl e | Inr s' \<Rightarrow> run ys s')"
  by (induction xs arbitrary: s) (auto split: sum.split)

lemma run_keys: "run rs s = Inr s' \<Longrightarrow> keys s' = key ` set rs \<union> keys s"
  by (induction rs arbitrary: s) (auto split: sum.splits dest: put_keys)

lemma put_accepted: "put r s = Inr s' \<Longrightarrow> \<exists>t'. put r t = Inr t'"
  by (metis put_refused sum.exhaust)

lemma run_refused: "run rs s = Inl e \<Longrightarrow> run rs t = Inl e"
proof (induction rs arbitrary: s t)
  case (Cons r rs)
  show ?case
  proof (cases "put r s")
    case (Inl f)
    with Cons.prems put_refused [OF Inl] show ?thesis by simp
  next
    case (Inr s')
    obtain t' where "put r t = Inr t'" using put_accepted [OF Inr] by blast
    with Cons Inr show ?thesis by simp
  qed
qed simp

lemma run_accepted: "run rs s = Inr s' \<Longrightarrow> \<exists>t'. run rs t = Inr t'"
  by (metis run_refused sum.exhaust)

lemma run_known: "key ` set rs \<subseteq> keys s \<Longrightarrow> run rs s = Inr s' \<Longrightarrow> s' = s"
proof (induction rs arbitrary: s)
  case (Cons r rs)
  obtain t where t: "put r s = Inr t" "run rs t = Inr s'"
    using Cons.prems(2) by (auto split: sum.splits)
  have "t = s" using put_known [OF _ t(1)] Cons.prems(1) by simp
  with Cons.IH [of t] Cons.prems(1) t(2) show ?case by simp
qed simp

lemma run_again: "run rs s = Inr s' \<Longrightarrow> set qs \<subseteq> set rs \<Longrightarrow> run qs s' = Inr s'"
proof -
  assume a: "run rs s = Inr s'" "set qs \<subseteq> set rs"
  have ok: "\<exists>t'. run xs t = Inr t'" if "set xs \<subseteq> set rs" for xs t
    using that
  proof (induction xs arbitrary: t)
    case (Cons x xs)
    then obtain ys zs where "rs = ys @ x # zs" by (metis split_list list.set_intros(1) subsetD)
    with a(1) obtain u u' where "put x u = Inr u'" by (auto simp: run_append split: sum.splits)
    then obtain t' where "put x t = Inr t'" using put_accepted by blast
    with Cons show ?case by simp
  qed simp
  from ok [OF a(2)] obtain t' where t': "run qs s' = Inr t'" by blast
  moreover have "t' = s'"
    by (rule run_known [OF _ t']) (use run_keys [OF a(1)] a(2) in auto)
  ultimately show ?thesis by simp
qed

text \<open>A store that already holds a part of the rows ends where the whole run would end.\<close>

lemma run_resume:
  assumes "run (ps @ qs) s = Inr s'" "run ps s = Inr p"
  shows "run (ps @ qs) p = Inr s'" "run qs p = Inr s'"
proof -
  show q: "run qs p = Inr s'" using assms by (simp add: run_append)
  have "run ps p = Inr p" by (rule run_again [OF assms(2)]) simp
  with q show "run (ps @ qs) p = Inr s'" by (simp add: run_append)
qed

end

definition message_ids :: "database \<Rightarrow> pystr set" where
  "message_ids d = message_id ` set (db_records d)"

lemma has_message_iff: "has_message (db_records d) i \<longleftrightarrow> i \<in> message_ids d"
  by (auto simp: has_message_def message_ids_def list_ex_iff)

lemma insert_record_cases:
  "insert_record json r d =
     (case json (payload r) of
        None \<Rightarrow> Inl malformed_json
      | Some j \<Rightarrow> Inr (if message_id r \<in> message_ids d then d
                      else d\<lparr>db_records := db_records d @ [r\<lparr>payload := j\<rparr>]\<rparr>))"
  by (simp add: insert_record_def has_message_iff split: option.split)

interpretation records: dedup_store "insert_record json" message_id message_ids for json
  by unfold_locales
    (auto simp: insert_record_cases message_ids_def split: option.splits if_splits)

interpretation checkpoints: checkpoint_store db_checkpoints checkpoint_upsert checkpoint_clamp
  by unfold_locales (simp_all add: checkpoint_upsert_def checkpoint_clamp_def advanced_def)

section \<open>Table invariants\<close>

text \<open>The unique constraint on the message id, and a table to which rows were only added.\<close>

definition unique_messages :: "database \<Rightarrow> bool" where
  "unique_messages d = distinct (map message_id (db_records d))"

definition rows_added :: "database \<Rightarrow> database \<Rightarrow> bool" where
  "rows_added d d' \<longleftrightarrow> (\<exists>rs. db_records d' = db_records d @ rs)"

lemma rows_added_refl [simp]: "rows_added d d"
  by (simp add: rows_added_def)

lemma rows_added_trans: "rows_added a b \<Longrightarrow> rows_added b c \<Longrightarrow> rows_added a c"
  by (auto simp: rows_added_def)

lemma rows_added_set: "rows_added d d' \<Longrightarrow> set (db_records d) \<subseteq> set (db_records d')"
  by (auto simp: rows_added_def)

lemma insert_record_invariants:
  assumes "insert_record json r d = Inr d'"
  shows "rows_added d d'" "unique_messages d \<Longrightarrow> unique_messages d'"
    "db_checkpoints d' = db_checkpoints d" "db_owned d' = db_owned d" "db_catalog d' = db_catalog d"
  using assms
  by (auto simp: insert_record_cases rows_added_def unique_messages_def message_ids_def
      split: option.splits if_splits)

lemma records_run_invariants:
  assumes "records.run json rs d = Inr d'"
  shows "rows_added d d'" "unique_messages d \<Longrightarrow> unique_messages d'"
    "db_checkpoints d' = db_checkpoints d" "db_owned d' = db_owned d" "db_catalog d' = db_catalog d"
  using assms
  by (induction rs arbitrary: d)
    (auto split: sum.splits dest: insert_record_invariants intro: rows_added_trans)

lemma checkpoint_upsert_simps [simp]:
  "db_records (checkpoint_upsert d tp n) = db_records d"
  "db_owned (checkpoint_upsert d tp n) = db_owned d"
  "db_catalog (checkpoint_upsert d tp n) = db_catalog d"
  by (simp_all add: checkpoint_upsert_def)

lemma message_ids_upsert [simp]: "message_ids (checkpoint_upsert d tp n) = message_ids d"
  by (simp add: message_ids_def)

section \<open>The append pair\<close>

definition apply_materialization :: "'k ops \<Rightarrow> db_record \<Rightarrow> ('k, unit) act" where
  "apply_materialization ops r =
     io_seq (execute ops (InsertRecord r))
       (execute ops (CheckpointUpsert (row_tp r) (changelog_offset r)))"

text \<open>Its effect on the tables.\<close>

definition materialized ::
    "(pystr \<Rightarrow> pystr option) \<Rightarrow> db_record \<Rightarrow> database \<Rightarrow> exn + database" where
  "materialized json r d =
     (case insert_record json r d of
        Inl e \<Rightarrow> Inl e
      | Inr d' \<Rightarrow> Inr (checkpoint_upsert d' (row_tp r) (changelog_offset r)))"

lemma materialized_records:
  assumes "materialized json row d = Inr d'"
  obtains j where "json (payload row) = Some j"
    "db_records d' = (if message_id row \<in> message_ids d then db_records d else db_records d @ [row\<lparr>payload := j\<rparr>])"
  using assms by (cases "json (payload row)")
    (auto simp: materialized_def insert_record_cases split: sum.splits if_splits)

lemma unique_message_row:
  assumes "unique_messages d" "r \<in> set (db_records d)"
  shows "filter (\<lambda>x. message_id x = message_id r) (db_records d) = [r]"
proof -
  obtain xs ys where split: "db_records d = xs @ r # ys" using assms(2) by (auto dest: split_list)
  then have "message_id r \<notin> message_id ` set xs" "message_id r \<notin> message_id ` set ys"
    using assms(1) by (auto simp: unique_messages_def)
  then have "filter (\<lambda>x. message_id x = message_id r) xs = []" "filter (\<lambda>x. message_id x = message_id r) ys = []"
    by (auto simp: filter_empty_conv image_iff)
  then show ?thesis using split by simp
qed

lemma txn_work_apply_materialization:
  "txn_work (apply_materialization ops r) (\<lambda>d _ d'. materialized (op_json ops) r d = Inr d')"
  unfolding apply_materialization_def
  by (rule txn_work_mono [OF txn_work_bind [OF txn_work_execute txn_work_execute]])
    (auto simp: materialized_def)

lemma halts_apply_materialization [halts_intros]: "halts (apply_materialization ops r)"
  unfolding apply_materialization_def by (intro halts_intros)

lemma keeps_apply_materialization: "keeps same_memory (apply_materialization ops r)"
  unfolding apply_materialization_def by (intro keeps_basics keeps_execute)

text \<open>Materializing commutes with the upserts of the same partition.\<close>

lemma insert_after_upsert:
  "insert_record json r (checkpoint_upsert d tp n) =
     (case insert_record json r d of Inl e \<Rightarrow> Inl e | Inr d' \<Rightarrow> Inr (checkpoint_upsert d' tp n))"
  by (auto simp: insert_record_cases checkpoint_upsert_def message_ids_def split: option.split)

lemma upsert_twice:
  "checkpoint_upsert (checkpoint_upsert d tp m) tp n = checkpoint_upsert d tp (max m n)"
  by (auto simp: checkpoint_upsert_def max.assoc split: option.split)

lemma upsert_at_least:
  "\<exists>c. db_checkpoints (checkpoint_upsert d tp n) tp = Some c \<and> n \<le> c"
  by (auto simp: checkpoint_upsert_def split: option.split)

text \<open>
  Two ways to write a sequence of records: the inserts of a replayed batch, and one
  append after the other.
\<close>

fun inserted_all ::
    "(pystr \<Rightarrow> pystr option) \<Rightarrow> db_record list \<Rightarrow> database \<Rightarrow> exn + database" where
  "inserted_all json [] d = Inr d"
| "inserted_all json (r # rs) d =
     (case insert_record json r d of Inl e \<Rightarrow> Inl e | Inr d' \<Rightarrow> inserted_all json rs d')"

lemma inserted_all_run: "inserted_all json rs d = records.run json rs d"
  by (induction rs arbitrary: d) (simp_all split: sum.split)

fun materialized_all ::
    "(pystr \<Rightarrow> pystr option) \<Rightarrow> db_record list \<Rightarrow> database \<Rightarrow> exn + database" where
  "materialized_all json [] d = Inr d"
| "materialized_all json (r # rs) d =
     (case materialized json r d of Inl e \<Rightarrow> Inl e | Inr d' \<Rightarrow> materialized_all json rs d')"

lemma run_after_upsert:
  "records.run json rs (checkpoint_upsert d tp n) =
     (case records.run json rs d of Inl e \<Rightarrow> Inl e | Inr d' \<Rightarrow> Inr (checkpoint_upsert d' tp n))"
  by (induction rs arbitrary: d) (auto simp: insert_after_upsert split: sum.split)

lemma materialized_all_run:
  assumes "rs \<noteq> []" "list_all (\<lambda>r. row_tp r = tp) rs"
  shows "materialized_all json rs d =
     (case records.run json rs d of
        Inl e \<Rightarrow> Inl e
      | Inr d' \<Rightarrow> Inr (checkpoint_upsert d' tp (Max (changelog_offset ` set rs))))"
  using assms
proof (induction rs arbitrary: d)
  case (Cons r rs)
  show ?case
  proof (cases "insert_record json r d")
    case (Inr d1)
    show ?thesis
    proof (cases "rs = []")
      case True
      with Cons.prems Inr show ?thesis by (simp add: materialized_def)
    next
      case False
      let ?d = "checkpoint_upsert d1 tp (changelog_offset r)"
      have "materialized_all json (r # rs) d = materialized_all json rs ?d"
        using Cons.prems Inr by (simp add: materialized_def)
      also have "\<dots> = (case records.run json rs ?d of Inl e \<Rightarrow> Inl e
          | Inr d' \<Rightarrow> Inr (checkpoint_upsert d' tp (Max (changelog_offset ` set rs))))"
        using Cons.IH [OF False] Cons.prems by simp
      finally show ?thesis
        using False Inr by (auto simp: run_after_upsert upsert_twice split: sum.split)
    qed
  qed (simp add: materialized_def)
qed simp

section \<open>Properties\<close>


definition sample_record :: "nat \<Rightarrow> int \<Rightarrow> db_record" where
  "sample_record i n =
     \<lparr>message_id = [i], source_topic = lit ''m'', source_partition = 0, changelog_offset = n,
      entity_key = lit ''k'', payload = lit ''1''\<rparr>"


text \<open>
  Deduplication makes materialization a replay-safe log application: records that were
  materialized once can be materialized again, in any part and any order, without changing
  a single row or the outcome, and continuing from a store that holds a prefix ends in the
  same tables as running the whole log.
\<close>

lemma materialization_idempotent:
  assumes "inserted_all json (ps @ qs) d = Inr d'" "set xs \<subseteq> set (ps @ qs)"
  shows "inserted_all json xs d' = Inr d'
     \<and> (case inserted_all json ps d of
          Inl e \<Rightarrow> False
        | Inr p \<Rightarrow> inserted_all json qs p = Inr d' \<and> inserted_all json (ps @ qs) p = Inr d')"
proof -
  note a = assms [unfolded inserted_all_run]
  obtain p where p: "records.run json ps d = Inr p"
    using a(1) by (auto simp: records.run_append split: sum.splits)
  show ?thesis
    using records.run_again [OF a] records.run_resume [OF a(1) p] p by (simp add: inserted_all_run)
qed

lemma materialization_idempotent_example:
  "inserted_all Some [sample_record 98 5, sample_record 97 3]
       (empty_database\<lparr>db_records := [sample_record 97 3, sample_record 98 5]\<rparr>)
     = Inr (empty_database\<lparr>db_records := [sample_record 97 3, sample_record 98 5]\<rparr>)
   \<and> (case inserted_all Some [sample_record 97 3] empty_database of
        Inl e \<Rightarrow> False
      | Inr p \<Rightarrow> inserted_all Some [sample_record 98 5] p
            = Inr (empty_database\<lparr>db_records := [sample_record 97 3, sample_record 98 5]\<rparr>)
          \<and> inserted_all Some ([sample_record 97 3] @ [sample_record 98 5]) p
            = Inr (empty_database\<lparr>db_records := [sample_record 97 3, sample_record 98 5]\<rparr>))"
  by (rule materialization_idempotent)
    (auto simp: sample_record_def insert_record_cases message_ids_def empty_database_def)

end
