(* ===== verification/Changelog_Topics.thy ===== *)
theory Changelog_Topics imports
  Connection_Pool
begin

text \<open>
  Step 0 of an assignment, \<^verbatim>\<open>_topics.py\<close>: resolving the changelog topic of a partition, and
  making sure once per partition that the topic exists and is not compacted. What a
  resolver of names promises to its client is a locale, which the model's resolver
  interprets.
\<close>

section \<open>Name resolution\<close>

definition changelog_name :: "fmt_ext \<Rightarrow> pystr \<Rightarrow> topic_partition \<Rightarrow> exn + pystr" where
  "changelog_name ext template source =
     (case py_format ext (tp_topic source) (tp_partition source) template of
        Inl e \<Rightarrow> Inl e
      | Inr name \<Rightarrow> (case validate_topic_name name of Inl e \<Rightarrow> Inl e | Inr _ \<Rightarrow> Inr name))"

text \<open>The protocol \<^verbatim>\<open>ChangelogNameResolver\<close>: resolved names are legal Kafka topic names.\<close>

definition legal_topic_name :: "pystr \<Rightarrow> bool" where
  "legal_topic_name name \<longleftrightarrow>
     name \<noteq> lit ''.'' \<and> name \<noteq> lit ''..'' \<and> length name \<le> KAFKA_TOPIC_NAME_MAX \<and> topic_name_fullmatch name"

locale name_resolver =
  fixes resolve :: "topic_partition \<Rightarrow> exn + pystr"
  assumes resolve_legal: "resolve tp = Inr name \<Longrightarrow> legal_topic_name name"
begin

lemma resolve_nonempty: "resolve tp = Inr name \<Longrightarrow> name \<noteq> []"
  using resolve_legal by (auto simp: legal_topic_name_def topic_name_fullmatch_def)

lemma resolve_ascii: "resolve tp = Inr name \<Longrightarrow> c \<in> set name \<Longrightarrow> c < 128"
  using resolve_legal
  by (fastforce simp: legal_topic_name_def topic_name_fullmatch_def list_all_iff topic_char_def)

lemma resolve_encodes: "resolve tp = Inr name \<Longrightarrow> \<exists>b. utf8_encode name = Inr b"
proof -
  assume r: "resolve tp = Inr name"
  have "list_all scalar_value name"
    using resolve_ascii [OF r] by (fastforce simp: list_all_iff scalar_value_def)
  then show ?thesis by (simp add: utf8_encode_def)
qed

end

interpretation topics: name_resolver "changelog_name ext template" for ext template
  by unfold_locales
    (auto simp: changelog_name_def validate_topic_name_def legal_topic_name_def split: sum.splits if_splits)

section \<open>Ensure and verify\<close>

text \<open>The error numbers of the Kafka exceptions the code names.\<close>

definition AUTHZ_ERROR_CODES :: "int list" where
  "AUTHZ_ERROR_CODES = [29, 31]"

definition TOPIC_ALREADY_EXISTS :: int where
  "TOPIC_ALREADY_EXISTS = 36"

text \<open>
  The walk over the response of \<^verbatim>\<open>describe_configs\<close> with its early returns: the event logged
  is that of the first resource with an error code or with a compact policy.
\<close>

fun scan_policy :: "pystr \<Rightarrow> config_resource list \<Rightarrow> event" where
  "scan_policy name [] = TopicVerified name"
| "scan_policy name ((error_code, entries) # rs) =
     (if error_code \<noteq> 0 then
        (if error_code \<in> set AUTHZ_ERROR_CODES then PolicyVerifyUnauthorized name error_code
         else PolicyVerifyFailed name error_code)
      else case find (\<lambda>(k, v). k = lit ''cleanup.policy'' \<and> py_contains (lit ''compact'') v) entries of
        Some (k, v) \<Rightarrow> CompactPolicyDetected name v
      | None \<Rightarrow> scan_policy name rs)"

definition verify_policy :: "'k ops \<Rightarrow> pystr \<Rightarrow> ('k, unit) act" where
  "verify_policy ops name =
     io_bind (call (op_describe_configs ops name)) (\<lambda>responses.
       log_event (scan_policy name (concat responses)))"

text \<open>
  The loop over \<^verbatim>\<open>topic_errors\<close>: \<open>Inr True\<close> when it runs to its end, \<open>Inr False\<close> when an
  already existing topic makes it return early.
\<close>

fun creation_outcome :: "topic_error list \<Rightarrow> exn + bool" where
  "creation_outcome [] = Inr True"
| "creation_outcome ((_, error_code) # es) =
     (if error_code = 0 then creation_outcome es
      else if error_code = TOPIC_ALREADY_EXISTS then Inr False
      else Inl (KafkaError error_code))"

definition create_topic :: "'k ops \<Rightarrow> int \<Rightarrow> pystr \<Rightarrow> ('k, unit) act" where
  "create_topic ops retention name =
     io_bind (call (op_create_topics ops
         \<lparr>nt_name = name, nt_num_partitions = 1, nt_replication_factor = 1,
          nt_configs = [(lit ''cleanup.policy'', lit ''delete''),
                        (lit ''retention.ms'', py_str_int retention)]\<rparr>)) (\<lambda>topic_errors.
       io_bind (lift_res (creation_outcome topic_errors)) (\<lambda>created.
         io_when created (log_event (TopicCreated name))))"

definition step_zero :: "'k ops \<Rightarrow> int option \<Rightarrow> bool \<Rightarrow> pystr \<Rightarrow> ('k, unit) act" where
  "step_zero ops retention verify name =
     io_catch
       (io_bind (call (op_list_topics ops)) (\<lambda>existing.
         io_seq
           (io_when (name \<notin> set existing)
             (case retention of
                None \<Rightarrow> io_raise TopicNotFoundError
              | Some ms \<Rightarrow> create_topic ops ms name))
           (io_when verify (verify_policy ops name))))
       (\<lambda>e. if is_kafka_error e then io_raise (RehydrateError (Some e)) else io_raise e)"

definition ensure_and_verify ::
    "'k ops \<Rightarrow> pystr \<Rightarrow> int option \<Rightarrow> bool \<Rightarrow> topic_partition \<Rightarrow> ('k, pystr) act" where
  "ensure_and_verify ops template retention verify source =
     io_bind (lift_res (changelog_name (op_format ops) template source)) (\<lambda>name.
       io_bind (io_gets (\<lambda>w. source \<in> w_checked w)) (\<lambda>cached.
         if cached then io_ret name
         else io_seq (step_zero ops retention verify name)
           (io_seq (io_modify (\<lambda>w. w\<lparr>w_checked := insert source (w_checked w)\<rparr>)) (io_ret name))))"

section \<open>What step 0 leaves alone\<close>

text \<open>Only the outside, the log and the cache change; the cache only grows.\<close>

definition broker_only :: "'k world \<Rightarrow> 'k world \<Rightarrow> bool" where
  "broker_only w w' \<longleftrightarrow>
     w_db w' = w_db w \<and> w_saved w' = w_saved w \<and> w_query_only w' = w_query_only w
     \<and> w_parts w' = w_parts w \<and> w_consumer w' = w_consumer w
     \<and> w_checked w \<subseteq> w_checked w' \<and> (\<exists>es. w_log w' = w_log w @ es)"

interpretation broker_frame: preorder_rel broker_only
  by unfold_locales (auto simp: broker_only_def)

lemma broker_call: "keeps broker_only (call f)"
  by (rule keepsI) (auto simp: call_def broker_only_def split: prod.splits sum.splits)

lemma broker_ask: "keeps broker_only (ask f)"
  by (rule keepsI) (auto simp: ask_def broker_only_def split: prod.splits)

lemma broker_log: "keeps broker_only (log_event e)"
  by (rule keepsI) (auto simp: log_event_def io_modify_def broker_only_def)

lemma broker_lift: "keeps broker_only (lift_res r)"
  by (auto simp: lift_res_def intro: broker_frame.keeps_combinators split: sum.split)

lemmas broker_basics = broker_frame.keeps_combinators broker_call broker_ask broker_log broker_lift keeps_if

lemma broker_create_topic: "keeps broker_only (create_topic ops ms name)"
  unfolding create_topic_def by (intro broker_basics)

lemma broker_verify_policy: "keeps broker_only (verify_policy ops name)"
  unfolding verify_policy_def by (intro broker_basics)

lemma broker_step_zero: "keeps broker_only (step_zero ops retention verify name)"
  unfolding step_zero_def
  by (intro broker_basics broker_verify_policy)
    (auto split: option.split intro: broker_basics broker_create_topic)

lemma broker_ensure: "keeps broker_only (ensure_and_verify ops template retention verify source)"
  unfolding ensure_and_verify_def
  by (intro broker_basics broker_step_zero broker_frame.keeps_modify) (auto simp: broker_only_def)

lemma halts_step_zero [halts_intros]: "halts (step_zero ops retention verify name)"
  unfolding step_zero_def verify_policy_def create_topic_def
  by (intro halts_intros) (auto split: option.split intro!: halts_intros)

lemma halts_ensure [halts_intros]: "halts (ensure_and_verify ops template retention verify source)"
  unfolding ensure_and_verify_def by (intro halts_intros)

lemma step_zero_cache:
  "step_zero ops retention verify name w = (r, w') \<Longrightarrow> w_checked w' = w_checked w"
  by (auto simp: step_zero_def verify_policy_def create_topic_def call_def lift_res_def log_event_def
      io_simps split: prod.splits sum.splits res.splits option.splits if_splits)

lemma step_zero_errors:
  "wp (step_zero ops retention verify name) (\<lambda>r w'. \<forall>e. r = Exn e \<longrightarrow> \<not> is_kafka_error e) w"
  unfolding step_zero_def wp_catch by (rule wpI) (auto split: res.split)

lemma creation_outcome_error:
  "list_all (\<lambda>(t, c). c = 0) (takeWhile (\<lambda>(t, c). c \<noteq> code) errors) \<Longrightarrow>
   code \<in> snd ` set errors \<Longrightarrow> code \<noteq> 0 \<Longrightarrow> code \<noteq> TOPIC_ALREADY_EXISTS \<Longrightarrow>
   creation_outcome errors = Inl (KafkaError code)"
proof (induction errors)
  case (Cons te errors)
  obtain t c where te: "te = (t, c)" by fastforce
  show ?case
  proof (cases "c = code")
    case False
    with Cons.prems te have "c = 0" "list_all (\<lambda>(t, c). c = 0) (takeWhile (\<lambda>(t, c). c \<noteq> code) errors)"
      "code \<in> snd ` set errors" by auto
    with Cons.IH Cons.prems(3,4) te show ?thesis by simp
  qed (use Cons.prems te in simp)
qed simp

section \<open>Properties\<close>

text \<open>
  Every resolved changelog name is a legal Kafka topic name (never empty, never \<^verbatim>\<open>.\<close> or
  \<^verbatim>\<open>..\<close>, at most 249 characters of the legal alphabet), so it is ASCII and can be encoded.
\<close>

lemma resolved_names_legal:
  assumes "changelog_name ext template source = Inr name"
  shows "legal_topic_name name \<and> name \<noteq> [] \<and> (\<exists>b. utf8_encode name = Inr b)"
  using topics.resolve_legal [OF assms] topics.resolve_nonempty [OF assms]
    topics.resolve_encodes [OF assms] by simp

lemma sample_changelog_name:
  "changelog_name ext DEFAULT_CHANGELOG_TEMPLATE sample_tp = Inr (lit ''m.p0.changelog'')"
  by (simp add: changelog_name_def sample_tp_def default_template_format validate_topic_name_def
      KAFKA_TOPIC_NAME_MAX_def topic_name_fullmatch_def topic_char_def lit_def py_str_int_def digits_of.simps [of 0])

lemma resolved_names_legal_witness:
  "legal_topic_name (lit ''m.p0.changelog'') \<and> lit ''m.p0.changelog'' \<noteq> []
     \<and> (\<exists>b. utf8_encode (lit ''m.p0.changelog'') = Inr b)"
  by (rule resolved_names_legal [OF sample_changelog_name])

text \<open>
  C30. Success, and only success, is cached. When step 0 returns, it returned the resolved name,
  the partition is cached, and repeating it asks the broker nothing and changes nothing;
  when it raises, the cache is as before, so the next assignment runs it again, and the
  exception is no bare Kafka error (unless resolving the name itself raised it).
\<close>

theorem ensure_caches_only_success:
  "case ensure_and_verify ops template retention verify source w of
     (Ok name, w') \<Rightarrow>
        changelog_name (op_format ops) template source = Inr name \<and> source \<in> w_checked w'
        \<and> ensure_and_verify ops template retention verify source w' = (Ok name, w')
   | (Exn e, w') \<Rightarrow> w_checked w' = w_checked w
        \<and> (\<not> is_kafka_error e \<or> changelog_name (op_format ops) template source = Inl e)
   | (Running, w') \<Rightarrow> False"
proof (cases "changelog_name (op_format ops) template source")
  case (Inr name)
  have cached: "ensure_and_verify ops template retention verify source v = (Ok name, v)"
    if "source \<in> w_checked v" for v
    using that Inr by (simp add: ensure_and_verify_def lift_res_def io_simps)
  show ?thesis
  proof (cases "source \<in> w_checked w")
    case False
    obtain r v where step: "step_zero ops retention verify name w = (r, v)" by fastforce
    have "r \<noteq> Running" using haltsD [OF halts_step_zero step] .
    moreover have "\<not> is_kafka_error e" if "r = Exn e" for e
      using wpD [OF step_zero_errors step] that by simp
    ultimately show ?thesis
      using Inr False step step_zero_cache [OF step] cached
      by (cases r) (auto simp: ensure_and_verify_def lift_res_def io_simps)
  qed (use Inr cached in simp)
qed (simp add: ensure_and_verify_def lift_res_def io_simps)

lemma ensure_caches_only_success_witness:
  "\<exists>w'. ensure_and_verify fake_ops DEFAULT_CHANGELOG_TEMPLATE (Some 1000) False sample_tp
       (boot fake_start empty_database) = (Ok (lit ''m.p0.changelog''), w')
     \<and> sample_tp \<in> w_checked w'
     \<and> ensure_and_verify fake_ops DEFAULT_CHANGELOG_TEMPLATE (Some 1000) False sample_tp w'
       = (Ok (lit ''m.p0.changelog''), w')"
proof -
  obtain w' where "ensure_and_verify fake_ops DEFAULT_CHANGELOG_TEMPLATE (Some 1000) False sample_tp
       (boot fake_start empty_database) = (Ok (lit ''m.p0.changelog''), w')"
    by (simp add: ensure_and_verify_def step_zero_def create_topic_def lift_res_def call_def log_event_def
        io_simps sample_changelog_name fake_ops_def fake_create_topics_def)
  with ensure_caches_only_success [where ops = fake_ops and template = DEFAULT_CHANGELOG_TEMPLATE
      and retention = "Some 1000" and verify = False and source = sample_tp
      and w = "boot fake_start empty_database"]
  show ?thesis by simp
qed

text \<open>
  A changelog that could not be created is never taken for created: when the broker lists no
  such topic and reports an error code other than \<open>TopicAlreadyExists\<close> for its creation, the
  assignment fails with that error and nothing is cached, although the client raised
  nothing.
\<close>

lemma failed_creation_not_cached:
  assumes "changelog_name (op_format ops) template source = Inr name"
    and "source \<notin> w_checked w"
    and "op_list_topics ops (w_env w) = (Inr existing, k)" "name \<notin> set existing"
    and "op_create_topics ops
           \<lparr>nt_name = name, nt_num_partitions = 1, nt_replication_factor = 1,
            nt_configs = [(lit ''cleanup.policy'', lit ''delete''),
                          (lit ''retention.ms'', py_str_int ms)]\<rparr> k = (Inr errors, k')"
    and "list_all (\<lambda>(t, c). c = 0) (takeWhile (\<lambda>(t, c). c \<noteq> code) errors)"
    and "code \<in> snd ` set errors" "code \<noteq> 0" "code \<noteq> TOPIC_ALREADY_EXISTS"
  shows "ensure_and_verify ops template (Some ms) verify source w =
           (Exn (RehydrateError (Some (KafkaError code))), w\<lparr>w_env := k'\<rparr>)"
proof -
  have "creation_outcome errors = Inl (KafkaError code)"
    by (rule creation_outcome_error [OF assms(6-9)])
  then show ?thesis
    using assms(1-5)
    by (simp add: ensure_and_verify_def step_zero_def create_topic_def lift_res_def call_def io_simps)
qed

lemma failed_creation_not_cached_witness:
  "ensure_and_verify fake_ops DEFAULT_CHANGELOG_TEMPLATE (Some 1000) True sample_tp
     (boot (fake_start\<lparr>fk_create_error_code := Some 29\<rparr>) empty_database)
   = (Exn (RehydrateError (Some (KafkaError 29))),
      (boot (fake_start\<lparr>fk_create_error_code := Some 29\<rparr>) empty_database)
        \<lparr>w_env := fake_start\<lparr>fk_create_error_code := Some 29\<rparr>\<rparr>)"
  by (rule failed_creation_not_cached [OF sample_changelog_name, where existing = "[]"
        and k = "fake_start\<lparr>fk_create_error_code := Some 29\<rparr>"
        and errors = "[(lit ''m.p0.changelog'', 29)]"])
    (simp_all add: fake_ops_def fake_create_topics_def TOPIC_ALREADY_EXISTS_def)

text \<open>
  \<open>topic_verified\<close> is logged exactly when every resource of the response came back without an
  error code and no \<^verbatim>\<open>cleanup.policy\<close> entry contains \<^verbatim>\<open>compact\<close>: a denied or failed lookup is
  never reported as verified.
\<close>

lemma verified_iff_no_error_no_compaction:
  "scan_policy name rs = TopicVerified name' \<longleftrightarrow>
     name' = name
     \<and> list_all (\<lambda>(code, entries). code = 0
          \<and> list_all (\<lambda>(k, v). \<not> (k = lit ''cleanup.policy'' \<and> py_contains (lit ''compact'') v)) entries) rs"
proof (induction name rs rule: scan_policy.induct)
  case (2 name code entries rs)
  let ?bad = "\<lambda>(k, v). k = lit ''cleanup.policy'' \<and> py_contains (lit ''compact'') v"
  have none: "find ?bad entries = None \<longleftrightarrow> list_all (\<lambda>(k, v). \<not> ?bad (k, v)) entries"
    by (auto simp: find_None_iff list_all_iff)
  show ?case
  proof (cases "find ?bad entries")
    case None
    then show ?thesis using 2 none by auto
  next
    case (Some kv)
    then show ?thesis using none by (cases kv) auto
  qed
qed auto

end
