(* ===== verification/Partition_Lifecycle.thy ===== *)
theory Partition_Lifecycle imports
  Materialization Changelog_Topics
begin

text \<open>
  The service behind both rebalance hooks, \<^verbatim>\<open>_lifecycle.py\<close>: the lazily started consumer,
  replay of a changelog in batches with its reset and its deadline, the clamps after a
  reset, revealing and hiding a partition. The replay loop may run for ever, so it takes
  fuel: \<open>Running\<close> is the outcome of a run that has not returned after that many fetches.
\<close>

section \<open>The consumer\<close>

definition suppress_exceptions :: "('k, unit) act \<Rightarrow> ('k, unit) act" where
  "suppress_exceptions m = io_catch m (\<lambda>e. if is_exception e then io_ret () else io_raise e)"

definition get_consumer :: "'k ops \<Rightarrow> ('k, unit) act" where
  "get_consumer ops =
     io_bind (io_gets w_consumer) (\<lambda>started.
       io_when (\<not> started)
         (io_seq (call (op_new_consumer ops))
           (io_seq
             (on_error (call (op_consumer_start ops)) (suppress_exceptions (call (op_consumer_stop ops))))
             (io_modify (\<lambda>w. w\<lparr>w_consumer := True\<rparr>)))))"

definition aclose :: "'k ops \<Rightarrow> ('k, unit) act" where
  "aclose ops =
     io_bind (io_gets w_consumer) (\<lambda>started.
       io_when started
         (io_seq (call (op_consumer_stop ops)) (io_modify (\<lambda>w. w\<lparr>w_consumer := False\<rparr>))))"

section \<open>Reads and single writes\<close>

definition execute_in_txn :: "'k ops \<Rightarrow> rat \<Rightarrow> stmt \<Rightarrow> ('k, unit) act" where
  "execute_in_txn ops bt s = checked_out ops bt (run_txn ops bt (execute ops s))"

definition read_checkpoint :: "'k ops \<Rightarrow> rat \<Rightarrow> topic_partition \<Rightarrow> ('k, int option) act" where
  "read_checkpoint ops bt tp =
     io_catch (checked_out ops bt (fetch ops (SelectCheckpoint tp) (\<lambda>d. db_checkpoints d tp)))
       (\<lambda>e. io_raise (if is_sqlite_error e then StorageError (Some e) else e))"

definition reveal :: "'k ops \<Rightarrow> rat \<Rightarrow> topic_partition \<Rightarrow> ('k, unit) act" where
  "reveal ops bt tp = execute_in_txn ops bt (OwnedInsert tp)"

definition force_stop ::
    "'k ops \<Rightarrow> rat \<Rightarrow> topic_partition \<Rightarrow> int option \<Rightarrow> int \<Rightarrow> ('k, unit) act" where
  "force_stop ops bt tp checkpoint leo =
     io_seq (on_parts (\<lambda>m. mark_ready_partial m tp))
       (io_seq (reveal ops bt tp) (log_event (RehydrateForceStop tp checkpoint leo)))"

section \<open>Batches\<close>

definition replayed_record ::
    "topic_partition \<Rightarrow> int \<Rightarrow> pystr \<Rightarrow> pystr \<Rightarrow> pystr \<Rightarrow> db_record" where
  "replayed_record tp offset mid key body =
     \<lparr>message_id = mid, source_topic = tp_topic tp, source_partition = tp_partition tp,
      changelog_offset = offset, entity_key = key, payload = body\<rparr>"

definition replay_record :: "'k ops \<Rightarrow> topic_partition \<Rightarrow> consumer_record \<Rightarrow> ('k, unit) act" where
  "replay_record ops tp r =
     (case classify (cr_key r) (cr_value r) (cr_headers r) of
        ForeignRecord reason \<Rightarrow> log_event (ForeignRecordSkipped tp (cr_offset r) reason)
      | UnknownVersionRecord mid version \<Rightarrow> io_raise (RehydrateError None)
      | KsqliteRecord mid key body \<Rightarrow>
          execute ops (InsertRecord (replayed_record tp (cr_offset r) mid key body)))"

definition batch_work :: "'k ops \<Rightarrow> topic_partition \<Rightarrow> consumer_record list \<Rightarrow> ('k, unit) act" where
  "batch_work ops tp rs =
     io_seq (io_for (replay_record ops tp) rs)
       (execute ops (CheckpointUpsert tp (cr_offset (last rs))))"

definition materialize_batch ::
    "'k ops \<Rightarrow> rat \<Rightarrow> topic_partition \<Rightarrow> consumer_record list \<Rightarrow> ('k, unit) act" where
  "materialize_batch ops bt tp rs =
     io_seq (checked_out ops bt (run_txn ops bt (batch_work ops tp rs)))
       (on_parts (\<lambda>m. record_applied m tp (cr_offset (last rs))))"

section \<open>The replay loop\<close>

record loop_vars =
  position :: int
  records_replayed :: nat
  last_applied :: "int option"
  reset_occurred :: bool
  reset_log_start :: int
  replayed_after_reset :: nat

text \<open>
  The deadline check of one iteration: past it the partition is force-stopped and the
  method returns (\<open>None\<close>); before it the loop goes on.
\<close>

definition check_deadline ::
    "'k ops \<Rightarrow> rat \<Rightarrow> topic_partition \<Rightarrow> rat \<Rightarrow> int \<Rightarrow> loop_vars \<Rightarrow> ('k, loop_vars option) act" where
  "check_deadline ops bt tp deadline leo v =
     io_bind (ask (op_clock ops)) (\<lambda>now.
       if now \<ge> deadline then io_seq (force_stop ops bt tp (last_applied v) leo) (io_ret None)
       else io_ret (Some v))"

text \<open>The handler of \<^verbatim>\<open>OffsetOutOfRangeError\<close>.\<close>

definition reset_to_earliest ::
    "'k ops \<Rightarrow> topic_partition \<Rightarrow> topic_partition \<Rightarrow> int option \<Rightarrow> loop_vars \<Rightarrow> ('k, loop_vars) act" where
  "reset_to_earliest ops tp changelog_tp checkpoint v =
     io_bind (call (op_beginning_offsets ops changelog_tp)) (\<lambda>offsets.
     io_bind (dict_get offsets changelog_tp) (\<lambda>log_start.
       io_seq (log_event (TruncationReset tp checkpoint log_start))
         (io_seq (call (op_seek_to_beginning ops changelog_tp))
           (io_ret (v\<lparr>position := log_start, reset_occurred := True,
                      reset_log_start := log_start, replayed_after_reset := 0\<rparr>)))))"

text \<open>A non-empty batch, materialized before any look at the clock.\<close>

definition take_batch ::
    "'k ops \<Rightarrow> rat \<Rightarrow> topic_partition \<Rightarrow> rat \<Rightarrow> int \<Rightarrow> consumer_record list \<Rightarrow> loop_vars
     \<Rightarrow> ('k, loop_vars option) act" where
  "take_batch ops bt tp deadline leo rs v =
     io_seq (materialize_batch ops bt tp rs)
       (let v' = v\<lparr>records_replayed := records_replayed v + length rs,
                   replayed_after_reset := replayed_after_reset v + length rs,
                   position := cr_offset (last rs) + 1,
                   last_applied := Some (cr_offset (last rs))\<rparr>
        in if position v' \<noteq> leo then check_deadline ops bt tp deadline leo v'
           else io_ret (Some v'))"

definition iteration ::
    "'k ops \<Rightarrow> settings \<Rightarrow> topic_partition \<Rightarrow> topic_partition \<Rightarrow> rat \<Rightarrow> int option \<Rightarrow> int \<Rightarrow> loop_vars
     \<Rightarrow> ('k, loop_vars option) act" where
  "iteration ops cfg tp changelog_tp deadline checkpoint leo v =
     (let bt = cfg_busy_timeout cfg in
      io_bind (io_attempt (call (op_getmany ops changelog_tp (cfg_batch_size cfg)))) (\<lambda>fetched.
        case fetched of
          Inl e \<Rightarrow>
            if e = OffsetOutOfRange then
              io_bind (reset_to_earliest ops tp changelog_tp checkpoint v)
                (check_deadline ops bt tp deadline leo)
            else io_raise e
        | Inr batch_map \<Rightarrow>
            (case batch_map changelog_tp of
               None \<Rightarrow> check_deadline ops bt tp deadline leo v
             | Some rs \<Rightarrow>
                 if rs = [] then check_deadline ops bt tp deadline leo v
                 else take_batch ops bt tp deadline leo rs v)))"

fun replay_loop ::
    "nat \<Rightarrow> 'k ops \<Rightarrow> settings \<Rightarrow> topic_partition \<Rightarrow> topic_partition \<Rightarrow> rat \<Rightarrow> int option \<Rightarrow> int \<Rightarrow> loop_vars
     \<Rightarrow> ('k, loop_vars option) act" where
  "replay_loop fuel ops cfg tp changelog_tp deadline checkpoint leo v =
     (if position v = leo then io_ret (Some v)
      else case fuel of
        0 \<Rightarrow> io_running
      | Suc n \<Rightarrow>
          io_bind (iteration ops cfg tp changelog_tp deadline checkpoint leo v) (\<lambda>next_vars.
            case next_vars of
              None \<Rightarrow> io_ret None
            | Some v' \<Rightarrow> replay_loop n ops cfg tp changelog_tp deadline checkpoint leo v'))"

declare replay_loop.simps [simp del]

section \<open>Assignment\<close>

definition clamp_target :: "int option \<Rightarrow> int \<Rightarrow> int \<Rightarrow> nat \<Rightarrow> int option" where
  "clamp_target stored leo log_start replayed =
     (case stored of
        Some c \<Rightarrow>
          if c > leo - 1 then Some (leo - 1)
          else if replayed = 0 \<and> log_start = leo then Some (log_start - 1) else None
      | None \<Rightarrow> if replayed = 0 \<and> log_start = leo then Some (log_start - 1) else None)"

definition apply_post_reset_clamps ::
    "'k ops \<Rightarrow> rat \<Rightarrow> topic_partition \<Rightarrow> int \<Rightarrow> int \<Rightarrow> nat \<Rightarrow> ('k, unit) act" where
  "apply_post_reset_clamps ops bt tp leo log_start replayed =
     io_bind (read_checkpoint ops bt tp) (\<lambda>stored.
       case clamp_target stored leo log_start replayed of
         None \<Rightarrow> io_ret ()
       | Some target \<Rightarrow>
           io_seq (execute_in_txn ops bt (CheckpointClamp tp target))
             (io_seq (on_parts (\<lambda>m. record_clamped m tp target))
               (log_event (CheckpointClamped tp stored target))))"

definition end_offset :: "'k ops \<Rightarrow> topic_partition \<Rightarrow> ('k, int) act" where
  "end_offset ops changelog_tp =
     io_bind (call (op_end_offsets ops changelog_tp)) (\<lambda>offsets. dict_get offsets changelog_tp)"

text \<open>The start of the replay: the seek and the first position.\<close>

definition seek_start ::
    "'k ops \<Rightarrow> topic_partition \<Rightarrow> int option \<Rightarrow> ('k, loop_vars) act" where
  "seek_start ops changelog_tp checkpoint =
     (let start = (\<lambda>p. \<lparr>position = p, records_replayed = 0, last_applied = checkpoint,
                         reset_occurred = False, reset_log_start = 0, replayed_after_reset = 0\<rparr>) in
      case checkpoint of
        None \<Rightarrow> io_seq (call (op_seek_to_beginning ops changelog_tp)) (io_ret (start 0))
      | Some c \<Rightarrow> io_seq (call (op_seek ops changelog_tp (c + 1))) (io_ret (start (c + 1))))"

text \<open>\<^verbatim>\<open>_rehydrate_one\<close> in three parts: its end, the replay, and the whole.\<close>

definition finish_rehydrate ::
    "'k ops \<Rightarrow> rat \<Rightarrow> topic_partition \<Rightarrow> int \<Rightarrow> loop_vars \<Rightarrow> ('k, unit) act" where
  "finish_rehydrate ops bt tp leo v =
     io_seq
       (io_when (reset_occurred v)
         (apply_post_reset_clamps ops bt tp leo (reset_log_start v) (replayed_after_reset v)))
       (io_seq (on_parts (\<lambda>m. mark_ready m tp))
         (io_seq (reveal ops bt tp)
           (log_event (RehydrateEnd tp (records_replayed v)))))"

definition replay_changelog ::
    "nat \<Rightarrow> 'k ops \<Rightarrow> settings \<Rightarrow> topic_partition \<Rightarrow> topic_partition \<Rightarrow> rat \<Rightarrow> int option \<Rightarrow> int
     \<Rightarrow> ('k, unit) act" where
  "replay_changelog fuel ops cfg tp changelog_tp deadline checkpoint leo =
     io_seq (on_parts (\<lambda>m. record_log_end m tp leo))
     (io_seq (log_event (RehydrateStart tp checkpoint leo))
     (io_seq (on_parts (\<lambda>m. mark_restoring m tp))
     (io_seq (call (op_assign ops changelog_tp))
     (io_bind (seek_start ops changelog_tp checkpoint) (\<lambda>v0.
     io_bind (replay_loop fuel ops cfg tp changelog_tp deadline checkpoint leo v0) (\<lambda>outcome.
       case outcome of
         None \<Rightarrow> io_ret ()
       | Some v \<Rightarrow> finish_rehydrate ops (cfg_busy_timeout cfg) tp leo v))))))"

definition rehydrate_one ::
    "nat \<Rightarrow> 'k ops \<Rightarrow> settings \<Rightarrow> topic_partition \<Rightarrow> pystr \<Rightarrow> rat \<Rightarrow> ('k, unit) act" where
  "rehydrate_one fuel ops cfg tp name deadline =
     (let changelog_tp = \<lparr>tp_topic = name, tp_partition = 0\<rparr> in
      io_bind (read_checkpoint ops (cfg_busy_timeout cfg) tp) (\<lambda>checkpoint.
      io_seq (case checkpoint of None \<Rightarrow> io_ret () | Some c \<Rightarrow> on_parts (\<lambda>m. record_applied m tp c))
      (io_seq (get_consumer ops)
      (io_bind (end_offset ops changelog_tp) (\<lambda>leo.
        replay_changelog fuel ops cfg tp changelog_tp deadline checkpoint leo)))))"

definition reveal_partial_unreached ::
    "'k ops \<Rightarrow> settings \<Rightarrow> topic_partition \<Rightarrow> pystr \<Rightarrow> ('k, unit) act" where
  "reveal_partial_unreached ops cfg tp name =
     (let bt = cfg_busy_timeout cfg in
      io_seq (get_consumer ops)
      (io_bind (end_offset ops \<lparr>tp_topic = name, tp_partition = 0\<rparr>) (\<lambda>leo.
      io_seq (on_parts (\<lambda>m. record_log_end m tp leo))
      (io_bind (read_checkpoint ops bt tp) (\<lambda>checkpoint.
      io_seq (case checkpoint of None \<Rightarrow> io_ret () | Some c \<Rightarrow> on_parts (\<lambda>m. record_applied m tp c))
      (io_seq (on_parts (\<lambda>m. mark_ready_partial m tp))
      (io_seq (reveal ops bt tp)
        (log_event (RehydrateForceStop tp checkpoint leo)))))))))"

text \<open>One partition of an assignment; the result is the next value of \<^verbatim>\<open>first\<close>.\<close>

definition assign_one ::
    "nat \<Rightarrow> 'k ops \<Rightarrow> settings \<Rightarrow> rat \<Rightarrow> bool \<Rightarrow> topic_partition \<Rightarrow> ('k, bool) act" where
  "assign_one fuel ops cfg deadline first tp =
     io_bind (ensure_and_verify ops (cfg_template cfg) (cfg_retention_ms cfg) (cfg_verify_policy cfg) tp)
       (\<lambda>name.
         io_bind (if first then io_ret False
                  else io_bind (ask (op_clock ops)) (\<lambda>now. io_ret (now \<ge> deadline))) (\<lambda>late.
           if late then io_seq (reveal_partial_unreached ops cfg tp name) (io_ret first)
           else io_seq (rehydrate_one fuel ops cfg tp name deadline) (io_ret False)))"

definition rehydrate_error :: "exn \<Rightarrow> exn" where
  "rehydrate_error e =
     (if is_storage_error e \<or> is_kafka_error e then RehydrateError (Some e) else e)"

primrec assign_from ::
    "nat \<Rightarrow> 'k ops \<Rightarrow> settings \<Rightarrow> rat \<Rightarrow> topic_partition list \<Rightarrow> bool \<Rightarrow> ('k, unit) act" where
  "assign_from fuel ops cfg deadline [] first = io_ret ()"
| "assign_from fuel ops cfg deadline (tp # tps) first =
     io_bind (io_catch (assign_one fuel ops cfg deadline first tp) (\<lambda>e. io_raise (rehydrate_error e)))
       (\<lambda>first'. assign_from fuel ops cfg deadline tps first')"

definition on_partitions_assigned ::
    "nat \<Rightarrow> 'k ops \<Rightarrow> settings \<Rightarrow> topic_partition list \<Rightarrow> ('k, unit) act" where
  "on_partitions_assigned fuel ops cfg assigned =
     io_bind (ask (op_clock ops)) (\<lambda>now.
       assign_from fuel ops cfg (now + cfg_rehydrate_timeout cfg) assigned True)"

definition revoke_one :: "'k ops \<Rightarrow> settings \<Rightarrow> topic_partition \<Rightarrow> ('k, unit) act" where
  "revoke_one ops cfg tp =
     io_bind (io_gets (\<lambda>w. status_of (w_parts w) tp)) (\<lambda>status.
       if status = None then io_ret ()
       else io_seq (execute_in_txn ops (cfg_busy_timeout cfg) (OwnedDelete tp))
              (on_parts (\<lambda>m. mark_revoked m tp)))"

definition on_partitions_revoked :: "'k ops \<Rightarrow> settings \<Rightarrow> topic_partition list \<Rightarrow> ('k, unit) act" where
  "on_partitions_revoked ops cfg revoked = io_for (revoke_one ops cfg) revoked"

end
