(* ===== verification/Assignment_Steps.thy ===== *)
theory Assignment_Steps imports
  Partition_Lifecycle
begin

text \<open>
  One walk over the code of an assignment. A preorder between worlds that every single step
  of the lifecycle respects (a call to a client, a fetch with the transaction of its batch, a
  one-statement transaction, a write to the partition machine, a log line) is respected by
  the whole assignment of the partitions \<open>T\<close>, whatever its outcome. The fetch and the batch
  are one step, because a relation may depend on where the records of a batch come from; the
  second locale is for relations that hold of any batch. The instances are in the theories
  that follow: relations between committed tables, the frame of the partition machine, the
  passing of time, and the changelog every row comes from.
\<close>

text \<open>One fetch: its error, no records, or a batch materialized in one transaction.\<close>

definition fetch_step ::
    "'k ops \<Rightarrow> rat \<Rightarrow> topic_partition \<Rightarrow> topic_partition \<Rightarrow> nat \<Rightarrow> (exn \<Rightarrow> ('k, 'a) act)
     \<Rightarrow> ('k, 'a) act \<Rightarrow> (consumer_record list \<Rightarrow> ('k, 'a) act) \<Rightarrow> ('k, 'a) act" where
  "fetch_step ops bt tp ctp n failed none rest =
     io_bind (io_attempt (call (op_getmany ops ctp n))) (\<lambda>fetched.
       case fetched of
         Inl e \<Rightarrow> failed e
       | Inr m \<Rightarrow>
           (case m ctp of
              None \<Rightarrow> none
            | Some rs \<Rightarrow>
                if rs = [] then none
                else io_seq (checked_out ops bt (run_txn ops bt (batch_work ops tp rs))) (rest rs)))"

lemma iteration_fetch_step:
  "iteration ops cfg tp ctp deadline c leo v =
     fetch_step ops (cfg_busy_timeout cfg) tp ctp (cfg_batch_size cfg)
       (\<lambda>e. if e = OffsetOutOfRange
            then io_bind (reset_to_earliest ops tp ctp c v) (check_deadline ops (cfg_busy_timeout cfg) tp deadline leo)
            else io_raise e)
       (check_deadline ops (cfg_busy_timeout cfg) tp deadline leo v)
       (\<lambda>rs. io_seq (on_parts (\<lambda>m. record_applied m tp (cr_offset (last rs))))
          (let v' = v\<lparr>records_replayed := records_replayed v + length rs,
                     replayed_after_reset := replayed_after_reset v + length rs,
                     position := cr_offset (last rs) + 1,
                     last_applied := Some (cr_offset (last rs))\<rparr>
           in if position v' \<noteq> leo then check_deadline ops (cfg_busy_timeout cfg) tp deadline leo v'
              else io_ret (Some v')))"
  by (simp only: iteration_def fetch_step_def take_batch_def materialize_batch_def Let_def io_bind_assoc)

lemma ensure_returns:
  "ensure_and_verify ops template retention verify tp w = (Ok name, w') \<Longrightarrow>
   changelog_name (op_format ops) template tp = Inr name"
  by (auto simp: ensure_and_verify_def lift_res_def io_simps split: sum.splits prod.splits res.splits if_splits)

locale lifecycle_steps = preorder_rel R
  for R :: "'k world \<Rightarrow> 'k world \<Rightarrow> bool" +
  fixes ops :: "'k ops" and T :: "topic_partition set"
  assumes clock: "keeps R (ask (op_clock ops))"
    and new_consumer: "keeps R (call (op_new_consumer ops))"
    and consumer_start: "keeps R (call (op_consumer_start ops))"
    and consumer_stop: "keeps R (call (op_consumer_stop ops))"
    and consumer_assign: "keeps R (call (op_assign ops ctp))"
    and consumer_seek: "keeps R (call (op_seek ops ctp n))"
    and consumer_seek_to_beginning: "keeps R (call (op_seek_to_beginning ops ctp))"
    and consumer_beginning_offsets: "keeps R (call (op_beginning_offsets ops ctp))"
    and consumer_end_offsets: "keeps R (call (op_end_offsets ops ctp))"
    and step_zero: "keeps R (ensure_and_verify ops template retention verify tp)"
    and checkpoint_read: "keeps R (read_checkpoint ops bt tp)"
    and clamp_txn: "tp \<in> T \<Longrightarrow> keeps R (execute_in_txn ops bt (CheckpointClamp tp n))"
    and reveal_txn: "tp \<in> T \<Longrightarrow> keeps R (execute_in_txn ops bt (OwnedInsert tp))"
    and machine_write: "tp \<in> T \<Longrightarrow> (\<And>m t. t \<noteq> tp \<Longrightarrow> f m t = m t) \<Longrightarrow> keeps R (on_parts f)"
    and log_line: "keeps R (log_event e)"
    and consumer_field: "keeps R (io_modify (\<lambda>w. w\<lparr>w_consumer := b\<rparr>))"
begin

lemma machine_writes:
  assumes "tp \<in> T"
  shows "keeps R (on_parts (\<lambda>m. record_applied m tp n))"
    "keeps R (on_parts (\<lambda>m. record_clamped m tp n))"
    "keeps R (on_parts (\<lambda>m. record_log_end m tp n))"
    "keeps R (on_parts (\<lambda>m. mark_restoring m tp))"
    "keeps R (on_parts (\<lambda>m. mark_ready m tp))"
    "keeps R (on_parts (\<lambda>m. mark_ready_partial m tp))"
  by (rule machine_write [OF assms], simp add: machine_defs)+

lemma dict_gets: "keeps R (dict_get m x)"
  by (auto simp: dict_get_def keeps_ret keeps_raise split: option.split)

lemmas kept = keeps_combinators keeps_if clock consumer_assign consumer_seek
  consumer_seek_to_beginning consumer_beginning_offsets consumer_end_offsets
  log_line dict_gets step_zero checkpoint_read machine_writes

lemma seed:
  "tp \<in> T \<Longrightarrow> keeps R (case checkpoint of None \<Rightarrow> io_ret () | Some c \<Rightarrow> on_parts (\<lambda>m. record_applied m tp c))"
  by (auto split: option.split intro: kept)

lemma get_consumer: "keeps R (get_consumer ops)"
  unfolding get_consumer_def on_error_def suppress_exceptions_def
  by (intro kept new_consumer consumer_start consumer_stop consumer_field)

lemma end_offset: "keeps R (end_offset ops ctp)"
  unfolding end_offset_def by (intro kept)

lemma reveal: "tp \<in> T \<Longrightarrow> keeps R (reveal ops bt tp)"
  unfolding reveal_def by (rule reveal_txn)

lemma force_stop: "tp \<in> T \<Longrightarrow> keeps R (force_stop ops bt tp c leo)"
  unfolding force_stop_def by (intro kept reveal)

lemma check_deadline: "tp \<in> T \<Longrightarrow> keeps R (check_deadline ops bt tp deadline leo v)"
  unfolding check_deadline_def by (intro kept force_stop)

lemma reset: "keeps R (reset_to_earliest ops tp ctp c v)"
  unfolding reset_to_earliest_def by (intro kept)

lemma clamps: "tp \<in> T \<Longrightarrow> keeps R (apply_post_reset_clamps ops bt tp leo ls n)"
  unfolding apply_post_reset_clamps_def
  by (intro kept) (auto split: option.split intro!: kept clamp_txn)

lemma seek_start: "keeps R (seek_start ops ctp c)"
  unfolding seek_start_def Let_def by (auto split: option.split intro!: kept)

lemma finish: "tp \<in> T \<Longrightarrow> keeps R (finish_rehydrate ops bt tp leo v)"
  unfolding finish_rehydrate_def by (intro kept clamps reveal)

lemma reveal_partial: "tp \<in> T \<Longrightarrow> keeps R (reveal_partial_unreached ops cfg tp name)"
  unfolding reveal_partial_unreached_def Let_def
  by (intro kept seed get_consumer end_offset reveal)

end

text \<open>
  A fetch from the changelog of the partition, with its batch. \<open>reads\<close> holds of a partition and
  the name that a configuration in \<open>accepts\<close> resolves for it.
\<close>

locale fetching_steps = lifecycle_steps +
  fixes accepts :: "settings \<Rightarrow> bool" and reads :: "topic_partition \<Rightarrow> pystr \<Rightarrow> bool"
  assumes resolved:
      "accepts cfg \<Longrightarrow> changelog_name (op_format ops) (cfg_template cfg) tp = Inr name \<Longrightarrow> reads tp name"
    and fetched: "tp \<in> T \<Longrightarrow> reads tp name \<Longrightarrow>
      (\<And>e. keeps R (failed e)) \<Longrightarrow> keeps R none \<Longrightarrow> (\<And>rs. keeps R (rest rs)) \<Longrightarrow>
      keeps R (fetch_step ops bt tp \<lparr>tp_topic = name, tp_partition = 0\<rparr> max_records failed none
        (rest :: consumer_record list \<Rightarrow> ('a, loop_vars option) act))"
begin

lemma iteration:
  assumes "tp \<in> T" "reads tp name"
  shows "keeps R (iteration ops cfg tp \<lparr>tp_topic = name, tp_partition = 0\<rparr> deadline c leo v)"
  unfolding iteration_fetch_step Let_def
  by (intro fetched assms kept reset check_deadline)

lemma replay_loop:
  "tp \<in> T \<Longrightarrow> reads tp name \<Longrightarrow>
   keeps R (replay_loop fuel ops cfg tp \<lparr>tp_topic = name, tp_partition = 0\<rparr> deadline c leo v)"
proof (induction fuel arbitrary: v)
  case (Suc fuel)
  show ?case
    by (subst replay_loop.simps) (auto split: option.split intro!: kept iteration Suc)
qed (subst replay_loop.simps, auto intro!: kept)

lemma replay_changelog:
  "tp \<in> T \<Longrightarrow> reads tp name \<Longrightarrow>
   keeps R (replay_changelog fuel ops cfg tp \<lparr>tp_topic = name, tp_partition = 0\<rparr> deadline checkpoint leo)"
  unfolding replay_changelog_def
  by (intro kept seek_start replay_loop) (auto split: option.split intro!: kept finish)

lemma rehydrate_one: "tp \<in> T \<Longrightarrow> reads tp name \<Longrightarrow> keeps R (rehydrate_one fuel ops cfg tp name deadline)"
  unfolding rehydrate_one_def Let_def by (intro kept seed get_consumer end_offset replay_changelog)

lemma assign_one:
  assumes "tp \<in> T" "accepts cfg"
  shows "keeps R (assign_one fuel ops cfg deadline first tp)"
  unfolding assign_one_def
proof (rule keeps_bind_result [OF step_zero], drule ensure_returns)
  fix name assume "changelog_name (op_format ops) (cfg_template cfg) tp = Inr name"
  note assms(1) resolved [OF assms(2) this]
  then show "keeps R (io_bind (if first then io_ret False
        else io_bind (ask (op_clock ops)) (\<lambda>now. io_ret (now \<ge> deadline))) (\<lambda>late.
      if late then io_seq (reveal_partial_unreached ops cfg tp name) (io_ret first)
      else io_seq (rehydrate_one fuel ops cfg tp name deadline) (io_ret False)))"
    by (intro kept reveal_partial rehydrate_one)
qed

lemma assign_from: "set tps \<subseteq> T \<Longrightarrow> accepts cfg \<Longrightarrow> keeps R (assign_from fuel ops cfg deadline tps first)"
  by (induction tps arbitrary: first) (auto intro!: kept assign_one)

lemma assigned: "set tps \<subseteq> T \<Longrightarrow> accepts cfg \<Longrightarrow> keeps R (on_partitions_assigned fuel ops cfg tps)"
  unfolding on_partitions_assigned_def by (intro kept assign_from)

end

text \<open>A relation that any batch respects.\<close>

locale assignment_steps = lifecycle_steps +
  assumes consumer_getmany: "keeps R (call (op_getmany ops ctp max_records))"
    and batch_txn: "tp \<in> T \<Longrightarrow> keeps R (checked_out ops bt (run_txn ops bt (batch_work ops tp rs)))"
begin

lemma any_batch:
  assumes "tp \<in> T" "\<And>e. keeps R (failed e)" "keeps R none" "\<And>rs. keeps R (rest rs)"
  shows "keeps R (fetch_step ops bt tp ctp n failed none rest)"
  unfolding fetch_step_def
  by (intro keeps_combinators consumer_getmany)
    (use assms in \<open>auto split: sum.split option.split intro!: keeps_combinators batch_txn\<close>)

lemma materialize_batch: "tp \<in> T \<Longrightarrow> keeps R (materialize_batch ops bt tp rs)"
  unfolding materialize_batch_def by (intro kept batch_txn)

lemma take_batch: "tp \<in> T \<Longrightarrow> keeps R (take_batch ops bt tp deadline leo rs v)"
  unfolding take_batch_def Let_def by (intro kept materialize_batch check_deadline)

end

sublocale assignment_steps \<subseteq> fetching_steps R ops T "\<lambda>_. True" "\<lambda>_ _. True"
  by unfold_locales (simp_all add: any_batch)

section \<open>Frames of the database steps\<close>

lemma keeps_replay_record: "keeps same_memory (replay_record ops tp r)"
  unfolding replay_record_def by (auto split: classified.split intro!: keeps_basics keeps_execute)

lemma keeps_batch_work: "keeps same_memory (batch_work ops tp rs)"
  unfolding batch_work_def by (intro keeps_basics keeps_replay_record keeps_execute)

lemma keeps_batch_txn:
  "keeps same_memory (checked_out ops bt (run_txn ops bt (batch_work ops tp rs)))"
  by (intro keeps_checked_out keeps_run_txn keeps_batch_work)

lemma keeps_execute_in_txn: "keeps same_memory (execute_in_txn ops bt s)"
  unfolding execute_in_txn_def by (intro keeps_checked_out keeps_run_txn keeps_execute)

lemma keeps_read_checkpoint: "keeps same_memory (read_checkpoint ops bt tp)"
  unfolding read_checkpoint_def by (intro keeps_basics keeps_checked_out keeps_fetch)

end
