(* ===== verification/Table_Relations.thy ===== *)
theory Table_Relations imports
  Assignment_Steps
begin

text \<open>
  Relations between the tables before and after an operation, whatever its outcome. A
  relation that the statements of a write path respect is respected by the whole
  operation: proved once in locales whose assumptions are about single statements, and
  interpreted on the concrete relations (rows are only added and message ids stay unique,
  other partitions are untouched, what a revocation keeps).
\<close>

section \<open>Relations over committed tables\<close>

text \<open>Between two moments with no transaction open.\<close>

definition settled :: "(database \<Rightarrow> database \<Rightarrow> bool) \<Rightarrow> 'k world \<Rightarrow> 'k world \<Rightarrow> bool" where
  "settled R w w' \<longleftrightarrow> (w_saved w = None \<longrightarrow> w_saved w' = None \<and> R (w_db w) (w_db w'))"

locale db_relation =
  fixes R :: "database \<Rightarrow> database \<Rightarrow> bool"
  assumes R_refl: "R d d"
    and R_trans: "R a b \<Longrightarrow> R b c \<Longrightarrow> R a c"

sublocale db_relation \<subseteq> settled: preorder_rel "settled R"
  by unfold_locales (auto simp: settled_def intro: R_refl R_trans)

context db_relation
begin

lemma settled_updates:
  "settled R w (w\<lparr>w_env := k\<rparr>)" "settled R w (w\<lparr>w_parts := m\<rparr>)"
  "settled R w (w\<lparr>w_checked := c\<rparr>)" "settled R w (w\<lparr>w_consumer := b\<rparr>)"
  "settled R w (w\<lparr>w_log := l\<rparr>)" "settled R w w"
  by (auto simp: settled_def intro: R_refl)

lemma settled_same_tables:
  "w_db w' = w_db w \<Longrightarrow> w_saved w' = w_saved w \<Longrightarrow> settled R w w'"
  by (auto simp: settled_def intro: R_refl)

lemma steps:
  "keeps (settled R) (ask f)" "keeps (settled R) (call g)" "keeps (settled R) (log_event e)"
  "keeps (settled R) (on_parts h)" "keeps (settled R) (lift_res r)" "keeps (settled R) (dict_get m x)"
  by (auto simp: keeps_def ask_def call_def log_event_def on_parts_def lift_res_def dict_get_def
      io_simps settled_updates split: prod.split sum.split option.split)

lemma txn:
  assumes "txn_work work E" "\<And>d x d'. E d x d' \<Longrightarrow> R d d'"
  shows "keeps (settled R) (checked_out ops bt (run_txn ops bt work))"
proof (rule keepsI)
  fix w r w' assume run: "checked_out ops bt (run_txn ops bt work) w = (r, w')"
  show "settled R w w'"
    using wpD [OF checked_out_txn_rule [OF assms(1)] run] assms(2)
    by (auto simp: settled_def R_refl split: res.splits)
qed

lemma read:
  assumes "read_stmt s"
  shows "keeps (settled R) (checked_out ops bt (fetch ops s f))"
proof (rule keepsI)
  fix w r w' assume run: "checked_out ops bt (fetch ops s f) w = (r, w')"
  have "wp (fetch ops s f) (\<lambda>r v'. r \<noteq> Running \<and> committed v' = w_db w) v"
    if "w_saved v = None" "w_db v = w_db w" for v
    using wp_conj [OF keeps_wp [OF quiet_fetch] halts_wp [OF halts_fetch], OF assms, of ops f v] that
    by (auto simp: quiet_def elim!: wp_mono)
  from wpD [OF checked_out_rule [where P = "\<lambda>r d. r \<noteq> Running \<and> d = w_db w", OF _ this] run]
  show "settled R w w'" by (auto simp: settled_def intro: R_refl)
qed

lemmas kept = settled.keeps_combinators steps keeps_if

end

section \<open>The two write paths\<close>

locale materializing = db_relation +
  fixes T :: "topic_partition set"
  assumes R_insert: "row_tp r \<in> T \<Longrightarrow> insert_record json r d = Inr d' \<Longrightarrow> R d d'"
    and R_upsert: "tp \<in> T \<Longrightarrow> R d (checkpoint_upsert d tp n)"
begin

lemma R_materialized:
  "row_tp r \<in> T \<Longrightarrow> materialized json r d = Inr d' \<Longrightarrow> R d d'"
  by (auto simp: materialized_def split: sum.splits intro: R_trans R_insert R_upsert)

lemma append_txn:
  assumes "row_tp r \<in> T"
  shows "keeps (settled R) (checked_out ops bt (run_txn ops bt (apply_materialization ops r)))"
  by (rule txn [OF txn_work_apply_materialization]) (rule R_materialized [OF assms])

lemma replay_record_work:
  assumes "tp \<in> T"
  shows "txn_work (replay_record ops tp r) (\<lambda>d _ d'. R d d')"
proof (cases "classify (cr_key r) (cr_value r) (cr_headers r)")
  case (KsqliteRecord mid key body)
  have "row_tp (replayed_record tp n mid key body) = tp" for n
    by (simp add: row_tp_def replayed_record_def)
  then show ?thesis using assms KsqliteRecord
    by (auto simp: replay_record_def intro!: txn_work_mono [OF txn_work_execute]
        elim!: R_insert [rotated])
next
  case (ForeignRecord reason)
  then show ?thesis
    by (auto simp: replay_record_def intro!: txn_work_mono [OF txn_work_log] intro: R_refl)
qed (simp add: replay_record_def txn_work_raise)

lemma replay_records_work:
  "tp \<in> T \<Longrightarrow> txn_work (io_for (replay_record ops tp) rs) (\<lambda>d _ d'. R d d')"
proof (induction rs)
  case Nil
  show ?case unfolding io_for.simps
    by (rule txn_work_mono [OF txn_work_ret]) (simp add: R_refl)
next
  case (Cons r rs)
  show ?case unfolding io_for.simps
    by (rule txn_work_mono [OF txn_work_bind [OF replay_record_work Cons.IH]])
      (use Cons.prems in \<open>auto intro: R_trans\<close>)
qed

lemma batch_txn:
  assumes "tp \<in> T"
  shows "keeps (settled R) (checked_out ops bt (run_txn ops bt (batch_work ops tp rs)))"
  unfolding batch_work_def
  by (rule txn, rule txn_work_bind [OF replay_records_work [OF assms] txn_work_execute])
    (use assms in \<open>auto intro: R_trans R_upsert\<close>)

lemma kept_batch: "tp \<in> T \<Longrightarrow> keeps (settled R) (materialize_batch ops bt tp rs)"
  unfolding materialize_batch_def by (intro kept batch_txn)

end

locale assigning = materializing +
  assumes R_clamp: "tp \<in> T \<Longrightarrow> R d (checkpoint_clamp d tp n)"
    and R_reveal: "tp \<in> T \<Longrightarrow> R d (owned_insert d tp)"
begin

lemma write_txns:
  assumes "tp \<in> T"
  shows "keeps (settled R) (execute_in_txn ops bt (CheckpointClamp tp n))"
    "keeps (settled R) (execute_in_txn ops bt (OwnedInsert tp))"
  unfolding execute_in_txn_def
  by (rule txn [OF txn_work_execute], simp, use assms in \<open>auto intro: R_clamp R_reveal\<close>)+

lemma step_zero_kept: "keeps (settled R) (ensure_and_verify ops template retention verify tp)"
  by (rule keepsI)
    (auto dest!: keepsD [OF broker_ensure] simp: broker_only_def intro: settled_same_tables)

lemma read_checkpoint_kept: "keeps (settled R) (read_checkpoint ops bt tp)"
  unfolding read_checkpoint_def by (intro kept read) simp

end

sublocale assigning \<subseteq> world: assignment_steps "settled R" ops T for ops
  by unfold_locales
    (rule steps batch_txn write_txns step_zero_kept read_checkpoint_kept
      settled.keeps_modify [OF settled_updates(4)]; assumption?)+

section \<open>Revocation\<close>

locale revoking = db_relation +
  fixes T :: "topic_partition set"
  assumes R_hide: "tp \<in> T \<Longrightarrow> R d (owned_delete d tp)"
begin

lemma kept_revoke_one: "tp \<in> T \<Longrightarrow> keeps (settled R) (revoke_one ops cfg tp)"
  unfolding revoke_one_def execute_in_txn_def
  by (intro kept txn [OF txn_work_execute]) (auto intro: R_hide)

lemma kept_revoked: "set tps \<subseteq> T \<Longrightarrow> keeps (settled R) (on_partitions_revoked ops cfg tps)"
  unfolding on_partitions_revoked_def
  by (induction tps) (auto intro!: kept kept_revoke_one)

end

section \<open>The relations\<close>

text \<open>An assignment of \<open>T\<close> changes nothing of the other partitions and hides nothing.\<close>

definition assignment_frame :: "topic_partition set \<Rightarrow> database \<Rightarrow> database \<Rightarrow> bool" where
  "assignment_frame T d d' \<longleftrightarrow>
     (\<exists>rs. db_records d' = db_records d @ rs \<and> row_tp ` set rs \<subseteq> T)
     \<and> (\<forall>tp. tp \<notin> T \<longrightarrow> db_checkpoints d' tp = db_checkpoints d tp)
     \<and> db_owned d \<subseteq> db_owned d' \<and> db_owned d' \<subseteq> db_owned d \<union> T
     \<and> db_catalog d' = db_catalog d"

text \<open>The unique constraint, kept by every write.\<close>

definition keeps_unique :: "database \<Rightarrow> database \<Rightarrow> bool" where
  "keeps_unique d d' \<longleftrightarrow> rows_added d d' \<and> (unique_messages d \<longrightarrow> unique_messages d')"

text \<open>A revocation keeps all rows and checkpoints (the warm standby).\<close>

definition standby_frame :: "topic_partition set \<Rightarrow> database \<Rightarrow> database \<Rightarrow> bool" where
  "standby_frame T d d' \<longleftrightarrow>
     db_records d' = db_records d \<and> db_checkpoints d' = db_checkpoints d
     \<and> db_catalog d' = db_catalog d \<and> db_owned d - T \<subseteq> db_owned d' \<and> db_owned d' \<subseteq> db_owned d"

lemma assignment_frame_insert:
  "row_tp r \<in> T \<Longrightarrow> insert_record json r d = Inr d' \<Longrightarrow> assignment_frame T d d'"
  by (auto simp: assignment_frame_def insert_record_cases row_tp_def split: option.splits if_splits)

interpretation frame: assigning "assignment_frame T" T for T
proof unfold_locales
  fix a b c assume "assignment_frame T a b" "assignment_frame T b c"
  moreover from this obtain rs where "db_records b = db_records a @ rs" "row_tp ` set rs \<subseteq> T"
    unfolding assignment_frame_def by blast
  moreover from \<open>assignment_frame T b c\<close> obtain qs
    where "db_records c = db_records b @ qs" "row_tp ` set qs \<subseteq> T"
    unfolding assignment_frame_def by blast
  ultimately have "db_records c = db_records a @ (rs @ qs)" "row_tp ` set (rs @ qs) \<subseteq> T" by auto
  with \<open>assignment_frame T a b\<close> \<open>assignment_frame T b c\<close> show "assignment_frame T a c"
    unfolding assignment_frame_def by (intro conjI exI [of _ "rs @ qs"]) auto
next
  fix r json d d' assume "row_tp r \<in> T" "insert_record json r d = Inr d'"
  then show "assignment_frame T d d'" by (rule assignment_frame_insert)
qed (auto simp: assignment_frame_def checkpoint_upsert_def checkpoint_clamp_def owned_insert_def)

interpretation unique: assigning keeps_unique UNIV
  by unfold_locales
    (auto simp: keeps_unique_def checkpoint_clamp_def owned_insert_def unique_messages_def rows_added_def
      insert_record_cases message_ids_def split: option.splits if_splits)

interpretation anything: assigning "\<lambda>_ _. True" UNIV
  by unfold_locales simp_all

interpretation standby: revoking "standby_frame T" T for T
  by unfold_locales (auto simp: standby_frame_def owned_delete_def)

end
