(* ===== verification/Assignment_Outcome.thy ===== *)
theory Assignment_Outcome imports
  Table_Relations
begin

text \<open>
  What an assignment and a revocation leave behind, on success and on failure: the frame
  of the tables (from the locales of \<^verbatim>\<open>Table_Relations\<close>), the partition machine and the
  visibility of the partitions involved, and the class of the errors raised.
\<close>

section \<open>The partition machine\<close>

definition parts_frame :: "topic_partition set \<Rightarrow> 'k world \<Rightarrow> 'k world \<Rightarrow> bool" where
  "parts_frame T w w' \<longleftrightarrow> (\<forall>tp. tp \<notin> T \<longrightarrow> w_parts w' tp = w_parts w tp)"

interpretation parts: preorder_rel "parts_frame T" for T
  by unfold_locales (auto simp: parts_frame_def)

lemma parts_same_memory: "keeps same_memory m \<Longrightarrow> keeps (parts_frame T) m"
  by (rule keepsI) (auto dest: keepsD simp: same_memory_def parts_frame_def)

lemma parts_broker: "keeps broker_only m \<Longrightarrow> keeps (parts_frame T) m"
  by (rule keepsI) (auto dest: keepsD simp: broker_only_def parts_frame_def)

lemma parts_on_parts:
  "tp \<in> T \<Longrightarrow> (\<And>m t. t \<noteq> tp \<Longrightarrow> f m t = m t) \<Longrightarrow> keeps (parts_frame T) (on_parts f)"
  unfolding on_parts_def by (rule parts.keeps_modify) (simp add: parts_frame_def, metis)

interpretation machine: assignment_steps "parts_frame T" ops T for T ops
  by unfold_locales
    ((erule parts_on_parts, blast) | (rule parts_same_memory [OF keeps_ask] parts_same_memory [OF keeps_call]
      parts_same_memory [OF keeps_log_event] parts_same_memory [OF keeps_batch_txn]
      parts_same_memory [OF keeps_execute_in_txn] parts_same_memory [OF keeps_read_checkpoint]
      parts_broker [OF broker_ensure] parts.keeps_modify; simp add: parts_frame_def))+

section \<open>A successful assignment reveals\<close>

text \<open>A partition's rows are visible and its status says so.\<close>

definition revealed :: "topic_partition \<Rightarrow> 'k world \<Rightarrow> bool" where
  "revealed tp w \<longleftrightarrow>
     tp \<in> db_owned (w_db w) \<and> (\<exists>s. status_of (w_parts w) tp = Some s \<and> revealed_status s)"

text \<open>
  What holds when \<open>m\<close> returns: a triple for runs that start and end with no transaction open.
\<close>

definition triple :: "('k world \<Rightarrow> bool) \<Rightarrow> ('k, 'a) act \<Rightarrow> ('a \<Rightarrow> 'k world \<Rightarrow> bool) \<Rightarrow> bool" where
  "triple P m Q \<longleftrightarrow>
     (\<forall>w x w'. w_saved w = None \<longrightarrow> P w \<longrightarrow> m w = (Ok x, w') \<longrightarrow> w_saved w' = None \<and> Q x w')"

abbreviation success :: "('k, 'a) act \<Rightarrow> ('a \<Rightarrow> 'k world \<Rightarrow> bool) \<Rightarrow> bool" where
  "success \<equiv> triple (\<lambda>_. True)"

abbreviation stays_settled :: "('k, 'a) act \<Rightarrow> bool" where
  "stays_settled m \<equiv> keeps (settled (\<lambda>_ _. True)) m"

lemma tripleD:
  "triple P m Q \<Longrightarrow> w_saved w = None \<Longrightarrow> P w \<Longrightarrow> m w = (Ok x, w') \<Longrightarrow> w_saved w' = None \<and> Q x w'"
  unfolding triple_def by blast

lemma triple_bind:
  assumes "triple P m R" "\<And>x. triple (R x) (f x) Q"
  shows "triple P (io_bind m f) Q"
  unfolding triple_def
proof (intro allI impI)
  fix w y w'
  assume w: "w_saved w = None" "P w" "io_bind m f w = (Ok y, w')"
  then obtain x v where x: "m w = (Ok x, v)" "f x v = (Ok y, w')"
    by (auto simp: io_bind_def split: prod.splits res.splits)
  from tripleD [OF assms(1) w(1,2) x(1)] tripleD [OF assms(2) _ _ x(2)]
  show "w_saved w' = None \<and> Q y w'" by blast
qed

lemma triple_settled: "stays_settled m \<Longrightarrow> triple P m (\<lambda>_ _. True)"
  unfolding triple_def settled_def by (blast dest: keepsD)

lemma success_after:
  "stays_settled m \<Longrightarrow> (\<And>x. success (f x) Q) \<Longrightarrow> success (io_bind m f) Q"
  by (rule triple_bind [OF triple_settled])

lemma triple_pre: "triple R m Q \<Longrightarrow> (\<And>w. P w \<Longrightarrow> R w) \<Longrightarrow> triple P m Q"
  unfolding triple_def by blast

lemma triple_ret: "triple P (io_ret x) Q \<longleftrightarrow> (\<forall>w. w_saved w = None \<longrightarrow> P w \<longrightarrow> Q x w)"
  by (auto simp: triple_def io_ret_def)

lemma triple_raise [simp]: "triple P (io_raise e) Q"
  by (simp add: triple_def io_raise_def)

lemma triple_running [simp]: "triple P io_running Q"
  by (simp add: triple_def io_running_def)

lemma triple_if: "(b \<Longrightarrow> triple P m Q) \<Longrightarrow> (\<not> b \<Longrightarrow> triple P n Q) \<Longrightarrow> triple P (if b then m else n) Q"
  by simp

lemma triple_option:
  "(o' = None \<Longrightarrow> triple P m Q) \<Longrightarrow> (\<And>x. o' = Some x \<Longrightarrow> triple P (f x) Q) \<Longrightarrow>
   triple P (case o' of None \<Rightarrow> m | Some x \<Rightarrow> f x) Q"
  by (cases o') auto

lemma txn_success:
  assumes "plain_stmt s" "w_saved w = None" "execute_in_txn ops bt s w = (Ok u, w')"
  shows "w_saved w' = None \<and> stmt_effect (op_json ops) (op_ddl ops) s (w_db w) = Inr (w_db w')
    \<and> w_parts w' = w_parts w"
proof -
  note run = assms(3) [unfolded execute_in_txn_def]
  from wpD [OF checked_out_txn_rule [OF txn_work_execute [OF assms(1)] assms(2)] run]
    keepsD [OF keeps_checked_out [OF keeps_run_txn [OF keeps_execute]] run]
  show ?thesis by (simp add: same_memory_def)
qed

lemma reveal_tail:
  assumes "\<And>m. \<exists>s. status_of (f m) tp = Some s \<and> revealed_status s"
  shows "success (io_seq (on_parts f) (io_seq (reveal ops bt tp) (log_event e))) (\<lambda>_. revealed tp)"
  unfolding triple_def
proof (intro allI impI)
  fix w u w'
  assume w: "w_saved w = None"
    and run: "io_seq (on_parts f) (io_seq (reveal ops bt tp) (log_event e)) w = (Ok u, w')"
  let ?w = "w\<lparr>w_parts := f (w_parts w)\<rparr>"
  from run obtain v where v: "reveal ops bt tp ?w = (Ok (), v)" "w' = v\<lparr>w_log := w_log v @ [e]\<rparr>"
    by (auto simp: on_parts_def log_event_def io_simps split: prod.splits res.splits)
  have "w_saved v = None \<and> w_db v = owned_insert (w_db ?w) tp \<and> w_parts v = w_parts ?w"
    using txn_success [of "OwnedInsert tp", OF _ _ v(1) [unfolded reveal_def]] w by simp
  then show "w_saved w' = None \<and> revealed tp w'"
    using v(2) assms [of "w_parts w"] by (simp add: revealed_def owned_insert_def)
qed

lemma success_force_stop: "success (force_stop ops bt tp c leo) (\<lambda>_. revealed tp)"
  unfolding force_stop_def by (rule reveal_tail) simp

lemma success_check_deadline:
  "success (check_deadline ops bt tp deadline leo v) (\<lambda>out w. out = None \<longrightarrow> revealed tp w)"
  unfolding check_deadline_def
  by (intro success_after anything.steps triple_if triple_bind [OF success_force_stop])
    (simp_all add: triple_ret)

lemma success_take_batch:
  "success (take_batch ops bt tp deadline leo rs v) (\<lambda>out w. out = None \<longrightarrow> revealed tp w)"
  unfolding take_batch_def Let_def
  by (intro success_after anything.world.materialize_batch triple_if success_check_deadline)
    (simp_all add: triple_ret)

lemma success_iteration:
  "success (iteration ops cfg tp ctp deadline c leo v) (\<lambda>out w. out = None \<longrightarrow> revealed tp w)"
  unfolding iteration_def Let_def
proof (rule success_after)
  fix fetched
  show "success (case fetched of
      Inl e \<Rightarrow> if e = OffsetOutOfRange
        then io_bind (reset_to_earliest ops tp ctp c v) (check_deadline ops (cfg_busy_timeout cfg) tp deadline leo)
        else io_raise e
    | Inr batch_map \<Rightarrow> (case batch_map ctp of
        None \<Rightarrow> check_deadline ops (cfg_busy_timeout cfg) tp deadline leo v
      | Some rs \<Rightarrow> if rs = [] then check_deadline ops (cfg_busy_timeout cfg) tp deadline leo v
          else take_batch ops (cfg_busy_timeout cfg) tp deadline leo rs v))
    (\<lambda>out w. out = None \<longrightarrow> revealed tp w)"
    by (cases fetched)
      (simp_all add: success_after [OF anything.world.reset] success_check_deadline triple_option
        success_take_batch)
qed (intro anything.kept)

lemma success_replay_loop:
  "success (replay_loop fuel ops cfg tp ctp deadline c leo v) (\<lambda>out w. out = None \<longrightarrow> revealed tp w)"
proof (induction fuel arbitrary: v)
  case 0
  show ?case by (subst replay_loop.simps) (simp add: triple_ret)
next
  case (Suc fuel)
  have "triple (\<lambda>w. next_vars = None \<longrightarrow> revealed tp w) (case next_vars of None \<Rightarrow> io_ret None
      | Some v' \<Rightarrow> replay_loop fuel ops cfg tp ctp deadline c leo v')
      (\<lambda>out w. out = None \<longrightarrow> revealed tp w)" for next_vars
    by (rule triple_option) (simp add: triple_ret, simp add: Suc.IH)
  then show ?case
    by (subst replay_loop.simps) (auto simp: triple_ret intro: triple_bind [OF success_iteration])
qed

lemma success_finish: "success (finish_rehydrate ops bt tp leo v) (\<lambda>_. revealed tp)"
  unfolding finish_rehydrate_def
  by (rule success_after [OF _ reveal_tail]) (intro anything.kept anything.world.clamps, simp_all)

lemma success_replay_changelog:
  "success (replay_changelog fuel ops cfg tp ctp deadline checkpoint leo) (\<lambda>_. revealed tp)"
  unfolding replay_changelog_def
  by ((rule success_after [OF anything.steps(4)] success_after [OF anything.steps(3)]
        success_after [OF anything.steps(2)] success_after [OF anything.world.seek_start])+,
      rule triple_bind [OF success_replay_loop], rule triple_option)
    (simp add: triple_ret, rule triple_pre [OF success_finish], simp)

lemma success_rehydrate_one:
  "success (rehydrate_one fuel ops cfg tp name deadline) (\<lambda>_. revealed tp)"
  unfolding rehydrate_one_def Let_def
  by (intro success_after anything.read_checkpoint_kept anything.world.seed anything.world.get_consumer
      anything.world.end_offset success_replay_changelog UNIV_I)

lemma success_reveal_partial:
  "success (reveal_partial_unreached ops cfg tp name) (\<lambda>_. revealed tp)"
  unfolding reveal_partial_unreached_def Let_def
  by (intro success_after anything.read_checkpoint_kept anything.world.get_consumer
      anything.world.end_offset anything.steps reveal_tail)
    (auto split: option.split intro: anything.kept)

lemma success_assign_one:
  "success (assign_one fuel ops cfg deadline first tp) (\<lambda>_. revealed tp)"
  unfolding assign_one_def
  by (intro success_after anything.step_zero_kept anything.kept triple_if
      triple_bind [OF success_reveal_partial] triple_bind [OF success_rehydrate_one])
    (simp_all add: triple_ret)

section \<open>The whole assignment\<close>

lemma assignment_frame_mono: "assignment_frame T d d' \<Longrightarrow> T \<subseteq> U \<Longrightarrow> assignment_frame U d d'"
  unfolding assignment_frame_def by (elim conjE exE, intro conjI exI, assumption) auto

lemma parts_frame_mono: "parts_frame T w w' \<Longrightarrow> T \<subseteq> U \<Longrightarrow> parts_frame U w w'"
  unfolding parts_frame_def by blast

lemma revealed_kept:
  "revealed t v \<Longrightarrow> assignment_frame T (w_db v) (w_db w) \<Longrightarrow> parts_frame T v w \<Longrightarrow> t \<notin> T \<Longrightarrow> revealed t w"
  unfolding revealed_def assignment_frame_def parts_frame_def status_of_def by (metis subsetD)

lemma assign_one_frames:
  assumes "w_saved w = None" "assign_one fuel ops cfg deadline first tp w = (r, w')"
  shows "w_saved w' = None" "assignment_frame {tp} (w_db w) (w_db w')" "parts_frame {tp} w w'"
  using keepsD [OF frame.world.assign_one [OF _ TrueI, of tp "{tp}"] assms(2)]
    keepsD [OF machine.assign_one [OF _ TrueI, of tp "{tp}"] assms(2)] assms(1)
  by (auto simp: settled_def)

lemma rehydrate_error_mapped [simp]:
  "\<not> is_storage_error (rehydrate_error e)" "\<not> is_kafka_error (rehydrate_error e)"
  by (auto simp: rehydrate_error_def)

definition failed_at ::
    "topic_partition list \<Rightarrow> 'k world \<Rightarrow> 'k world \<Rightarrow> topic_partition list \<Rightarrow> topic_partition \<Rightarrow> bool" where
  "failed_at tps w w' pre tp \<longleftrightarrow>
     (\<exists>post. tps = pre @ tp # post)
     \<and> assignment_frame (set (pre @ [tp])) (w_db w) (w_db w')
     \<and> parts_frame (set (pre @ [tp])) w w'
     \<and> list_all (\<lambda>t. t = tp \<or> revealed t w') pre"

lemma failed_at_Cons:
  assumes "revealed t v" "assignment_frame {t} (w_db w) (w_db v)" "parts_frame {t} w v"
    "failed_at tps v w' pre tp"
  shows "failed_at (t # tps) w w' (t # pre) tp"
proof -
  let ?T = "set ((t # pre) @ [tp])"
  have f: "assignment_frame (set (pre @ [tp])) (w_db v) (w_db w')" "parts_frame (set (pre @ [tp])) v w'"
    using assms(4) by (auto simp: failed_at_def)
  have "assignment_frame ?T (w_db w) (w_db w')"
    by (rule frame.R_trans [OF assignment_frame_mono [OF assms(2)] assignment_frame_mono [OF f(1)]]) auto
  moreover have "parts_frame ?T w w'"
    by (rule parts.rtrans [OF parts_frame_mono [OF assms(3)] parts_frame_mono [OF f(2)]]) auto
  moreover have "t = tp \<or> revealed t w'"
    using revealed_kept [OF assms(1) f] assms(4) by (auto simp: failed_at_def list_all_iff)
  ultimately show ?thesis using assms(4) by (simp add: failed_at_def)
qed

lemma assign_from_outcome:
  "w_saved w = None \<Longrightarrow> assign_from fuel ops cfg deadline tps first w = (r, w') \<Longrightarrow>
   case r of
     Ok _ \<Rightarrow> list_all (\<lambda>t. revealed t w') tps
   | Exn e \<Rightarrow> \<not> is_storage_error e \<and> \<not> is_kafka_error e \<and> (\<exists>pre tp. failed_at tps w w' pre tp)
   | Running \<Rightarrow> True"
proof (induction tps arbitrary: w first)
  case (Cons t tps)
  obtain s v where one: "assign_one fuel ops cfg deadline first t w = (s, v)" by fastforce
  note fr = assign_one_frames [OF Cons.prems(1) one]
  show ?case
  proof (cases s)
    case (Ok first')
    have rest: "assign_from fuel ops cfg deadline tps first' v = (r, w')"
      using Cons.prems(2) one Ok by (simp add: io_simps)
    have t: "revealed t v" using tripleD [OF success_assign_one Cons.prems(1) _ one [unfolded Ok]] by simp
    note IH = Cons.IH [OF fr(1) rest]
    show ?thesis
    proof (cases r)
      case (Ok u)
      have "revealed t w'" if "t \<notin> set tps"
      proof (rule revealed_kept [OF t _ _ that])
        show "assignment_frame (set tps) (w_db v) (w_db w')"
          using keepsD [OF frame.world.assign_from [OF subset_refl TrueI] rest] fr(1) by (simp add: settled_def)
        show "parts_frame (set tps) v w'"
          by (rule keepsD [OF machine.assign_from [OF subset_refl TrueI] rest])
      qed
      then show ?thesis using IH Ok by (auto simp: list_all_iff)
    next
      case (Exn e)
      with IH failed_at_Cons [OF t fr(2,3)] show ?thesis by (simp, blast)
    qed simp
  next
    case (Exn e)
    then have r: "r = Exn (rehydrate_error e)" "w' = v"
      using Cons.prems(2) one by (simp_all add: io_simps)
    have "failed_at (t # tps) w v [] t" using fr by (simp add: failed_at_def)
    then show ?thesis by (auto simp: r)
  qed (use Cons.prems(2) one in \<open>simp add: io_simps\<close>)
qed (auto simp: io_simps)

section \<open>Revocation\<close>

definition hidden :: "topic_partition \<Rightarrow> 'k world \<Rightarrow> bool" where
  "hidden tp w \<longleftrightarrow> tp \<notin> db_owned (w_db w) \<and> status_of (w_parts w) tp = Some STANDBY"

lemma revoke_one_success:
  assumes "w_saved w = None" "revoke_one ops cfg tp w = (Ok u, w')"
  shows "status_of (w_parts w) tp = None \<and> w' = w \<or> hidden tp w'"
proof (cases "status_of (w_parts w) tp")
  case None
  then show ?thesis using assms(2) by (simp add: revoke_one_def io_simps)
next
  case (Some s)
  with assms(2) obtain v where v: "execute_in_txn ops (cfg_busy_timeout cfg) (OwnedDelete tp) w = (Ok (), v)"
    "w' = v\<lparr>w_parts := mark_revoked (w_parts v) tp\<rparr>"
    by (auto simp: revoke_one_def on_parts_def io_simps split: prod.splits res.splits)
  from txn_success [of "OwnedDelete tp", OF _ assms(1) v(1)] v(2)
  show ?thesis by (auto simp: hidden_def owned_delete_def dest: sym [of _ "w_db v"])
qed

lemma parts_revoke_one: "tp \<in> T \<Longrightarrow> keeps (parts_frame T) (revoke_one ops cfg tp)"
  unfolding revoke_one_def
  by (intro parts.keeps_combinators keeps_if parts_same_memory keeps_execute_in_txn parts_on_parts)
    (auto simp: machine_defs)

lemma parts_revoked: "set tps \<subseteq> T \<Longrightarrow> keeps (parts_frame T) (io_for (revoke_one ops cfg) tps)"
  by (induction tps) (auto intro!: parts.keeps_combinators parts_revoke_one)

lemma hidden_kept:
  "hidden t v \<Longrightarrow> standby_frame T (w_db v) (w_db w) \<Longrightarrow> parts_frame U v w \<Longrightarrow> t \<notin> U \<Longrightarrow> hidden t w"
  unfolding hidden_def standby_frame_def parts_frame_def status_of_def by (metis subsetD)

lemma revoked_success:
  "w_saved w = None \<Longrightarrow> io_for (revoke_one ops cfg) tps w = (Ok u, w') \<Longrightarrow>
   \<forall>t\<in>set tps. status_of (w_parts w) t = None \<or> hidden t w'"
proof (induction tps arbitrary: w)
  case (Cons t tps)
  from Cons.prems(2) obtain v where v: "revoke_one ops cfg t w = (Ok (), v)"
    "io_for (revoke_one ops cfg) tps v = (Ok u, w')"
    by (auto simp: io_simps split: prod.splits res.splits)
  have saved: "w_saved v = None"
    using keepsD [OF standby.kept_revoke_one [of t UNIV] v(1)] Cons.prems(1) by (simp add: settled_def)
  note IH = Cons.IH [OF saved v(2)]
  have fr: "parts_frame {t} w v" by (rule keepsD [OF parts_revoke_one v(1)]) simp
  have later: "standby_frame UNIV (w_db v) (w_db w')" "parts_frame (set tps) v w'"
    using keepsD [OF standby.kept_revoked [of tps UNIV] v(2) [folded on_partitions_revoked_def]] saved
      keepsD [OF parts_revoked [OF subset_refl] v(2)]
    by (simp_all add: settled_def)
  have "status_of (w_parts w) t = None \<or> hidden t w'"
  proof (cases "t \<in> set tps")
    case True
    with IH revoke_one_success [OF Cons.prems(1) v(1)] show ?thesis by (auto simp: hidden_def)
  next
    case False
    with revoke_one_success [OF Cons.prems(1) v(1)] hidden_kept [OF _ later] show ?thesis by blast
  qed
  moreover have "status_of (w_parts w) x = None \<or> hidden x w'" if "x \<in> set tps" "x \<noteq> t" for x
  proof -
    have "status_of (w_parts v) x = status_of (w_parts w) x"
      using fr that(2) by (simp add: parts_frame_def status_of_def)
    with IH that(1) show ?thesis by auto
  qed
  ultimately show ?case by auto
qed simp

section \<open>Properties\<close>

text \<open>
  C18. An assignment is confined to the partitions assigned, whatever happens in it (success,
  any error, cancellation, or a replay still running): rows are only added and belong to
  assigned partitions, the checkpoints of the others stay, no partition is hidden and only
  assigned ones are revealed, so a query sees the same rows of every other partition.
\<close>

theorem assignment_confined:
  assumes "w_saved w = None"
  shows "let d = w_db w; d' = w_db (snd (on_partitions_assigned fuel ops cfg tps w)) in
    assignment_frame (set tps) d d'
    \<and> filter (\<lambda>r. row_tp r \<notin> set tps) (records_view d')
        = filter (\<lambda>r. row_tp r \<notin> set tps) (records_view d)"
proof -
  obtain r w' where run: "on_partitions_assigned fuel ops cfg tps w = (r, w')" by fastforce
  have f: "assignment_frame (set tps) (w_db w) (w_db w')"
    using keepsD [OF frame.world.assigned [OF subset_refl TrueI] run] assms by (simp add: settled_def)
  obtain rs where rs: "db_records (w_db w') = db_records (w_db w) @ rs" "row_tp ` set rs \<subseteq> set tps"
    using f unfolding assignment_frame_def by blast
  have new: "filter (\<lambda>r. row_tp r \<in> S \<and> row_tp r \<notin> set tps) rs = []" for S
    using rs(2) by (auto simp: filter_empty_conv)
  have old: "(row_tp r \<in> db_owned (w_db w')) = (row_tp r \<in> db_owned (w_db w))" if "row_tp r \<notin> set tps" for r
    using f that unfolding assignment_frame_def by blast
  have "filter (\<lambda>r. row_tp r \<notin> set tps) (records_view (w_db w'))
      = filter (\<lambda>r. row_tp r \<notin> set tps) (records_view (w_db w))"
    unfolding records_view_def filter_filter rs(1) filter_append new append_Nil2
    using old by (intro filter_cong) auto
  with f show ?thesis by (simp add: run Let_def)
qed

definition test_settings :: settings where
  "test_settings =
     \<lparr>cfg_template = DEFAULT_CHANGELOG_TEMPLATE, cfg_retention_ms = Some 1000,
      cfg_verify_policy = True, cfg_busy_timeout = 5, cfg_rehydrate_timeout = 30,
      cfg_batch_size = 500\<rparr>"

lemma assignment_confined_witness:
  "let d = w_db (boot fake_start empty_database);
       d' = w_db (snd (on_partitions_assigned 9 fake_ops test_settings [sample_tp]
              (boot fake_start empty_database))) in
    assignment_frame (set [sample_tp]) d d'
    \<and> filter (\<lambda>r. row_tp r \<notin> set [sample_tp]) (records_view d')
        = filter (\<lambda>r. row_tp r \<notin> set [sample_tp]) (records_view d)"
  by (rule assignment_confined) simp





end
