(* ===== verification/Replay_Contract.thy ===== *)
theory Replay_Contract imports
  Assignment_Outcome
begin

text \<open>
  What a replay computes when nothing fails. The reference is \<open>replayed\<close>: the records of a
  log inserted in order, foreign ones skipped. The contract of a quiet outside (a broker
  that serves the log from the consumer's position in batches of any size with finitely
  many empty polls, a database that executes every statement, a clock before the deadline)
  is the locale \<open>log_broker\<close>, interpreted on the in-memory broker of the tests.
\<close>

section \<open>The reference\<close>

fun replayed ::
    "(pystr \<Rightarrow> pystr option) \<Rightarrow> topic_partition \<Rightarrow> consumer_record list \<Rightarrow> database \<Rightarrow> exn + database" where
  "replayed json tp [] d = Inr d"
| "replayed json tp (r # rs) d =
     (case classify (cr_key r) (cr_value r) (cr_headers r) of
        ForeignRecord _ \<Rightarrow> replayed json tp rs d
      | UnknownVersionRecord _ _ \<Rightarrow> Inl (RehydrateError None)
      | KsqliteRecord mid key body \<Rightarrow>
          (case insert_record json (replayed_record tp (cr_offset r) mid key body) d of
             Inl e \<Rightarrow> Inl e
           | Inr d' \<Rightarrow> replayed json tp rs d'))"

text \<open>The rows of the readable records, and whether every record is readable.\<close>

fun log_rows :: "topic_partition \<Rightarrow> consumer_record list \<Rightarrow> db_record list" where
  "log_rows tp [] = []"
| "log_rows tp (r # rs) =
     (case classify (cr_key r) (cr_value r) (cr_headers r) of
        KsqliteRecord mid key body \<Rightarrow> replayed_record tp (cr_offset r) mid key body # log_rows tp rs
      | _ \<Rightarrow> log_rows tp rs)"

fun readable :: "consumer_record \<Rightarrow> bool" where
  "readable r = (case classify (cr_key r) (cr_value r) (cr_headers r) of
     UnknownVersionRecord _ _ \<Rightarrow> False | _ \<Rightarrow> True)"

lemma replayed_run:
  "replayed json tp rs d = Inr d' \<longleftrightarrow>
     list_all readable rs \<and> records.run json (log_rows tp rs) d = Inr d'"
  by (induction rs arbitrary: d) (auto split: classified.split sum.split)

lemma replayed_append:
  "replayed json tp (xs @ ys) d =
     (case replayed json tp xs d of Inl e \<Rightarrow> Inl e | Inr d' \<Rightarrow> replayed json tp ys d')"
  by (induction xs arbitrary: d) (auto split: classified.split sum.split)

lemma replayed_after_upsert:
  "replayed json tp rs d = Inr d' \<Longrightarrow>
   replayed json tp rs (checkpoint_upsert d tp' n) = Inr (checkpoint_upsert d' tp' n)"
  by (auto simp: replayed_run run_after_upsert)

lemma replayed_same_rows:
  "replayed json tp rs d = Inr d' \<Longrightarrow> db_records e = db_records d \<Longrightarrow>
   replayed json tp rs e = Inr (e\<lparr>db_records := db_records d'\<rparr>)"
proof (induction rs arbitrary: d e)
  case (Cons r rs)
  show ?case
  proof (cases "classify (cr_key r) (cr_value r) (cr_headers r)")
    case (KsqliteRecord mid key body)
    with Cons.prems obtain c where
      c: "insert_record json (replayed_record tp (cr_offset r) mid key body) d = Inr c"
        "replayed json tp rs c = Inr d'"
      by (auto split: sum.splits)
    then have "insert_record json (replayed_record tp (cr_offset r) mid key body) e
        = Inr (e\<lparr>db_records := db_records c\<rparr>)"
      using Cons.prems(2) by (auto simp: insert_record_def split: option.splits if_splits)
    with Cons.IH [OF c(2), of "e\<lparr>db_records := db_records c\<rparr>"] KsqliteRecord show ?thesis by simp
  qed (use Cons in auto)
qed simp

text \<open>The records past a checkpoint.\<close>

definition unapplied :: "int option \<Rightarrow> consumer_record list \<Rightarrow> consumer_record list" where
  "unapplied c rs = (case c of None \<Rightarrow> rs | Some n \<Rightarrow> filter (\<lambda>r. n < cr_offset r) rs)"

lemma unapplied_split:
  "\<forall>r\<in>set xs. cr_offset r \<le> n \<Longrightarrow> \<forall>r\<in>set ys. n < cr_offset r \<Longrightarrow> unapplied (Some n) (xs @ ys) = ys"
  by (auto simp: unapplied_def filter_empty_conv filter_id_conv)

text \<open>Where a consumer stands after a batch from an ordered log.\<close>

lemma sorted_filter_split:
  fixes f :: "'a \<Rightarrow> int"
  assumes sorted: "sorted_wrt (<) (map f xs)" and split: "filter (\<lambda>r. p \<le> f r) xs = rs @ rest" and "rs \<noteq> []"
  shows "filter (\<lambda>r. f (last rs) + 1 \<le> f r) xs = rest"
    and "r \<in> set rest \<Longrightarrow> f (last rs) < f r"
proof -
  have sw: "sorted_wrt (\<lambda>a b. f a < f b) (rs @ rest)"
    using sorted sorted_wrt_filter [of "\<lambda>a b. f a < f b" xs "\<lambda>r. p \<le> f r"]
    by (simp add: split sorted_wrt_map)
  have low: "f r \<le> f (last rs)" if "r \<in> set rs" for r
  proof -
    have "sorted_wrt (\<lambda>a b. f a < f b) (butlast rs @ [last rs])"
      using sw \<open>rs \<noteq> []\<close> by (simp add: sorted_wrt_append)
    moreover have "r \<in> set (butlast rs @ [last rs])" using that \<open>rs \<noteq> []\<close> by simp
    ultimately show ?thesis by (auto simp: sorted_wrt_append)
  qed
  have high: "f (last rs) < f r" if "r \<in> set rest" for r
    using sw that \<open>rs \<noteq> []\<close> by (simp add: sorted_wrt_append)
  have "last rs \<in> set (filter (\<lambda>r. p \<le> f r) xs)" using split \<open>rs \<noteq> []\<close> by simp
  then have "p \<le> f (last rs)" by simp
  then have "filter (\<lambda>r. f (last rs) + 1 \<le> f r) xs
      = filter (\<lambda>r. f (last rs) + 1 \<le> f r) (filter (\<lambda>r. p \<le> f r) xs)"
    by (auto intro!: filter_cong)
  also have "\<dots> = filter (\<lambda>r. f (last rs) + 1 \<le> f r) rs @ filter (\<lambda>r. f (last rs) + 1 \<le> f r) rest"
    by (simp add: split)
  also have "filter (\<lambda>r. f (last rs) + 1 \<le> f r) rs = []"
    using low by (fastforce simp: filter_empty_conv)
  also have "filter (\<lambda>r. f (last rs) + 1 \<le> f r) rest = rest"
    using high by (force simp: filter_id_conv add1_zle_eq)
  also have "[] @ rest = rest"
    by simp
  finally show "filter (\<lambda>r. f (last rs) + 1 \<le> f r) xs = rest" .
  show "r \<in> set rest \<Longrightarrow> f (last rs) < f r" by (rule high)
qed

lemma sorted_filter_last:
  fixes f :: "'a \<Rightarrow> int"
  assumes sorted: "sorted_wrt (<) (map f xs)" and "filter (\<lambda>r. p \<le> f r) xs \<noteq> []"
  shows "last (filter (\<lambda>r. p \<le> f r) xs) = last xs"
proof -
  have "xs \<noteq> []" using assms(2) by auto
  then obtain ys y where xs: "xs = ys @ [y]" by (metis rev_exhaust)
  obtain r where "r \<in> set xs" "p \<le> f r" using assms(2) by (auto simp: filter_empty_conv)
  with sorted have "p \<le> f y" by (fastforce simp: xs sorted_wrt_append)
  then show ?thesis by (simp add: xs)
qed

section \<open>A quiet outside\<close>

locale log_broker =
  fixes ops :: "'k ops" and ctp :: topic_partition and limit :: rat
    and good :: "'k \<Rightarrow> bool"
    and contents :: "'k \<Rightarrow> consumer_record list" and log_start leo pos :: "'k \<Rightarrow> int"
    and patience :: "'k \<Rightarrow> nat"
  fixes same :: "'k \<Rightarrow> 'k \<Rightarrow> bool"
  defines "same k k' \<equiv> good k' \<and> contents k' = contents k \<and> log_start k' = log_start k \<and> leo k' = leo k"
  assumes log_shape: "good k \<Longrightarrow> 0 \<le> log_start k \<and> log_start k \<le> leo k
      \<and> sorted_wrt (<) (map cr_offset (contents k))
      \<and> (\<forall>r\<in>set (contents k). log_start k \<le> cr_offset r \<and> cr_offset r < leo k)
      \<and> (if contents k = [] then log_start k = leo k
         else cr_offset (last (contents k)) + 1 = leo k)"
    and clock: "good k \<Longrightarrow> \<exists>t k'. op_clock ops k = (t, k') \<and> t < limit
      \<and> same k k' \<and> pos k' = pos k \<and> patience k' = patience k"
    and statement: "good k \<Longrightarrow> \<exists>k'. op_verdict ops s k = (Runs, k')
      \<and> same k k' \<and> pos k' = pos k \<and> patience k' = patience k"
    and acquire: "good k \<Longrightarrow> \<exists>t q k'. op_acquire ops k = (Inr (Idle t q), k')
      \<and> same k k' \<and> pos k' = pos k \<and> patience k' = patience k"
    and release: "good k \<Longrightarrow> \<exists>k'. op_release ops k = (Inr (), k')
      \<and> same k k' \<and> pos k' = pos k \<and> patience k' = patience k"
    and consumer: "good k \<Longrightarrow> \<exists>k'. op_new_consumer ops k = (Inr (), k') \<and> same k k' \<and> patience k' = patience k"
      "good k \<Longrightarrow> \<exists>k'. op_consumer_start ops k = (Inr (), k') \<and> same k k' \<and> patience k' = patience k"
      "good k \<Longrightarrow> \<exists>k'. op_assign ops ctp k = (Inr (), k') \<and> same k k' \<and> patience k' = patience k"
    and end_offsets: "good k \<Longrightarrow> \<exists>m k'. op_end_offsets ops ctp k = (Inr m, k') \<and> m ctp = Some (leo k)
      \<and> same k k' \<and> patience k' = patience k"
    and seek: "good k \<Longrightarrow> \<exists>k'. op_seek ops ctp start k = (Inr (), k') \<and> same k k' \<and> pos k' = start \<and> patience k' = patience k"
    and seek_to_beginning: "good k \<Longrightarrow> \<exists>k'. op_seek_to_beginning ops ctp k = (Inr (), k')
      \<and> same k k' \<and> pos k' = log_start k \<and> patience k' = patience k"
    and getmany: "good k \<Longrightarrow> log_start k \<le> pos k \<Longrightarrow> pos k \<le> leo k \<Longrightarrow> 0 < n \<Longrightarrow>
      \<exists>m rs j k'. op_getmany ops ctp n k = (Inr m, k')
        \<and> rs = (case m ctp of None \<Rightarrow> [] | Some rs \<Rightarrow> rs)
        \<and> rs = take j (filter (\<lambda>r. pos k \<le> cr_offset r) (contents k))
        \<and> same k k' \<and> pos k' = (if rs = [] then pos k else cr_offset (last rs) + 1)
        \<and> patience k' \<le> patience k
        \<and> (rs = [] \<longrightarrow> filter (\<lambda>r. pos k \<le> cr_offset r) (contents k) \<noteq> [] \<longrightarrow> patience k' < patience k)"
begin

definition pending :: "'k \<Rightarrow> consumer_record list" where
  "pending k = filter (\<lambda>r. pos k \<le> cr_offset r) (contents k)"

definition calm :: "'k \<Rightarrow> 'k \<Rightarrow> bool" where
  "calm k k' \<longleftrightarrow> same k k' \<and> pos k' = pos k \<and> patience k' = patience k"

lemma calm_trans: "calm a b \<Longrightarrow> calm b c \<Longrightarrow> calm a c"
  by (auto simp: calm_def same_def)

lemma calm_good: "calm a b \<Longrightarrow> good b"
  by (auto simp: calm_def same_def)

lemma calm_refl: "good a \<Longrightarrow> calm a a"
  by (auto simp: calm_def same_def)

lemma pending_calm: "calm k k' \<Longrightarrow> pending k' = pending k"
  by (auto simp: calm_def same_def pending_def)

lemma execute_calm:
  assumes "good (w_env w)" "plain_stmt s" "\<not> w_query_only w"
    "stmt_effect (op_json ops) (op_ddl ops) s (w_db w) = Inr d"
    "\<And>k. calm (w_env w) k \<Longrightarrow> Q (Ok ()) (w\<lparr>w_env := k, w_db := d\<rparr>)"
  shows "wp (execute ops s) Q w"
proof -
  obtain k where k: "op_verdict ops s (w_env w) = (Runs, k)" "calm (w_env w) k"
    using statement [OF assms(1), of s] by (auto simp: calm_def)
  then show ?thesis using assms(3-5)
    by (simp add: wp_execute) (simp add: wp_def run_plain_stmt [OF assms(2)])
qed

lemma begin_calm:
  "good (w_env w) \<Longrightarrow> w_saved w = None \<Longrightarrow>
   (\<And>k. calm (w_env w) k \<Longrightarrow> Q (Ok ()) (w\<lparr>w_env := k, w_saved := Some (w_db w)\<rparr>)) \<Longrightarrow>
   wp (execute ops BeginImmediate) Q w"
  using statement [of "w_env w" BeginImmediate]
  by (auto simp: wp_execute in_transaction_def calm_def)

lemma commit_calm:
  "good (w_env w) \<Longrightarrow> w_saved w = Some d \<Longrightarrow>
   (\<And>k. calm (w_env w) k \<Longrightarrow> Q (Ok ()) (w\<lparr>w_env := k, w_saved := None\<rparr>)) \<Longrightarrow>
   wp (commit ops) Q w"
  using statement [of "w_env w" Commit]
  by (auto simp: commit_def wp_execute in_transaction_def calm_def end_commit_def)

text \<open>Work inside a transaction that succeeds with the tables \<open>d'\<close>, from the tables \<open>d\<close>.\<close>

definition stays :: "'k world \<Rightarrow> 'k world \<Rightarrow> bool" where
  "stays w w' \<longleftrightarrow> calm (w_env w) (w_env w') \<and> w_saved w' = w_saved w \<and> w_query_only w' = w_query_only w"

lemma stays_trans: "stays a b \<Longrightarrow> stays b c \<Longrightarrow> stays a c"
  by (auto simp: stays_def intro: calm_trans)

definition does :: "('k, unit) act \<Rightarrow> database \<Rightarrow> database \<Rightarrow> bool" where
  "does work d d' \<longleftrightarrow> (\<forall>w. good (w_env w) \<longrightarrow> \<not> w_query_only w \<longrightarrow> w_db w = d \<longrightarrow>
     wp work (\<lambda>r w'. r = Ok () \<and> stays w w' \<and> w_db w' = d') w)"

lemma does_execute:
  "plain_stmt s \<Longrightarrow> stmt_effect (op_json ops) (op_ddl ops) s d = Inr d' \<Longrightarrow> does (execute ops s) d d'"
  unfolding does_def by (auto intro!: execute_calm simp: stays_def)

lemma does_ret: "does (io_ret ()) d d"
  by (auto simp: does_def stays_def calm_refl)

lemma does_log: "does (log_event e) d d"
  by (auto simp: does_def stays_def calm_refl)

lemma does_seq:
  assumes "does m d c" "does n c d'"
  shows "does (io_seq m n) d d'"
  unfolding does_def wp_bind
proof (intro allI impI)
  fix w :: "'k world" assume w: "good (w_env w)" "\<not> w_query_only w" "w_db w = d"
  show "wp m (\<lambda>r v. case r of Ok x \<Rightarrow> wp n (\<lambda>r w'. r = Ok () \<and> stays w w' \<and> w_db w' = d') v
      | Exn e \<Rightarrow> Exn e = Ok () \<and> stays w v \<and> w_db v = d'
      | Running \<Rightarrow> Running = Ok () \<and> stays w v \<and> w_db v = d') w"
  proof (rule wp_mono [OF assms(1) [unfolded does_def, rule_format, OF w]], clarsimp)
    fix v :: "'k world" assume v: "stays w v" "c = w_db v"
    then have "good (w_env v)" "\<not> w_query_only v" using w(2) by (auto simp: stays_def calm_good)
    from assms(2) [unfolded does_def v(2), rule_format, OF this refl]
    show "wp n (\<lambda>r w'. r = Ok () \<and> stays w w' \<and> w_db w' = d') v"
      by (rule wp_mono) (use v(1) in \<open>auto intro: stays_trans\<close>)
  qed
qed

lemma does_replay_record:
  assumes "replayed (op_json ops) tp [r] d = Inr d'"
  shows "does (replay_record ops tp r) d d'"
proof (cases "classify (cr_key r) (cr_value r) (cr_headers r)")
  case (KsqliteRecord mid key body)
  with assms show ?thesis
    by (auto simp: replay_record_def intro!: does_execute split: sum.splits)
qed (use assms in \<open>auto simp: replay_record_def does_log\<close>)

lemma does_replay_records:
  "replayed (op_json ops) tp rs d = Inr d' \<Longrightarrow> does (io_for (replay_record ops tp) rs) d d'"
proof (induction rs arbitrary: d)
  case (Cons r rs)
  from Cons.prems have "replayed (op_json ops) tp ([r] @ rs) d = Inr d'" by simp
  then obtain c where "replayed (op_json ops) tp [r] d = Inr c" "replayed (op_json ops) tp rs c = Inr d'"
    by (simp only: replayed_append split: sum.splits) blast
  with Cons.IH show ?case
    unfolding io_for.simps by (blast intro: does_seq does_replay_record)
qed (simp add: does_ret)

lemma does_batch:
  assumes "replayed (op_json ops) tp rs d = Inr c"
  shows "does (batch_work ops tp rs) d (checkpoint_upsert c tp (cr_offset (last rs)))"
  unfolding batch_work_def
  by (rule does_seq [OF does_replay_records [OF assms] does_execute]) simp_all

section \<open>Transactions of a quiet outside\<close>

definition settled_good :: "'k world \<Rightarrow> bool" where
  "settled_good w \<longleftrightarrow> good (w_env w) \<and> w_saved w = None"

lemma run_calm:
  assumes "does work (w_db w) d'" "settled_good w" "\<not> w_query_only w"
  shows "wp (run_txn ops bt work) (\<lambda>r w'. r = Ok () \<and> stays w w' \<and> w_db w' = d') w"
proof -
  have txn: "wp (attempt_txn ops work) (\<lambda>r w'. r = Ok () \<and> stays v w' \<and> w_db w' = d') v"
    if v: "good (w_env v)" "w_saved v = None" "\<not> w_query_only v" "w_db v = w_db w" for v
    unfolding attempt_txn_def on_error_def
  proof (rule wp_bind_ok)
    show "wp (execute ops BeginImmediate) (\<lambda>r u. r = Ok () \<and> (\<exists>k. calm (w_env v) k
        \<and> u = v\<lparr>w_env := k, w_saved := Some (w_db v)\<rparr>)) v"
      by (rule begin_calm [OF v(1,2)]) auto
  next
    fix u :: "'k world" assume "\<exists>k. calm (w_env v) k \<and> u = v\<lparr>w_env := k, w_saved := Some (w_db v)\<rparr>"
    then have u: "calm (w_env v) (w_env u)" "w_saved u = Some (w_db v)" "w_db u = w_db w"
      "w_query_only u = w_query_only v" using v(4) by auto
    have work: "wp work (\<lambda>r x. r = Ok () \<and> stays u x \<and> w_db x = d') u"
      using assms(1) u v(3) by (simp add: does_def calm_good)
    show "wp (io_catch (io_bind work (\<lambda>x. io_seq (commit ops) (io_ret x)))
        (\<lambda>e. io_seq (rollback ops) (io_raise e))) (\<lambda>r w'. r = Ok () \<and> stays v w' \<and> w_db w' = d') u"
    proof (rule wp_catch_ok, rule wp_bind_ok [OF work])
      fix x :: "'k world" assume x: "stays u x \<and> w_db x = d'"
      show "wp (io_seq (commit ops) (io_ret ())) (\<lambda>r w'. r = Ok () \<and> stays v w' \<and> w_db w' = d') x"
        unfolding wp_bind
        by (rule commit_calm) (use x u v(2) in \<open>auto simp: stays_def calm_good intro: calm_trans\<close>)
    qed
  qed
  show ?thesis unfolding run_txn_def
  proof (rule wp_bind_ok)
    show "wp (ask (op_clock ops)) (\<lambda>r v. r = Ok (fst (op_clock ops (w_env w))) \<and> stays w v \<and> w_db v = w_db w) w"
      using clock [of "w_env w"] assms(2) by (auto simp: settled_good_def stays_def calm_def split: prod.split)
  next
    fix v :: "'k world" assume v: "stays w v \<and> w_db v = w_db w"
    then have "good (w_env v)" "w_saved v = None" "\<not> w_query_only v" "w_db v = w_db w"
      using assms(2,3) by (auto simp: stays_def settled_good_def calm_good)
    note t = txn [OF this]
    show "wp (run_from ops work (fst (op_clock ops (w_env w)) + bt * BUSY_RETRY_DEADLINE_FACTOR) 1)
        (\<lambda>r w'. r = Ok () \<and> stays w w' \<and> w_db w' = d') v"
      by (subst run_from.simps, rule wp_catch_ok, rule wp_mono [OF t])
        (use v in \<open>auto intro: stays_trans\<close>)
  qed
qed

lemma checked_out_calm:
  assumes "settled_good w"
    and body: "\<And>v. settled_good v \<Longrightarrow> \<not> w_query_only v \<Longrightarrow> w_db v = w_db w \<Longrightarrow> calm (w_env w) (w_env v) \<Longrightarrow>
      wp body (\<lambda>r w'. r = Ok x \<and> calm (w_env v) (w_env w') \<and> w_saved w' = None \<and> w_db w' = d') v"
  shows "wp (checked_out ops bt body)
    (\<lambda>r w'. r = Ok x \<and> calm (w_env w) (w_env w') \<and> w_saved w' = None \<and> w_db w' = d') w"
proof -
  have hygiene: "wp (io_bind (io_gets in_transaction) (\<lambda>t. io_when t (rollback ops)))
      (\<lambda>r v'. r = Ok () \<and> calm (w_env w) (w_env v') \<and> w_saved v' = None \<and> w_db v' = w_db w) v"
    if "calm (w_env w) (w_env v)" "committed v = w_db w" for v
    using that statement [of "w_env v" Rollback] calm_good [OF that(1)]
    by (auto simp: rollback_def wp_execute in_transaction_def calm_def same_def committed_def split: option.splits)
  have off: "wp (execute ops (PragmaQueryOnly False))
      (\<lambda>r v'. r = Ok () \<and> calm (w_env v) (w_env v') \<and> w_saved v' = w_saved v \<and> w_db v' = w_db v \<and> \<not> w_query_only v') v"
    if "good (w_env v)" for v
    using statement [OF that, of "PragmaQueryOnly False"] by (auto simp: wp_execute calm_def)
  have acq: "wp (acquire ops bt) (\<lambda>r v. r = Ok () \<and> calm (w_env w) (w_env v) \<and> committed v = w_db w) w"
    using acquire [of "w_env w"] assms(1)
    by (auto simp: acquire_def settled_good_def calm_def committed_def)
  have rel: "wp (release ops) (\<lambda>r u. r = Ok () \<and> calm (w_env w) (w_env u) \<and> w_saved u = None \<and> w_db u = d') v"
    if "calm (w_env w) (w_env v) \<and> w_saved v = None \<and> w_db v = d'" for v
    using that release [of "w_env v"] calm_good [of "w_env w" "w_env v"]
    by (auto simp: release_def calm_def same_def)
  show ?thesis unfolding checked_out_def
  proof (rule wp_catch_ok, rule wp_bind_ok [OF acq], rule wp_finally_ok [OF _ rel], assumption?)
    fix v :: "'k world" assume v: "calm (w_env w) (w_env v) \<and> committed v = w_db w"
    show "wp (io_seq (io_bind (io_gets in_transaction) (\<lambda>t. io_when t (rollback ops)))
        (io_seq (execute ops (PragmaQueryOnly False)) body))
      (\<lambda>r v'. r = Ok x \<and> calm (w_env w) (w_env v') \<and> w_saved v' = None \<and> w_db v' = d') v"
    proof (rule wp_bind_ok [OF hygiene], (use v in blast)+)
      fix u :: "'k world" assume u: "calm (w_env w) (w_env u) \<and> w_saved u = None \<and> w_db u = w_db w"
      show "wp (io_seq (execute ops (PragmaQueryOnly False)) body)
          (\<lambda>r v'. r = Ok x \<and> calm (w_env w) (w_env v') \<and> w_saved v' = None \<and> w_db v' = d') u"
      proof (rule wp_bind_ok [OF off], use u calm_good in blast)
        fix t :: "'k world" assume t: "calm (w_env u) (w_env t) \<and> w_saved t = w_saved u \<and> w_db t = w_db u \<and> \<not> w_query_only t"
        then have c: "calm (w_env w) (w_env t)" using u by (blast intro: calm_trans)
        have "settled_good t" "\<not> w_query_only t" "w_db t = w_db w"
          using t u by (auto simp: settled_good_def calm_good)
        from body [OF this c] show "wp body
            (\<lambda>r v'. r = Ok x \<and> calm (w_env w) (w_env v') \<and> w_saved v' = None \<and> w_db v' = d') t"
          by (rule wp_mono) (use c in \<open>auto intro: calm_trans\<close>)
      qed
    qed
  qed
qed

section \<open>The replay loop of a quiet outside\<close>

lemma txn_calm:
  assumes "does work (w_db w) d'" "settled_good w" "keeps same_memory work"
  shows "wp (checked_out ops bt (run_txn ops bt work)) (\<lambda>r w'. r = Ok () \<and> settled_good w'
    \<and> calm (w_env w) (w_env w') \<and> w_db w' = d' \<and> w_parts w' = w_parts w) w"
proof -
  have "wp (checked_out ops bt (run_txn ops bt work))
      (\<lambda>r w'. r = Ok () \<and> calm (w_env w) (w_env w') \<and> w_saved w' = None \<and> w_db w' = d') w"
  proof (rule checked_out_calm [OF assms(2)])
    fix v :: "'k world"
    assume v: "settled_good v" "\<not> w_query_only v" "w_db v = w_db w"
    have "does work (w_db v) d'" using assms(1) v(3) by simp
    from run_calm [OF this v(1,2)]
    show "wp (run_txn ops bt work)
        (\<lambda>r w'. r = Ok () \<and> calm (w_env v) (w_env w') \<and> w_saved w' = None \<and> w_db w' = d') v"
      by (rule wp_mono) (use v(1) in \<open>auto simp: stays_def settled_good_def\<close>)
  qed
  from wp_conj [OF this keeps_wp [OF keeps_checked_out [OF keeps_run_txn [OF assms(3)]]]]
  show ?thesis by (rule wp_mono) (auto simp: settled_good_def same_memory_def calm_good)
qed

lemma batch_calm:
  assumes "replayed (op_json ops) tp rs (w_db w) = Inr c" "settled_good w"
  shows "wp (materialize_batch ops bt tp rs) (\<lambda>r w'. r = Ok () \<and> settled_good w'
    \<and> calm (w_env w) (w_env w') \<and> w_db w' = checkpoint_upsert c tp (cr_offset (last rs))
    \<and> w_parts w' = record_applied (w_parts w) tp (cr_offset (last rs))) w"
  unfolding materialize_batch_def
  by (rule wp_bind_ok [OF txn_calm [OF does_batch [OF assms(1)] assms(2) keeps_batch_work]])
    (auto simp: settled_good_def)

lemma check_deadline_calm:
  assumes "settled_good w" "limit \<le> deadline"
  shows "wp (check_deadline ops bt tp deadline l v) (\<lambda>r w'. r = Ok (Some v) \<and> settled_good w'
    \<and> calm (w_env w) (w_env w') \<and> w_db w' = w_db w \<and> w_parts w' = w_parts w) w"
  using clock [of "w_env w"] assms
  by (auto simp: check_deadline_def settled_good_def calm_def same_def)

text \<open>Where a fetch of the records \<open>rs\<close> leaves the consumer.\<close>

lemma fetched_pieces:
  assumes good: "good a" and same: "same a k" and split: "pending a = rs @ rest" and rs: "rs \<noteq> []"
    and pos: "pos k = cr_offset (last rs) + 1"
  shows "pending k = rest" "cr_offset (last rs) + 1 = leo a \<longleftrightarrow> rest = []" "cr_offset (last rs) < leo a"
    "log_start k \<le> pos k" "pos k \<le> leo k"
proof -
  let ?o = "cr_offset (last rs)"
  note shape = log_shape [OF good]
  note pieces = sorted_filter_split [of cr_offset "contents a" "pos a" rs rest, OF _ split [unfolded pending_def] rs]
  have k: "leo k = leo a" "contents k = contents a" "log_start k = log_start a" using same by (auto simp: same_def)
  have inside: "x \<in> set (contents a)" if "x \<in> set (rs @ rest)" for x
    using that split by (metis pending_def filter_is_subset subset_iff)
  have last_in: "last rs \<in> set (contents a)" by (rule inside) (simp add: rs)
  show "pending k = rest" using pieces(1) shape pos k(2) by (simp add: pending_def)
  show "?o < leo a" using shape last_in by blast
  show "log_start k \<le> pos k" "pos k \<le> leo k" using shape last_in pos k by force+
  show "?o + 1 = leo a \<longleftrightarrow> rest = []"
  proof (cases "rest = []")
    case True
    then have "last rs = last (filter (\<lambda>r. pos a \<le> cr_offset r) (contents a))"
      "filter (\<lambda>r. pos a \<le> cr_offset r) (contents a) \<noteq> []" using split rs by (simp_all add: pending_def)
    moreover from this(2) have "last (filter (\<lambda>r. pos a \<le> cr_offset r) (contents a)) = last (contents a)"
      using sorted_filter_last [of cr_offset] shape by blast
    ultimately have "last rs = last (contents a)" by simp
    moreover have "contents a \<noteq> []" using last_in by auto
    ultimately show ?thesis using True shape by simp
  next
    case False
    then have "?o < cr_offset (hd rest)" using pieces(2) shape by (meson list.set_sel(1))
    moreover have "hd rest \<in> set (contents a)" by (rule inside) (simp add: False)
    ultimately show ?thesis using shape False by force
  qed
qed

definition after_batch :: "consumer_record list \<Rightarrow> loop_vars \<Rightarrow> loop_vars" where
  "after_batch rs v = v\<lparr>records_replayed := records_replayed v + length rs,
     replayed_after_reset := replayed_after_reset v + length rs,
     position := cr_offset (last rs) + 1, last_applied := Some (cr_offset (last rs))\<rparr>"

lemma take_batch_calm:
  assumes "replayed (op_json ops) tp rs (w_db w) = Inr d" "settled_good w" "limit \<le> deadline"
  shows "wp (take_batch ops bt tp deadline l rs v) (\<lambda>r w'. r = Ok (Some (after_batch rs v))
    \<and> settled_good w' \<and> calm (w_env w) (w_env w') \<and> w_db w' = checkpoint_upsert d tp (cr_offset (last rs))
    \<and> w_parts w' = record_applied (w_parts w) tp (cr_offset (last rs))) w" (is "wp _ ?Q w")
  unfolding take_batch_def Let_def after_batch_def [symmetric]
proof (rule wp_bind_ok [OF batch_calm [OF assms(1,2)]])
  fix u :: "'k world"
  assume u: "settled_good u \<and> calm (w_env w) (w_env u) \<and> w_db u = checkpoint_upsert d tp (cr_offset (last rs))
    \<and> w_parts u = record_applied (w_parts w) tp (cr_offset (last rs))"
  have "wp (check_deadline ops bt tp deadline l (after_batch rs v)) ?Q u"
    by (rule wp_mono [OF check_deadline_calm [OF _ assms(3)]]) (use u in \<open>auto intro: calm_trans\<close>)
  then show "wp (if position (after_batch rs v) \<noteq> l then check_deadline ops bt tp deadline l (after_batch rs v)
      else io_ret (Some (after_batch rs v))) ?Q u"
    using u by simp
qed

text \<open>One iteration: some of the pending records are replayed, or patience is used up.\<close>

definition iteration_done ::
    "topic_partition \<Rightarrow> 'k world \<Rightarrow> loop_vars \<Rightarrow> 'k world \<Rightarrow> loop_vars \<Rightarrow> consumer_record list \<Rightarrow> consumer_record list
     \<Rightarrow> database \<Rightarrow> bool" where
  "iteration_done tp w v w' v' rs rest d \<longleftrightarrow>
     settled_good w' \<and> same (w_env w) (w_env w')
      \<and> pending (w_env w) = rs @ rest \<and> pending (w_env w') = rest
      \<and> log_start (w_env w') \<le> pos (w_env w') \<and> pos (w_env w') \<le> leo (w_env w')
      \<and> length rest + patience (w_env w') < length (pending (w_env w)) + patience (w_env w)
      \<and> (position v' = leo (w_env w') \<longleftrightarrow> rest = []) \<and> reset_occurred v' = reset_occurred v
      \<and> records_replayed v' = records_replayed v + length rs
      \<and> replayed (op_json ops) tp rs (w_db w) = Inr d
      \<and> (if rs = [] then w_db w' = w_db w \<and> w_parts w' = w_parts w
         else cr_offset (last rs) < leo (w_env w) \<and> (rest = [] \<longrightarrow> cr_offset (last rs) + 1 = leo (w_env w))
           \<and> w_db w' = checkpoint_upsert d tp (cr_offset (last rs))
           \<and> w_parts w' = record_applied (w_parts w) tp (cr_offset (last rs)))
      \<and> reset_log_start v' = reset_log_start v
      \<and> replayed_after_reset v' = replayed_after_reset v + length rs"

lemma iteration_calm:
  assumes w: "settled_good w" and lim: "limit \<le> deadline" and size: "0 < cfg_batch_size cfg"
    and pos: "log_start (w_env w) \<le> pos (w_env w)" "pos (w_env w) \<le> leo (w_env w)"
    and pending: "pending (w_env w) \<noteq> []" and "position v \<noteq> leo (w_env w)"
    and replay: "replayed (op_json ops) tp (pending (w_env w)) (w_db w) = Inr d1"
  shows "wp (iteration ops cfg tp ctp deadline c (leo (w_env w)) v)
    (\<lambda>r w'. \<exists>v' rs rest d. r = Ok (Some v') \<and> iteration_done tp w v w' v' rs rest d) w" (is "wp _ ?Q w")
proof -
  have g: "good (w_env w)" "w_saved w = None" using w by (auto simp: settled_good_def)
  obtain m rs j k where fetch: "op_getmany ops ctp (cfg_batch_size cfg) (w_env w) = (Inr m, k)"
    and rs: "rs = (case m ctp of None \<Rightarrow> [] | Some rs \<Rightarrow> rs)" "rs = take j (pending (w_env w))"
    and k: "same (w_env w) k" "pos k = (if rs = [] then pos (w_env w) else cr_offset (last rs) + 1)"
      "patience k \<le> patience (w_env w)" "rs = [] \<Longrightarrow> patience k < patience (w_env w)"
    using getmany [OF g(1) pos size] pending unfolding pending_def by metis
  let ?w = "w\<lparr>w_env := k\<rparr>"
  obtain rest where split: "pending (w_env w) = rs @ rest" using rs(2) by (metis append_take_drop_id)
  have sg: "settled_good ?w" using g(2) k(1) by (simp add: settled_good_def same_def)
  obtain d where d: "replayed (op_json ops) tp rs (w_db w) = Inr d"
    using replay by (auto simp: split replayed_append split: sum.splits)
  have attempt: "wp (io_attempt (call (op_getmany ops ctp (cfg_batch_size cfg)))) (\<lambda>r w'. r = Ok (Inr m) \<and> w' = ?w) w"
    by (simp add: fetch)
  have "wp (case m ctp of None \<Rightarrow> check_deadline ops bt tp deadline (leo (w_env w)) v
        | Some rs \<Rightarrow> if rs = [] then check_deadline ops bt tp deadline (leo (w_env w)) v
            else take_batch ops bt tp deadline (leo (w_env w)) rs v) ?Q ?w" for bt
  proof (cases "rs = []")
    case True
    have "wp (check_deadline ops bt tp deadline (leo (w_env w)) v) ?Q ?w"
    proof (rule wp_mono [OF check_deadline_calm [OF sg lim]], goal_cases)
      case (1 r w')
      then have "iteration_done tp w v w' v rs rest d"
        using k True split pos pending d assms(7) by (auto simp: iteration_done_def pending_def calm_def same_def)
      with 1 show ?case by blast
    qed
    with rs(1) True show ?thesis by (auto split: option.splits)
  next
    case False
    then have at: "pos k = cr_offset (last rs) + 1" using k(2) by simp
    note pieces = fetched_pieces [OF g(1) k(1) split False at]
    have "wp (take_batch ops bt tp deadline (leo (w_env w)) rs v) ?Q ?w"
    proof (rule wp_mono [OF take_batch_calm [OF _ sg lim]], simp add: d, goal_cases)
      case (1 r w')
      then have "iteration_done tp w v w' (after_batch rs v) rs rest d"
        using k(1,3) False split pieces d
        by (cases rs) (auto simp: iteration_done_def after_batch_def pending_def calm_def same_def)
      with 1 show ?case by blast
    qed
    with rs(1) False show ?thesis by (auto split: option.splits)
  qed
  then show ?thesis unfolding iteration_def Let_def
    by (intro wp_bind_ok [OF attempt]) simp
qed

text \<open>The whole loop: everything pending is replayed, whatever the batches.\<close>

definition loop_done ::
    "topic_partition \<Rightarrow> 'k world \<Rightarrow> database \<Rightarrow> loop_vars \<Rightarrow> loop_vars option res \<Rightarrow> 'k world \<Rightarrow> bool" where
  "loop_done tp w d1 v r w' \<longleftrightarrow>
     (\<exists>v'. r = Ok (Some v') \<and> reset_occurred v' = reset_occurred v
        \<and> records_replayed v' = records_replayed v + length (pending (w_env w))
        \<and> reset_log_start v' = reset_log_start v
        \<and> replayed_after_reset v' = replayed_after_reset v + length (pending (w_env w)))
     \<and> settled_good w' \<and> same (w_env w) (w_env w')
     \<and> (if pending (w_env w) = [] then w_db w' = w_db w \<and> w_parts w' = w_parts w
        else w_db w' = checkpoint_upsert d1 tp (leo (w_env w) - 1)
          \<and> checkpoint_of (w_parts w') = checkpoint_of (record_applied (w_parts w) tp (leo (w_env w) - 1))
          \<and> log_end_of (w_parts w') = log_end_of (w_parts w))"

text \<open>An iteration before a loop that is done.\<close>

lemma loop_done_step:
  assumes it: "iteration_done tp w v u v1 rs rest d"
    and rest: "replayed (op_json ops) tp rest d = Inr d1"
    and later: "loop_done tp u (if rs = [] then d1 else checkpoint_upsert d1 tp (cr_offset (last rs))) v1 r' w'"
  shows "loop_done tp w d1 v r' w'"
proof (cases "rs = []")
  case True
  with it later show ?thesis by (auto simp: loop_done_def iteration_done_def same_def)
next
  case rs: False
  let ?o = "cr_offset (last rs)" and ?l = "leo (w_env w)"
  have o': "?o < ?l" "rest = [] \<Longrightarrow> ?o + 1 = ?l" "w_db u = checkpoint_upsert d tp ?o"
    "w_parts u = record_applied (w_parts w) tp ?o" using it rs by (auto simp: iteration_done_def)
  show ?thesis
  proof (cases "rest = []")
    case True
    with it later rs o' rest show ?thesis
      by (auto simp: loop_done_def iteration_done_def same_def eq_diff_eq [symmetric])
  next
    case False
    have "checkpoint_upsert (checkpoint_upsert d1 tp ?o) tp (?l - 1) = checkpoint_upsert d1 tp (?l - 1)"
      using o'(1) by (simp add: upsert_twice max_def)
    moreover have "checkpoint_of (record_applied (record_applied (w_parts w) tp ?o) tp (?l - 1))
        = checkpoint_of (record_applied (w_parts w) tp (?l - 1))"
      using o'(1) by (simp only: memory.advance_twice) (simp add: max_def)
    ultimately show ?thesis using it later rs o' False
      by (auto simp: loop_done_def iteration_done_def same_def simp del: checkpoint_of_record)
  qed
qed

lemma loop_calm:
  assumes "settled_good w" "limit \<le> deadline" "0 < cfg_batch_size cfg"
    "log_start (w_env w) \<le> pos (w_env w)" "pos (w_env w) \<le> leo (w_env w)"
    "position v = leo (w_env w) \<longleftrightarrow> pending (w_env w) = []"
    "replayed (op_json ops) tp (pending (w_env w)) (w_db w) = Inr d1"
    "length (pending (w_env w)) + patience (w_env w) \<le> fuel"
  shows "wp (replay_loop fuel ops cfg tp ctp deadline c (leo (w_env w)) v) (loop_done tp w d1 v) w"
  using assms
proof (induction fuel arbitrary: v w d1)
  case 0
  then show ?case
    by (subst replay_loop.simps) (auto simp: loop_done_def same_def settled_good_def)
next
  case (Suc n)
  let ?l = "leo (w_env w)"
  show ?case
  proof (cases "pending (w_env w) = []")
    case True
    with Suc.prems show ?thesis
      by (subst replay_loop.simps) (auto simp: loop_done_def same_def settled_good_def)
  next
    case False
    have p: "position v \<noteq> ?l" using Suc.prems(6) False by simp
    have "wp (io_bind (iteration ops cfg tp ctp deadline c ?l v) (\<lambda>next_vars. case next_vars of
        None \<Rightarrow> io_ret None
      | Some v' \<Rightarrow> replay_loop n ops cfg tp ctp deadline c ?l v')) (loop_done tp w d1 v) w"
      unfolding wp_bind
    proof (rule wp_mono [OF iteration_calm [OF Suc.prems(1-5) False p Suc.prems(7)]], elim exE conjE, goal_cases)
      case (1 r u v1 rs rest d)
      note it = 1(2) [unfolded iteration_done_def]
      have l: "leo (w_env u) = ?l" using it by (simp add: same_def)
      have rest: "replayed (op_json ops) tp rest d = Inr d1"
        using Suc.prems(7) it by (simp add: replayed_append)
      let ?d = "if rs = [] then d1 else checkpoint_upsert d1 tp (cr_offset (last rs))"
      have db: "replayed (op_json ops) tp (pending (w_env u)) (w_db u) = Inr ?d"
        using it rest by (auto split: if_splits intro: replayed_after_upsert)
      have "wp (replay_loop n ops cfg tp ctp deadline c (leo (w_env u)) v1) (loop_done tp u ?d v1) u"
        by (rule Suc.IH) (use Suc.prems it l db in auto)
      then have "wp (replay_loop n ops cfg tp ctp deadline c ?l v1) (loop_done tp w d1 v) u"
        unfolding l by (rule wp_mono) (rule loop_done_step [OF 1(2) rest])
      then show ?case using 1(1) by simp
    qed
    then show ?thesis using p by (subst replay_loop.simps) simp
  qed
qed

section \<open>Rehydrating one partition\<close>

definition same_time :: "'k \<Rightarrow> 'k \<Rightarrow> bool" where
  "same_time k k' \<longleftrightarrow> same k k' \<and> patience k' = patience k"

lemma same_time_trans: "same_time a b \<Longrightarrow> same_time b c \<Longrightarrow> same_time a c"
  by (auto simp: same_time_def same_def)

lemma calm_same_time: "calm a b \<Longrightarrow> same_time a b"
  by (simp add: calm_def same_time_def)

lemma same_time_good: "same_time a b \<Longrightarrow> good b"
  by (simp add: same_time_def same_def)

lemma read_checkpoint_calm:
  assumes "settled_good w"
  shows "wp (read_checkpoint ops bt tp) (\<lambda>r w'. r = Ok (db_checkpoints (w_db w) tp) \<and> settled_good w'
    \<and> same_time (w_env w) (w_env w') \<and> w_db w' = w_db w \<and> w_parts w' = w_parts w) w"
proof -
  let ?m = "checked_out ops bt (fetch ops (SelectCheckpoint tp) (\<lambda>d. db_checkpoints d tp))"
  have "wp ?m (\<lambda>r w'. r = Ok (db_checkpoints (w_db w) tp) \<and> calm (w_env w) (w_env w')
      \<and> w_saved w' = None \<and> w_db w' = w_db w) w"
  proof (rule checked_out_calm [OF assms])
    fix v :: "'k world"
    assume v: "settled_good v" "\<not> w_query_only v" "w_db v = w_db w"
    show "wp (fetch ops (SelectCheckpoint tp) (\<lambda>d. db_checkpoints d tp))
        (\<lambda>r w'. r = Ok (db_checkpoints (w_db w) tp) \<and> calm (w_env v) (w_env w')
          \<and> w_saved w' = None \<and> w_db w' = w_db w) v"
      unfolding fetch_def wp_bind
      by (rule execute_calm [where d = "w_db v"]) (use v in \<open>auto simp: settled_good_def\<close>)
  qed
  from wp_conj [OF this keeps_wp [OF keeps_checked_out [OF keeps_fetch]]]
  have "wp ?m (\<lambda>r w'. r = Ok (db_checkpoints (w_db w) tp) \<and> settled_good w'
      \<and> same_time (w_env w) (w_env w') \<and> w_db w' = w_db w \<and> w_parts w' = w_parts w) w"
    by (rule wp_mono) (auto simp: settled_good_def same_memory_def calm_good calm_same_time)
  then show ?thesis unfolding read_checkpoint_def by (rule wp_catch_ok)
qed

lemma get_consumer_calm:
  assumes "settled_good w"
  shows "wp (get_consumer ops) (\<lambda>r w'. r = Ok () \<and> settled_good w' \<and> same_time (w_env w) (w_env w')
    \<and> w_db w' = w_db w \<and> w_parts w' = w_parts w) w"
proof -
  have g: "good (w_env w)" "w_saved w = None" using assms by (auto simp: settled_good_def)
  obtain k where k: "op_new_consumer ops (w_env w) = (Inr (), k)" "same_time (w_env w) k"
    using consumer(1) [OF g(1)] by (auto simp: same_time_def)
  obtain k' where k': "op_consumer_start ops k = (Inr (), k')" "same_time k k'"
    using consumer(2) [OF same_time_good [OF k(2)]] by (auto simp: same_time_def)
  show ?thesis
    using g k(1) k'(1) same_time_trans [OF k(2) k'(2)] same_time_good [OF k'(2)]
    by (auto simp: get_consumer_def on_error_def settled_good_def same_time_def same_def)
qed

lemma end_offset_calm:
  assumes "settled_good w"
  shows "wp (end_offset ops ctp) (\<lambda>r w'. r = Ok (leo (w_env w)) \<and> settled_good w'
    \<and> same_time (w_env w) (w_env w') \<and> w_db w' = w_db w \<and> w_parts w' = w_parts w) w"
  using end_offsets [of "w_env w"] assms
  by (auto simp: end_offset_def settled_good_def same_time_def same_def)

definition first_position :: "int option \<Rightarrow> int" where
  "first_position c = (case c of None \<Rightarrow> 0 | Some n \<Rightarrow> n + 1)"

lemma seek_start_calm:
  assumes "settled_good w"
  shows "wp (seek_start ops ctp c) (\<lambda>r w'.
      r = Ok \<lparr>position = first_position c, records_replayed = 0, last_applied = c,
              reset_occurred = False, reset_log_start = 0, replayed_after_reset = 0\<rparr>
    \<and> settled_good w' \<and> same_time (w_env w) (w_env w')
    \<and> pos (w_env w') = (case c of None \<Rightarrow> log_start (w_env w) | Some n \<Rightarrow> n + 1)
    \<and> w_db w' = w_db w \<and> w_parts w' = w_parts w) w"
proof -
  have g: "good (w_env w)" "w_saved w = None" using assms by (auto simp: settled_good_def)
  show ?thesis
  proof (cases c)
    case None
    obtain k where "op_seek_to_beginning ops ctp (w_env w) = (Inr (), k)" "same_time (w_env w) k"
      "pos k = log_start (w_env w)"
      using seek_to_beginning [OF g(1)] by (auto simp: same_time_def)
    with g None show ?thesis
      by (simp add: seek_start_def settled_good_def first_position_def same_time_good Let_def)
  next
    case (Some n)
    obtain k where "op_seek ops ctp (n + 1) (w_env w) = (Inr (), k)" "same_time (w_env w) k" "pos k = n + 1"
      using seek [where start = "n + 1", OF g(1)] by (auto simp: same_time_def)
    with g Some show ?thesis
      by (simp add: seek_start_def settled_good_def first_position_def same_time_good Let_def)
  qed
qed

lemma reveal_calm:
  assumes "settled_good w"
  shows "wp (reveal ops bt tp) (\<lambda>r w'. r = Ok () \<and> settled_good w' \<and> calm (w_env w) (w_env w')
    \<and> w_db w' = owned_insert (w_db w) tp \<and> w_parts w' = w_parts w) w"
  unfolding reveal_def execute_in_txn_def
  by (rule txn_calm [OF does_execute assms keeps_execute]) simp_all

lemma wp_at: "wp n Q u \<Longrightarrow> v = u \<Longrightarrow> wp n Q v"
  by simp

text \<open>The records a replay from the checkpoint \<open>c\<close> has to apply.\<close>

definition to_replay :: "int option \<Rightarrow> 'k \<Rightarrow> consumer_record list" where
  "to_replay c k = unapplied c (contents k)"

text \<open>The variables the loop starts with, where the consumer then stands, and the state machine.\<close>

definition first_vars :: "int option \<Rightarrow> loop_vars" where
  "first_vars c = \<lparr>position = first_position c, records_replayed = 0, last_applied = c,
     reset_occurred = False, reset_log_start = 0, replayed_after_reset = 0\<rparr>"

definition first_pos :: "int option \<Rightarrow> 'k \<Rightarrow> int" where
  "first_pos c k = (case c of None \<Rightarrow> log_start k | Some n \<Rightarrow> n + 1)"

definition restoring :: "topic_partition \<Rightarrow> 'k world \<Rightarrow> machine" where
  "restoring tp w = mark_restoring (record_log_end (w_parts w) tp (leo (w_env w))) tp"

definition at_loop :: "topic_partition \<Rightarrow> int option \<Rightarrow> 'k world \<Rightarrow> 'k world \<Rightarrow> bool" where
  "at_loop tp c w u \<longleftrightarrow> settled_good u \<and> same_time (w_env w) (w_env u) \<and> w_db u = w_db w
     \<and> w_parts u = restoring tp w \<and> pos (w_env u) = first_pos c (w_env w)"

lemma restoring_memory:
  "checkpoint_of (restoring tp w) = checkpoint_of (w_parts w)"
  "log_end_of (restoring tp w) tp = Some (leo (w_env w))"
  by (simp_all add: restoring_def)

text \<open>Up to the loop.\<close>

lemma replay_prefix_calm:
  assumes w: "settled_good w"
    and loop: "\<And>u. at_loop tp c w u \<Longrightarrow>
      wp (replay_loop fuel ops cfg tp ctp deadline c (leo (w_env w)) (first_vars c)) P u"
    and rest: "\<And>r u. P r u \<Longrightarrow> (case r of
        Ok None \<Rightarrow> Q (Ok ()) u
      | Ok (Some v) \<Rightarrow> wp (finish_rehydrate ops (cfg_busy_timeout cfg) tp (leo (w_env w)) v) Q u
      | Exn e \<Rightarrow> Q (Exn e) u
      | Running \<Rightarrow> Q Running u)"
  shows "wp (replay_changelog fuel ops cfg tp ctp deadline c (leo (w_env w))) Q w"
proof -
  let ?k = "w_env w"
  have g: "good ?k" "w_saved w = None" using w by (auto simp: settled_good_def)
  define S where "S u \<longleftrightarrow> settled_good u \<and> same_time ?k (w_env u) \<and> w_db u = w_db w
      \<and> w_parts u = restoring tp w" for u :: "'k world"
  have assign: "wp (call (op_assign ops ctp)) (\<lambda>r u. r = Ok () \<and> S u) v" if v: "S v" for v
  proof -
    obtain k where "op_assign ops ctp (w_env v) = (Inr (), k)" "same_time (w_env v) k"
      using consumer(3) [of "w_env v"] v by (auto simp: S_def settled_good_def same_time_def)
    with v show ?thesis by (auto simp: S_def settled_good_def intro: same_time_trans same_time_good)
  qed
  have seek': "wp (seek_start ops ctp c) (\<lambda>r u. r = Ok (first_vars c) \<and> at_loop tp c w u) v" if v: "S v" for v
  proof -
    have l: "log_start (w_env v) = log_start ?k" and sg: "settled_good v"
      using v by (auto simp: S_def same_time_def same_def)
    show ?thesis
      by (rule wp_mono [OF seek_start_calm [OF sg]])
        (use v l in \<open>auto simp: S_def at_loop_def first_vars_def first_pos_def intro: same_time_trans split: option.split\<close>)
  qed
  let ?w = "w\<lparr>w_parts := restoring tp w, w_log := w_log w @ [RehydrateStart tp c (leo ?k)]\<rparr>"
  have S0: "S ?w"
    using g by (auto simp: S_def settled_good_def same_time_def same_def)
  have run: "wp (io_seq (call (op_assign ops ctp)) (io_bind (seek_start ops ctp c) (\<lambda>v0.
      io_bind (replay_loop fuel ops cfg tp ctp deadline c (leo ?k) v0) (\<lambda>outcome. case outcome of
         None \<Rightarrow> io_ret () | Some v \<Rightarrow> finish_rehydrate ops (cfg_busy_timeout cfg) tp (leo ?k) v)))) Q ?w"
  proof (rule wp_bind_ok [OF assign [OF S0]], rule wp_bind_ok [OF seek'], assumption, goal_cases)
    case (1 u u')
    show ?case unfolding wp_bind
    proof (rule wp_mono [OF loop [OF 1(2)]], goal_cases)
      case (1 r x)
      from rest [OF this] show ?case by (auto split: res.splits option.splits)
    qed
  qed
  then show ?thesis
    unfolding replay_changelog_def wp_seq_memory by (rule wp_at) (simp add: restoring_def)
qed

text \<open>The records left past a checkpoint the log reaches, and the loop over them.\<close>

definition reaches :: "int option \<Rightarrow> 'k \<Rightarrow> bool" where
  "reaches c k \<longleftrightarrow> (case c of None \<Rightarrow> contents k \<noteq> [] \<or> leo k = 0 | Some n \<Rightarrow> log_start k \<le> n + 1 \<and> n + 1 \<le> leo k)"

lemma first_pos_reached:
  assumes "good k" "reaches c k"
  shows "log_start k \<le> first_pos c k" "first_pos c k \<le> leo k"
    "to_replay c k = filter (\<lambda>r. first_pos c k \<le> cr_offset r) (contents k)"
    "first_position c = leo k \<longleftrightarrow> to_replay c k = []"
proof -
  note shape = log_shape [OF assms(1)]
  show "log_start k \<le> first_pos c k" "first_pos c k \<le> leo k"
    using assms(2) shape by (auto simp: reaches_def first_pos_def split: option.splits)
  show "to_replay c k = filter (\<lambda>r. first_pos c k \<le> cr_offset r) (contents k)"
    using shape by (auto simp: to_replay_def unapplied_def first_pos_def intro!: filter_cong filter_True [symmetric]
        split: option.split)
  show "first_position c = leo k \<longleftrightarrow> to_replay c k = []"
  proof (cases "contents k = []")
    case True
    with assms(2) shape show ?thesis
      by (auto simp: reaches_def first_position_def to_replay_def unapplied_def split: option.splits)
  next
    case False
    then have "last (contents k) \<in> set (contents k)" "cr_offset (last (contents k)) + 1 = leo k"
      using shape by auto
    note last = this
    have "log_start k \<le> cr_offset (last (contents k))" using shape last(1) by blast
    then have "0 < leo k" using shape last(2) by linarith
    with False last shape assms(2) [unfolded reaches_def] show ?thesis
    proof (cases c)
      case (Some n)
      with last assms(2) [unfolded reaches_def] shape show ?thesis
        by (force simp: first_position_def to_replay_def unapplied_def filter_empty_conv)
    qed (simp add: first_position_def to_replay_def unapplied_def)
  qed
qed

definition loop_over ::
    "topic_partition \<Rightarrow> int option \<Rightarrow> 'k world \<Rightarrow> database \<Rightarrow> loop_vars option res \<Rightarrow> 'k world \<Rightarrow> bool" where
  "loop_over tp c w d1 r u \<longleftrightarrow> (\<exists>v. r = Ok (Some v) \<and> \<not> reset_occurred v \<and> settled_good u
     \<and> (if to_replay c (w_env w) = [] then w_db u = w_db w \<and> w_parts u = restoring tp w
        else w_db u = checkpoint_upsert d1 tp (leo (w_env w) - 1)
          \<and> checkpoint_of (w_parts u) = checkpoint_of (record_applied (restoring tp w) tp (leo (w_env w) - 1))
          \<and> log_end_of (w_parts u) = log_end_of (restoring tp w)))"

lemma loop_over_calm:
  assumes "limit \<le> deadline" "0 < cfg_batch_size cfg" "good (w_env w)" "reaches c (w_env w)"
    and "replayed (op_json ops) tp (to_replay c (w_env w)) (w_db w) = Inr d1"
    and "length (to_replay c (w_env w)) + patience (w_env w) \<le> fuel"
    and u: "at_loop tp c w u"
  shows "wp (replay_loop fuel ops cfg tp ctp deadline c (leo (w_env w)) (first_vars c)) (loop_over tp c w d1) u"
proof -
  note reached = first_pos_reached [OF assms(3,4)]
  have e: "leo (w_env u) = leo (w_env w)" "settled_good u" "w_db u = w_db w" "w_parts u = restoring tp w"
      "log_start (w_env u) = log_start (w_env w)" "patience (w_env u) = patience (w_env w)"
      "pos (w_env u) = first_pos c (w_env w)" "pending (w_env u) = to_replay c (w_env w)"
    using u reached(3) by (auto simp: at_loop_def same_time_def same_def pending_def)
  have "wp (replay_loop fuel ops cfg tp ctp deadline c (leo (w_env u)) (first_vars c)) (loop_done tp u d1 (first_vars c)) u"
    by (rule loop_calm [OF e(2) assms(1,2)]) (use e reached assms(5,6) in \<open>auto simp: first_vars_def\<close>)
  then show ?thesis unfolding e(1)
    by (rule wp_mono) (auto simp: loop_done_def loop_over_def e first_vars_def split: if_splits)
qed

lemma lag_zero:
  assumes "checkpoint_of p tp = c" "log_end_of p tp = Some n" "first_position c = n"
  shows "Option.bind (partition_states (mark_ready p tp) tp) ps_lag = Some 0"
proof -
  obtain e where "p tp = Some e" "e_log_end_offset e = Some n"
    using assms(2) by (cases "p tp") (auto simp: log_end_of_def)
  with assms(1,3) show ?thesis
    by (auto simp: partition_states_def snapshot_of_def lag_of_def mark_ready_def with_entry_def
        entry_of_def checkpoint_of_def first_position_def split: option.splits)
qed

lemma finish_calm:
  assumes "\<not> reset_occurred v" "settled_good u"
  shows "wp (finish_rehydrate ops bt tp l v) (\<lambda>r w'. r = Ok () \<and> settled_good w'
    \<and> w_db w' = owned_insert (w_db u) tp \<and> w_parts w' = mark_ready (w_parts u) tp) u"
  using assms reveal_calm [of "u\<lparr>w_parts := mark_ready (w_parts u) tp\<rparr>" bt tp]
  by (auto simp: finish_rehydrate_def settled_good_def elim!: wp_mono)

text \<open>From the seek on, for a partition whose rows up to the checkpoint are in place.\<close>

lemma replay_changelog_calm:
  assumes w: "settled_good w" and lim: "limit \<le> deadline" and size: "0 < cfg_batch_size cfg"
    and reach: "case c of
        None \<Rightarrow> contents (w_env w) \<noteq> [] \<or> leo (w_env w) = 0
      | Some n \<Rightarrow> log_start (w_env w) \<le> n + 1 \<and> n + 1 \<le> leo (w_env w)"
    and replay: "replayed (op_json ops) tp (to_replay c (w_env w)) (w_db w) = Inr d1"
    and fuel: "length (to_replay c (w_env w)) + patience (w_env w) \<le> fuel"
    and live: "checkpoint_of (w_parts w) tp = c"
  shows "wp (replay_changelog fuel ops cfg tp ctp deadline c (leo (w_env w))) (\<lambda>r w'. r = Ok ()
    \<and> settled_good w'
    \<and> w_db w' = owned_insert (if to_replay c (w_env w) = [] then w_db w
         else checkpoint_upsert d1 tp (leo (w_env w) - 1)) tp
    \<and> status_of (w_parts w') tp = Some READY
    \<and> Option.bind (partition_states (w_parts w') tp) ps_lag = Some 0) w" (is "wp _ ?Q w")
proof -
  let ?k = "w_env w"
  have good: "good ?k" and reached: "reaches c ?k"
    using w reach by (simp_all add: settled_good_def reaches_def)
  note caught_up = first_pos_reached(4) [OF good reached]
  have start: "checkpoint_of (restoring tp w) tp = c" "log_end_of (restoring tp w) tp = Some (leo ?k)"
    using live by (simp_all add: restoring_memory)
  have front: "checkpoint_of (record_applied (restoring tp w) tp (leo ?k - 1)) tp = Some (leo ?k - 1)"
    using start(1) reach by (auto simp: advanced_def split: option.splits)
  have last: "wp (finish_rehydrate ops (cfg_busy_timeout cfg) tp (leo ?k) v) ?Q u"
    if u: "loop_over tp c w d1 (Ok (Some v)) u" for v u
  proof -
    have f: "\<not> reset_occurred v" "settled_good u" using u by (auto simp: loop_over_def)
    have "checkpoint_of (w_parts u) tp = (if to_replay c ?k = [] then c else Some (leo ?k - 1))"
        "log_end_of (w_parts u) tp = Some (leo ?k)"
      using u front start by (auto simp: loop_over_def split: if_splits)
    then have "Option.bind (partition_states (mark_ready (w_parts u) tp) tp) ps_lag = Some 0"
      by (rule lag_zero) (use caught_up in \<open>simp add: first_position_def\<close>)
    then show ?thesis
      by (intro wp_mono [OF finish_calm [OF f]]) (use u in \<open>auto simp: loop_over_def split: if_splits\<close>)
  qed
  show ?thesis
    by (rule replay_prefix_calm [OF w loop_over_calm [OF lim size good reached replay fuel]])
      (use last in \<open>auto simp: loop_over_def\<close>)
qed

text \<open>Up to the replay, for a partition the store has no state of yet.\<close>

lemma rehydrate_prefix_calm:
  assumes w: "settled_good w" and name: "ctp = \<lparr>tp_topic = name, tp_partition = 0\<rparr>"
    and c: "db_checkpoints (w_db w) tp = c" and fresh: "w_parts w tp = None"
    and rest: "\<And>v. settled_good v \<Longrightarrow> same_time (w_env w) (w_env v) \<Longrightarrow> w_db v = w_db w \<Longrightarrow>
      checkpoint_of (w_parts v) tp = c \<Longrightarrow>
      wp (replay_changelog fuel ops cfg tp ctp deadline c (leo (w_env v))) Q v"
  shows "wp (rehydrate_one fuel ops cfg tp name deadline) Q w"
proof -
  define like where "like u \<longleftrightarrow> settled_good u \<and> same_time (w_env w) (w_env u) \<and> w_db u = w_db w"
    for u :: "'k world"
  define m where "m = (case c of None \<Rightarrow> w_parts w | Some n \<Rightarrow> record_applied (w_parts w) tp n)"
  have live: "checkpoint_of m tp = c"
    using fresh by (auto simp: m_def checkpoint_of_def record_applied_def with_entry_def entry_of_def
        fresh_entry_def split: option.split)
  have seed: "wp (case c of None \<Rightarrow> io_ret () | Some n \<Rightarrow> on_parts (\<lambda>m. record_applied m tp n))
      (\<lambda>r u. r = Ok () \<and> like u \<and> w_parts u = m) v" if "like v" "w_parts v = w_parts w" for v
    using that by (cases c) (auto simp: m_def like_def settled_good_def)
  have get: "wp (get_consumer ops) (\<lambda>r u. r = Ok () \<and> like u \<and> w_parts u = m) v"
    if "like v \<and> w_parts v = m" for v
    by (rule wp_mono [OF get_consumer_calm]) (use that in \<open>auto simp: like_def intro: same_time_trans\<close>)
  have leo: "wp (end_offset ops ctp) (\<lambda>r u. r = Ok (leo (w_env w)) \<and> like u \<and> w_parts u = m) v"
    if "like v \<and> w_parts v = m" for v
    by (rule wp_mono [OF end_offset_calm])
      (use that in \<open>auto simp: like_def same_time_def same_def intro: same_time_trans\<close>)
  have rest': "wp (replay_changelog fuel ops cfg tp ctp deadline c (leo (w_env w))) Q v"
    if v: "like v \<and> w_parts v = m" for v
  proof -
    have "leo (w_env v) = leo (w_env w)" using v by (auto simp: like_def same_time_def same_def)
    with rest [of v] v live show ?thesis by (auto simp: like_def)
  qed
  have check: "wp (read_checkpoint ops (cfg_busy_timeout cfg) tp)
      (\<lambda>r u. r = Ok c \<and> like u \<and> w_parts u = w_parts w) w"
    by (rule wp_mono [OF read_checkpoint_calm [OF w]]) (auto simp: like_def c)
  show ?thesis
    unfolding rehydrate_one_def Let_def name [symmetric]
    by (rule wp_bind_ok [OF check], rule wp_bind_ok [OF seed], blast, blast,
        rule wp_bind_ok [OF get], assumption, rule wp_bind_ok [OF leo], assumption, rule rest')
qed

text \<open>The whole of \<^verbatim>\<open>_rehydrate_one\<close> for a partition the store has no state of yet.\<close>

lemma rehydrate_calm:
  assumes w: "settled_good w" and lim: "limit \<le> deadline" and size: "0 < cfg_batch_size cfg"
    and name: "ctp = \<lparr>tp_topic = name, tp_partition = 0\<rparr>"
    and c: "db_checkpoints (w_db w) tp = c" and fresh: "w_parts w tp = None"
    and reach: "case c of
        None \<Rightarrow> contents (w_env w) \<noteq> [] \<or> leo (w_env w) = 0
      | Some n \<Rightarrow> log_start (w_env w) \<le> n + 1 \<and> n + 1 \<le> leo (w_env w)"
    and replay: "replayed (op_json ops) tp (to_replay c (w_env w)) (w_db w) = Inr d1"
    and fuel: "length (to_replay c (w_env w)) + patience (w_env w) \<le> fuel"
  shows "wp (rehydrate_one fuel ops cfg tp name deadline) (\<lambda>r w'. r = Ok ()
    \<and> settled_good w'
    \<and> w_db w' = owned_insert (if to_replay c (w_env w) = [] then w_db w
         else checkpoint_upsert d1 tp (leo (w_env w) - 1)) tp
    \<and> status_of (w_parts w') tp = Some READY
    \<and> Option.bind (partition_states (w_parts w') tp) ps_lag = Some 0) w"
proof (rule rehydrate_prefix_calm [OF w name c fresh], goal_cases)
  case v: (1 v)
  have e: "contents (w_env v) = contents (w_env w)" "log_start (w_env v) = log_start (w_env w)"
    "leo (w_env v) = leo (w_env w)" "patience (w_env v) = patience (w_env w)"
    using v by (auto simp: same_time_def same_def)
  have "to_replay c (w_env v) = to_replay c (w_env w)" unfolding to_replay_def e(1) by (rule refl)
  note e = e this
  show ?case unfolding e(3)
    by (rule replay_changelog_calm [OF v(1) lim size, of c tp d1 fuel, unfolded e v(3)])
      (use reach replay fuel v(4) in auto)
qed

end

end
