(* ===== verification/Replay_Correctness.thy ===== *)
theory Replay_Correctness imports
  Replay_Contract
begin

text \<open>
  The in-memory broker of the tests is a quiet outside, and what an assignment then leaves
  in the tables.
\<close>

section \<open>The broker of the tests\<close>

definition calm_fake :: "topic_partition \<Rightarrow> rat \<Rightarrow> fake \<Rightarrow> bool" where
  "calm_fake ctp limit k \<longleftrightarrow>
     fk_verdicts k = [] \<and> fk_fail_at_call k = None \<and> fk_clock k < limit
     \<and> 0 \<le> kafka_log_start k ctp \<and> kafka_log_start k ctp \<le> kafka_log_end k ctp
     \<and> sorted_wrt (<) (map cr_offset (kafka_records k ctp))
     \<and> (\<forall>r\<in>set (kafka_records k ctp). kafka_log_start k ctp \<le> cr_offset r \<and> cr_offset r < kafka_log_end k ctp)
     \<and> (if kafka_records k ctp = [] then kafka_log_start k ctp = kafka_log_end k ctp
        else cr_offset (last (kafka_records k ctp)) + 1 = kafka_log_end k ctp)"

definition fake_patience :: "fake \<Rightarrow> nat" where
  "fake_patience k = (if fk_spurious_empty k then 1 else 0)"

lemma fake_updates [simp]:
  "kafka_records (k\<lparr>fk_positions := a\<rparr>) = kafka_records k"
  "kafka_records (k\<lparr>fk_statements := b\<rparr>) = kafka_records k"
  "kafka_records (k\<lparr>fk_getmany_calls := c\<rparr>) = kafka_records k"
  "kafka_records (k\<lparr>fk_spurious_empty := e\<rparr>) = kafka_records k"
  "kafka_log_start (k\<lparr>fk_positions := a\<rparr>) = kafka_log_start k"
  "kafka_log_start (k\<lparr>fk_statements := b\<rparr>) = kafka_log_start k"
  "kafka_log_start (k\<lparr>fk_getmany_calls := c\<rparr>) = kafka_log_start k"
  "kafka_log_start (k\<lparr>fk_spurious_empty := e\<rparr>) = kafka_log_start k"
  "kafka_log_end (k\<lparr>fk_positions := a\<rparr>) = kafka_log_end k"
  "kafka_log_end (k\<lparr>fk_statements := b\<rparr>) = kafka_log_end k"
  "kafka_log_end (k\<lparr>fk_getmany_calls := c\<rparr>) = kafka_log_end k"
  "kafka_log_end (k\<lparr>fk_spurious_empty := e\<rparr>) = kafka_log_end k"
  by (simp_all add: kafka_records_def kafka_log_start_def kafka_log_end_def fun_eq_iff)

lemma fake_getmany_quiet:
  assumes "fk_fail_at_call k = None"
    "kafka_log_start k tp \<le> fake_position k tp" "fake_position k tp \<le> kafka_log_end k tp"
  shows "fake_getmany tp n k =
    (let k' = k\<lparr>fk_getmany_calls := fk_getmany_calls k + 1\<rparr>;
         rs = take n (filter (\<lambda>r. fake_position k tp \<le> cr_offset r) (kafka_records k tp)) in
     if fk_spurious_empty k then (Inr Map.empty, k'\<lparr>fk_spurious_empty := False\<rparr>)
     else if rs = [] then (Inr Map.empty, k')
     else (Inr [tp \<mapsto> rs], k'\<lparr>fk_positions := (fk_positions k)(tp \<mapsto> cr_offset (last rs) + 1)\<rparr>))"
  using assms by (simp add: fake_getmany_def fake_fetch_def fake_position_def Let_def)

definition fake_same :: "topic_partition \<Rightarrow> rat \<Rightarrow> fake \<Rightarrow> fake \<Rightarrow> bool" where
  "fake_same ctp limit k k' \<longleftrightarrow> calm_fake ctp limit k' \<and> kafka_records k' ctp = kafka_records k ctp
     \<and> kafka_log_start k' ctp = kafka_log_start k ctp \<and> kafka_log_end k' ctp = kafka_log_end k ctp"

lemma fake_same_updates [simp]:
  "fake_same ctp limit k (u\<lparr>fk_positions := a\<rparr>) = fake_same ctp limit k u"
  "fake_same ctp limit k (u\<lparr>fk_statements := b\<rparr>) = fake_same ctp limit k u"
  "fake_same ctp limit k (u\<lparr>fk_getmany_calls := c\<rparr>) = fake_same ctp limit k u"
  "fake_same ctp limit k (u\<lparr>fk_spurious_empty := e\<rparr>) = fake_same ctp limit k u"
  by (simp_all add: fake_same_def calm_fake_def)

lemma fake_same_refl: "calm_fake ctp limit k \<Longrightarrow> fake_same ctp limit k k"
  by (simp add: fake_same_def)

lemma calm_clock: "calm_fake ctp limit k \<Longrightarrow> fk_clock k < limit"
  by (simp add: calm_fake_def)

lemma calm_verdicts: "calm_fake ctp limit k \<Longrightarrow> fk_verdicts k = []"
  by (simp add: calm_fake_def)

lemma fake_readings [simp]:
  "fake_position (k\<lparr>fk_positions := (fk_positions k)(tp \<mapsto> n)\<rparr>) tp = n"
  "fake_position (k\<lparr>fk_statements := b\<rparr>) = fake_position k"
  "fake_position (k\<lparr>fk_getmany_calls := c\<rparr>) = fake_position k"
  "fake_position (k\<lparr>fk_spurious_empty := e\<rparr>) = fake_position k"
  "fake_patience (k\<lparr>fk_positions := a\<rparr>) = fake_patience k"
  "fake_patience (k\<lparr>fk_statements := b\<rparr>) = fake_patience k"
  "fake_patience (k\<lparr>fk_getmany_calls := c\<rparr>) = fake_patience k"
  "fake_patience (k\<lparr>fk_spurious_empty := e\<rparr>) = (if e then 1 else 0)"
  by (simp_all add: fake_position_def fake_patience_def fun_eq_iff)

lemma fake_getmany_calm:
  assumes "calm_fake ctp limit k" "kafka_log_start k ctp \<le> fake_position k ctp"
    "fake_position k ctp \<le> kafka_log_end k ctp" "0 < n"
  shows "\<exists>m rs j k'. fake_getmany ctp n k = (Inr m, k')
        \<and> rs = (case m ctp of None \<Rightarrow> [] | Some rs \<Rightarrow> rs)
        \<and> rs = take j (filter (\<lambda>r. fake_position k ctp \<le> cr_offset r) (kafka_records k ctp))
        \<and> fake_same ctp limit k k'
        \<and> fake_position k' ctp = (if rs = [] then fake_position k ctp else cr_offset (last rs) + 1)
        \<and> fake_patience k' \<le> fake_patience k
        \<and> (rs = [] \<longrightarrow> filter (\<lambda>r. fake_position k ctp \<le> cr_offset r) (kafka_records k ctp) \<noteq> []
            \<longrightarrow> fake_patience k' < fake_patience k)"
proof -
  let ?rs = "take n (filter (\<lambda>r. fake_position k ctp \<le> cr_offset r) (kafka_records k ctp))"
  let ?k = "k\<lparr>fk_getmany_calls := fk_getmany_calls k + 1\<rparr>"
  have eq: "fake_getmany ctp n k =
     (if fk_spurious_empty k then (Inr Map.empty, ?k\<lparr>fk_spurious_empty := False\<rparr>)
     else if ?rs = [] then (Inr Map.empty, ?k)
     else (Inr [ctp \<mapsto> ?rs], ?k\<lparr>fk_positions := (fk_positions k)(ctp \<mapsto> cr_offset (last ?rs) + 1)\<rparr>))"
    using fake_getmany_quiet [of k ctp n] assms by (simp add: calm_fake_def Let_def)
  note same = fake_same_refl [OF assms(1)]
  consider "fk_spurious_empty k" | "\<not> fk_spurious_empty k" "?rs = []" | "\<not> fk_spurious_empty k" "?rs \<noteq> []"
    by blast
  then show ?thesis
  proof cases
    case 1
    with same show ?thesis
      by (intro exI [of _ Map.empty] exI [of _ "[]"] exI [of _ "0::nat"]
          exI [of _ "?k\<lparr>fk_spurious_empty := False\<rparr>"]) (simp add: eq fake_patience_def)
  next
    case 2
    with same \<open>0 < n\<close> show ?thesis
      by (intro exI [of _ Map.empty] exI [of _ "[]"] exI [of _ "0::nat"] exI [of _ ?k]) (simp add: eq)
  next
    case 3
    let ?u = "?k\<lparr>fk_positions := (fk_positions k)(ctp \<mapsto> cr_offset (last ?rs) + 1)\<rparr>"
    have "fake_getmany ctp n k = (Inr [ctp \<mapsto> ?rs], ?u)" using 3 by (simp add: eq del: take_eq_Nil)
    moreover have "fake_position ?u ctp = cr_offset (last ?rs) + 1" by (simp add: fake_position_def)
    moreover have "fake_same ctp limit k ?u" "fake_patience ?u = fake_patience k" using same by simp_all
    ultimately show ?thesis using 3(2)
      by (intro exI [of _ "[ctp \<mapsto> ?rs]"] exI [of _ ?rs] exI [of _ n] exI [of _ ?u]) (simp del: take_eq_Nil)
  qed
qed

text \<open>The broker of the tests is a quiet outside, while its clock has not passed the limit.\<close>

interpretation quiet: log_broker fake_ops ctp limit "calm_fake ctp limit"
    "\<lambda>k. kafka_records k ctp" "\<lambda>k. kafka_log_start k ctp" "\<lambda>k. kafka_log_end k ctp"
    "\<lambda>k. fake_position k ctp" fake_patience "fake_same ctp limit"
  for ctp limit
proof (unfold_locales, simp_all only: fake_same_def [symmetric], goal_cases)
  case (1 k)
  then show ?case by (simp only: calm_fake_def) blast
next
  case (12 k n)
  then show ?case using fake_getmany_calm [of ctp limit k n] by (simp add: fake_ops_def)
qed (auto simp: fake_ops_def fake_verdict_def fake_seek_def fake_seek_to_beginning_def
      fake_same_refl calm_clock calm_verdicts)
section \<open>What an assignment leaves in the tables\<close>

definition sample_change :: "int \<Rightarrow> consumer_record" where
  "sample_change n = \<lparr>cr_offset = n, cr_key = Some [107], cr_value = Some [49],
     cr_headers = [(lit ''format_version'', [49]), (lit ''message_id'', map of_nat sample_uuid)]\<rparr>"

definition sample_row :: "int \<Rightarrow> db_record" where
  "sample_row n = replayed_record sample_tp n sample_uuid (lit ''k'') (lit ''1'')"

definition foreign_change :: "int \<Rightarrow> consumer_record" where
  "foreign_change n = \<lparr>cr_offset = n, cr_key = None, cr_value = None, cr_headers = []\<rparr>"

definition sample_ctp :: topic_partition where
  "sample_ctp = \<lparr>tp_topic = lit ''m-0'', tp_partition = 0\<rparr>"

lemma sample_classified:
  "classify (Some [107]) (Some [49]) [(lit ''format_version'', [49]), (lit ''message_id'', map of_nat sample_uuid)]
     = KsqliteRecord sample_uuid (lit ''k'') (lit ''1'')"
proof -
  have "utf8_encode sample_uuid = Inr (map of_nat sample_uuid)"
    by (simp add: utf8_encode_def sample_uuid_def lit_def scalar_value_def utf8_encode_one_def)
  then have d: "utf8_decode (map of_nat sample_uuid) = Inr sample_uuid" by (rule utf8_decode_encode)
  have "utf8_encode (lit ''k'') = Inr [107]" "utf8_encode (lit ''1'') = Inr [49]"
    by (simp_all add: utf8_encode_def lit_def scalar_value_def utf8_encode_one_def)
  then have "utf8_decode [107] = Inr (lit ''k'')" "utf8_decode [49] = Inr (lit ''1'')"
    by (blast intro: utf8_decode_encode)+
  with d canonical_uuid_ok [OF sample_uuid_canonical] show ?thesis
    by (simp add: classify_def header_map_def lit_header_names version_matches)
qed

lemma foreign_classified: "\<exists>why. classify None None [] = ForeignRecord why"
  by (simp add: classify_def header_map_def)

text \<open>A log of the sample record, a foreign one, and a duplicate produced by a retry.\<close>

definition sample_log :: fake where
  "sample_log = fake_start
     \<lparr>fk_logs := [sample_ctp \<mapsto> [sample_change 0, foreign_change 1, sample_change 3]],
      fk_next_offsets := [sample_ctp \<mapsto> 4], fk_spurious_empty := True\<rparr>"

lemma sample_log_calm: "calm_fake sample_ctp 1 sample_log"
  by (simp add: sample_log_def calm_fake_def kafka_records_def kafka_log_start_def kafka_log_end_def
      sample_change_def foreign_change_def)

lemma sample_replayed:
  "db_records d = [] \<Longrightarrow> replayed Some sample_tp [sample_change 0, foreign_change 1, sample_change 3] d
     = Inr (d\<lparr>db_records := [sample_row 0]\<rparr>)"
  using foreign_classified
  by (auto simp: sample_change_def foreign_change_def sample_classified sample_row_def insert_record_def
      replayed_record_def has_message_def)

text \<open>
  C5. A rehydrate replays the changelog. If nothing fails outside (every statement runs, the
  broker serves the log from the consumer's position in batches of any size with finitely
  many empty polls, the clock stays before the deadline), the rehydrate of a partition
  returns, with enough fuel for one iteration per record and per empty poll; the rows are
  those of the reference replay of every record past the checkpoint, the checkpoint is the
  end of the log, the partition is revealed, reported ready, and its lag is zero.
\<close>

theorem rehydrate_replays:
  assumes broker: "log_broker ops ctp limit good contents log_start leo pos patience"
    and w: "good (w_env w)" "w_saved w = None" "w_parts w tp = None"
    and cfg: "limit \<le> deadline" "0 < cfg_batch_size cfg" "ctp = \<lparr>tp_topic = name, tp_partition = 0\<rparr>"
    and c: "case db_checkpoints (w_db w) tp of
        None \<Rightarrow> contents (w_env w) \<noteq> [] \<or> leo (w_env w) = 0
      | Some n \<Rightarrow> log_start (w_env w) \<le> n + 1 \<and> n + 1 \<le> leo (w_env w)"
    and replay: "replayed (op_json ops) tp (unapplied (db_checkpoints (w_db w) tp) (contents (w_env w))) (w_db w)
      = Inr d1"
    and fuel: "length (contents (w_env w)) + patience (w_env w) \<le> fuel"
  shows "wp (rehydrate_one fuel ops cfg tp name deadline) (\<lambda>r w'. r = Ok ()
    \<and> w_db w' = owned_insert
         (if unapplied (db_checkpoints (w_db w) tp) (contents (w_env w)) = [] then w_db w
          else checkpoint_upsert d1 tp (leo (w_env w) - 1)) tp
    \<and> status_of (w_parts w') tp = Some READY
    \<and> Option.bind (partition_states (w_parts w') tp) ps_lag = Some 0) w"
proof -
  note facts = log_broker.settled_good_def [OF broker] log_broker.to_replay_def [OF broker]
  have u: "length (unapplied (db_checkpoints (w_db w) tp) (contents (w_env w))) \<le> length (contents (w_env w))"
    by (auto simp: unapplied_def split: option.split)
  show ?thesis
    by (rule wp_mono [OF log_broker.rehydrate_calm [OF broker _ cfg refl w(3) c, unfolded facts, OF _ replay]])
      (use w u fuel in auto)
qed

lemma sample_fake_broker:
  "log_broker fake_ops sample_ctp 1 (calm_fake sample_ctp 1)
     (\<lambda>k. kafka_records k sample_ctp) (\<lambda>k. kafka_log_start k sample_ctp) (\<lambda>k. kafka_log_end k sample_ctp)
     (\<lambda>k. fake_position k sample_ctp) fake_patience"
  by (rule quiet.log_broker_axioms)

lemma sample_log_contents [simp]:
  "kafka_records sample_log sample_ctp = [sample_change 0, foreign_change 1, sample_change 3]"
  "kafka_log_start sample_log sample_ctp = 0" "kafka_log_end sample_log sample_ctp = 4"
  "fake_patience sample_log = 1"
  by (simp_all add: sample_log_def kafka_records_def kafka_log_start_def kafka_log_end_def fake_patience_def)

lemma empty_tables [simp]:
  "db_records empty_database = []" "db_checkpoints empty_database = Map.empty"
  "db_owned empty_database = {}"
  by (simp_all add: empty_database_def)

lemma sample_offsets: "cr_offset (sample_change n) = n" "cr_offset (foreign_change n) = n"
  by (simp_all add: sample_change_def foreign_change_def)

lemma sample_name: "sample_ctp = \<lparr>tp_topic = lit ''m-0'', tp_partition = 0\<rparr>"
  by (simp add: sample_ctp_def)

lemma fake_json [simp]: "op_json fake_ops = Some"
  by (simp add: fake_ops_def)

lemma rehydrate_replays_witness:
  "wp (rehydrate_one 4 fake_ops test_settings sample_tp (lit ''m-0'') 1) (\<lambda>r w'. r = Ok ()
    \<and> w_db w' = owned_insert
         (if unapplied (db_checkpoints empty_database sample_tp)
               [sample_change 0, foreign_change 1, sample_change 3] = [] then empty_database
          else checkpoint_upsert (empty_database\<lparr>db_records := [sample_row 0]\<rparr>) sample_tp (4 - 1)) sample_tp
    \<and> status_of (w_parts w') sample_tp = Some READY
    \<and> Option.bind (partition_states (w_parts w') sample_tp) ps_lag = Some 0) (boot sample_log empty_database)"
  by (rule rehydrate_replays [OF sample_fake_broker, of "boot sample_log empty_database" sample_tp 1 test_settings
      "lit ''m-0''" "empty_database\<lparr>db_records := [sample_row 0]\<rparr>" 4, simplified boot_simps sample_log_contents])
    (simp_all add: sample_log_calm sample_name [symmetric] test_settings_def empty_tables unapplied_def sample_replayed
      del: replayed.simps)

text \<open>
  C6. Restart and handover: a store whose tables hold the replay of a first part of the log,
  with the checkpoint between that part and the rest, ends with the rows of one replay of
  the whole log from its start, whether it reads the rest in this assignment or the tables
  came from another process.
\<close>

theorem rehydrate_resumes:
  assumes broker: "log_broker ops ctp limit good contents log_start leo pos patience"
    and w: "good (w_env w)" "w_saved w = None" "w_parts w tp = None"
    and cfg: "limit \<le> deadline" "0 < cfg_batch_size cfg" "ctp = \<lparr>tp_topic = name, tp_partition = 0\<rparr>"
    and log: "contents (w_env w) = xs @ ys" "\<forall>r\<in>set xs. cr_offset r \<le> n" "\<forall>r\<in>set ys. n < cr_offset r"
    and n: "db_checkpoints (w_db w) tp = Some n" "log_start (w_env w) \<le> n + 1" "n + 1 \<le> leo (w_env w)"
    and first: "replayed (op_json ops) tp xs d0 = Inr dx" "db_records (w_db w) = db_records dx"
    and full: "replayed (op_json ops) tp (xs @ ys) d0 = Inr d1"
    and fuel: "length (xs @ ys) + patience (w_env w) \<le> fuel"
  shows "wp (rehydrate_one fuel ops cfg tp name deadline) (\<lambda>r w'. r = Ok ()
    \<and> db_records (w_db w') = db_records d1 \<and> tp \<in> db_owned (w_db w')) w"
proof -
  note facts = log_broker.settled_good_def [OF broker] log_broker.to_replay_def [OF broker]
  have ys: "unapplied (Some n) (xs @ ys) = ys" using log(2,3) by (rule unapplied_split)
  have "replayed (op_json ops) tp ys dx = Inr d1" using full first(1) by (simp add: replayed_append)
  from replayed_same_rows [OF this first(2)]
  have rest: "replayed (op_json ops) tp ys (w_db w) = Inr ((w_db w)\<lparr>db_records := db_records d1\<rparr>)" .
  have none: "db_records d1 = db_records dx" if "ys = []"
    using full first(1) that by simp
  have "wp (rehydrate_one fuel ops cfg tp name deadline) (\<lambda>r w'. r = Ok ()
    \<and> w_db w' = owned_insert (if ys = [] then w_db w
         else checkpoint_upsert ((w_db w)\<lparr>db_records := db_records d1\<rparr>) tp (leo (w_env w) - 1)) tp) w"
    by (rule wp_mono [OF log_broker.rehydrate_calm [OF broker _ cfg n(1) w(3), unfolded facts log(1) ys]])
      (use w n rest fuel in auto)
  then show ?thesis
    by (rule wp_mono) (use none first(2) in \<open>auto simp: owned_insert_def checkpoint_upsert_def\<close>)
qed

lemma rehydrate_resumes_witness:
  "wp (rehydrate_one 4 fake_ops test_settings sample_tp (lit ''m-0'') 1) (\<lambda>r w'. r = Ok ()
    \<and> db_records (w_db w') = db_records (empty_database\<lparr>db_records := [sample_row 0]\<rparr>)
    \<and> sample_tp \<in> db_owned (w_db w'))
   (boot sample_log (empty_database\<lparr>db_records := [sample_row 0], db_checkpoints := [sample_tp \<mapsto> 1]\<rparr>))"
proof (rule rehydrate_resumes [OF sample_fake_broker, where n = 1])
  show "replayed (op_json fake_ops) sample_tp [sample_change 0, foreign_change 1] empty_database
    = Inr (empty_database\<lparr>db_records := [sample_row 0]\<rparr>)"
    using sample_replayed [OF empty_tables(1)] foreign_classified
    by (auto simp: sample_change_def foreign_change_def sample_classified sample_row_def insert_record_def
      replayed_record_def has_message_def empty_tables)
  show "replayed (op_json fake_ops) sample_tp ([sample_change 0, foreign_change 1] @ [sample_change 3])
      empty_database = Inr (empty_database\<lparr>db_records := [sample_row 0]\<rparr>)"
    using sample_replayed [OF empty_tables(1)] by simp
qed (simp_all add: sample_log_calm sample_name [symmetric] test_settings_def sample_offsets)

end
