(* ===== verification/Append_Path.thy ===== *)
theory Append_Path imports
  Replay_Correctness
begin

text \<open>
  The service behind \<^verbatim>\<open>append\<close>, \<^verbatim>\<open>_write.py\<close>: validation of the entity key, the warning for a
  partition that is not ready, encoding, the produce with its two failures, the
  materialization in one transaction, and the write-back of the offset. The lemmas give
  its outcome on every branch; the properties relate what it writes to what a replay of
  the produced record writes.
\<close>

section \<open>The operation\<close>

text \<open>A host's argument where the code asks \<^verbatim>\<open>isinstance(x, str)\<close>.\<close>

datatype host_value = HostStr pystr | HostObject

definition validate_entity_key :: "host_value \<Rightarrow> exn + pystr" where
  "validate_entity_key key =
     (case key of
        HostObject \<Rightarrow> Inl ValueError
      | HostStr s \<Rightarrow>
          if s = [] then Inl ValueError
          else (case utf8_encode s of
                  Inl e \<Rightarrow> if e = UnicodeEncodeError then Inl ValueError else Inl e
                | Inr _ \<Rightarrow> Inr s))"

definition new_message_id :: "'k ops \<Rightarrow> ('k, pystr) act" where
  "new_message_id ops = ask (op_uuid7 ops)"

definition produce ::
    "'k ops \<Rightarrow> topic_partition \<Rightarrow> pystr \<Rightarrow> encoded_record \<Rightarrow> ('k, int) act" where
  "produce ops source topic encoded =
     io_bind
       (io_catch (call (op_send_and_wait ops topic 0 encoded))
         (\<lambda>e. if is_kafka_error e
              then io_seq (log_event (ProduceFailure source topic))
                     (io_raise (ChangelogProduceError (Some e)))
              else io_raise e))
       (\<lambda>offset.
         if offset < 0
         then io_seq (log_event (ProduceFailure source topic))
                (io_raise (ChangelogProduceError None))
         else io_ret offset)"

definition materialize ::
    "'k ops \<Rightarrow> topic_partition \<Rightarrow> int \<Rightarrow> pystr \<Rightarrow> pystr \<Rightarrow> encoded_record \<Rightarrow> ('k, unit) act" where
  "materialize ops source offset mid k encoded =
     io_bind (lift_res (utf8_decode (er_value encoded))) (\<lambda>body.
       apply_materialization ops (replayed_record source offset mid k body))"

definition append_record ::
    "'k ops \<Rightarrow> (pystr \<Rightarrow> exn option) \<Rightarrow> ('o \<Rightarrow> exn + pystr) \<Rightarrow> settings
     \<Rightarrow> topic_partition \<Rightarrow> host_value \<Rightarrow> 'o payload \<Rightarrow> ('k, unit) act" where
  "append_record ops loads dumps cfg source key val =
     io_bind (lift_res (validate_entity_key key)) (\<lambda>k.
     io_bind (io_gets (\<lambda>w. status_of (w_parts w) source)) (\<lambda>status.
     io_seq (io_when (status \<noteq> Some READY) (log_event (AppendToNonReady source)))
     (io_bind (new_message_id ops) (\<lambda>mid.
     io_bind (lift_res (encode loads dumps k val mid)) (\<lambda>encoded.
     io_bind (lift_res (changelog_name (op_format ops) (cfg_template cfg) source)) (\<lambda>topic.
     io_bind (produce ops source topic encoded) (\<lambda>offset.
     io_seq
       (checked_out ops (cfg_busy_timeout cfg)
         (run_txn ops (cfg_busy_timeout cfg) (materialize ops source offset mid k encoded)))
       (on_parts (\<lambda>m. record_applied m source offset)))))))))"

section \<open>Its steps\<close>

lemma txn_work_materialize:
  "txn_work (materialize ops source offset mid k encoded)
     (\<lambda>d _ d'. \<exists>body. utf8_decode (er_value encoded) = Inr body
        \<and> materialized (op_json ops) (replayed_record source offset mid k body) d = Inr d')"
  unfolding materialize_def lift_res_def
  by (cases "utf8_decode (er_value encoded)")
    (auto simp: io_bind_raise io_bind_ret txn_work_raise
      intro!: txn_work_mono [OF txn_work_apply_materialization])

lemma keeps_materialize: "keeps same_memory (materialize ops source offset mid k encoded)"
  unfolding materialize_def lift_res_def
  by (cases "utf8_decode (er_value encoded)")
    (auto simp: io_bind_raise io_bind_ret intro: keeps_apply_materialization memory_frame.keeps_raise)

lemma replayed_record_simps [simp]:
  "row_tp (replayed_record tp n mid key body) = tp"
  "changelog_offset (replayed_record tp n mid key body) = n"
  "message_id (replayed_record tp n mid key body) = mid"
  "payload (replayed_record tp n mid key body) = body"
  "replayed_record tp n mid key body\<lparr>payload := c\<rparr> = replayed_record tp n mid key c"
  by (simp_all add: row_tp_def replayed_record_def)

text \<open>
  The record an append produced and the row it stands for: the broker acknowledged the
  encoded record, sent with a fresh id to partition 0 of the changelog, at the row's offset.
\<close>

definition acknowledged ::
    "'k ops \<Rightarrow> (pystr \<Rightarrow> exn option) \<Rightarrow> ('o \<Rightarrow> exn + pystr) \<Rightarrow> settings
     \<Rightarrow> topic_partition \<Rightarrow> host_value \<Rightarrow> 'o payload \<Rightarrow> 'k \<Rightarrow> encoded_record \<Rightarrow> db_record \<Rightarrow> bool" where
  "acknowledged ops loads dumps cfg source key val env encoded row \<longleftrightarrow>
     (\<exists>k topic offset body. validate_entity_key key = Inr k
        \<and> encode loads dumps k val (fst (op_uuid7 ops env)) = Inr encoded
        \<and> changelog_name (op_format ops) (cfg_template cfg) source = Inr topic
        \<and> fst (op_send_and_wait ops topic 0 encoded (snd (op_uuid7 ops env))) = Inr offset \<and> 0 \<le> offset
        \<and> utf8_decode (er_value encoded) = Inr body
        \<and> row = replayed_record source offset (fst (op_uuid7 ops env)) k body)"

lemma produce_rule:
  "wp (produce ops source topic encoded) (\<lambda>r w'.
     w_db w' = w_db w \<and> w_saved w' = w_saved w \<and> w_parts w' = w_parts w
     \<and> (case r of
          Ok n \<Rightarrow> 0 \<le> n \<and> fst (op_send_and_wait ops topic 0 encoded (w_env w)) = Inr n \<and> w_log w' = w_log w
        | Exn e \<Rightarrow> \<not> is_kafka_error e
        | Running \<Rightarrow> False)) w"
  by (auto simp: produce_def split: prod.split sum.split)


lemma store_rule:
  assumes "w_saved w = None"
  shows "wp (io_seq (checked_out ops bt (run_txn ops bt (materialize ops source offset mid k encoded)))
      (on_parts (\<lambda>m. record_applied m source offset))) (\<lambda>r w'. w_saved w' = None \<and>
        (case r of
           Ok _ \<Rightarrow> w_parts w' = record_applied (w_parts w) source offset
             \<and> (\<exists>body. utf8_decode (er_value encoded) = Inr body
                \<and> materialized (op_json ops) (replayed_record source offset mid k body) (w_db w) = Inr (w_db w'))
         | Exn e \<Rightarrow> w_parts w' = w_parts w \<and> (w_db w' = w_db w
             \<or> (\<exists>body. utf8_decode (er_value encoded) = Inr body
                \<and> materialized (op_json ops) (replayed_record source offset mid k body) (w_db w) = Inr (w_db w')))
         | Running \<Rightarrow> False)) w"
  unfolding wp_bind
  by (rule wp_mono [OF wp_conj [OF checked_out_txn_rule [OF txn_work_materialize assms]
        keeps_wp [OF keeps_checked_out [OF keeps_run_txn [OF keeps_materialize]]]]])
    (auto simp: same_memory_def split: res.splits)

text \<open>What an append from the world \<open>w\<close> ends with.\<close>

definition append_post ::
    "'k ops \<Rightarrow> (pystr \<Rightarrow> exn option) \<Rightarrow> ('o \<Rightarrow> exn + pystr) \<Rightarrow> settings \<Rightarrow> topic_partition \<Rightarrow> host_value
     \<Rightarrow> 'o payload \<Rightarrow> 'k world \<Rightarrow> unit res \<Rightarrow> 'k world \<Rightarrow> bool" where
  "append_post ops loads dumps cfg source key val w r w' \<longleftrightarrow> w_saved w' = None \<and>
    (case r of
       Ok _ \<Rightarrow> \<exists>encoded row. acknowledged ops loads dumps cfg source key val (w_env w) encoded row
          \<and> materialized (op_json ops) row (w_db w) = Inr (w_db w')
          \<and> w_parts w' = record_applied (w_parts w) source (changelog_offset row)
     | Exn e \<Rightarrow> w_parts w' = w_parts w
          \<and> (w_db w' = w_db w
             \<or> (\<exists>encoded row. acknowledged ops loads dumps cfg source key val (w_env w) encoded row
                  \<and> materialized (op_json ops) row (w_db w) = Inr (w_db w')))
     | Running \<Rightarrow> False)"

lemma append_raised:
  "w_saved u = None \<Longrightarrow> w_parts u = w_parts w \<Longrightarrow> w_db u = w_db w \<Longrightarrow>
   append_post ops loads dumps cfg source key val w (Exn e) u"
  by (simp add: append_post_def)

text \<open>From the produce on, for inputs that were accepted.\<close>

lemma produced_rule:
  assumes uuid: "op_uuid7 ops (w_env w) = (mid, env)"
    and v: "w_saved v = None" "w_db v = w_db w" "w_parts v = w_parts w" "w_env v = env"
    and accepted: "validate_entity_key key = Inr k" "encode loads dumps k val mid = Inr encoded"
      "changelog_name (op_format ops) (cfg_template cfg) source = Inr topic"
  shows "wp (io_bind (produce ops source topic encoded) (\<lambda>offset.
      io_seq (checked_out ops bt (run_txn ops bt (materialize ops source offset mid k encoded)))
      (on_parts (\<lambda>m. record_applied m source offset)))) (append_post ops loads dumps cfg source key val w) v"
  unfolding wp_bind [of "produce _ _ _ _"]
proof (rule wp_mono [OF produce_rule], goal_cases)
  case (1 r u)
  show ?case
  proof (cases r)
    case (Ok offset)
    with 1 v have u: "w_saved u = None" "w_db u = w_db w" "w_parts u = w_parts w"
        "fst (op_send_and_wait ops topic 0 encoded env) = Inr offset" "0 \<le> offset" by auto
    have "wp (io_seq (checked_out ops bt (run_txn ops bt (materialize ops source offset mid k encoded)))
        (on_parts (\<lambda>m. record_applied m source offset))) (append_post ops loads dumps cfg source key val w) u"
      by (rule wp_mono [OF store_rule [OF u(1)]])
        (use u(2-) accepted uuid in \<open>fastforce simp: append_post_def acknowledged_def split: res.splits\<close>)
    then show ?thesis by (simp only: Ok res.case)
  qed (use 1 v in \<open>auto intro: append_raised\<close>)
qed

lemma append_post_rule:
  assumes "w_saved w = None"
  shows "wp (append_record ops loads dumps cfg source key val) (append_post ops loads dumps cfg source key val w) w"
proof -
  let ?Q = "append_post ops loads dumps cfg source key val w"
  obtain mid env where uuid: "op_uuid7 ops (w_env w) = (mid, env)" by fastforce
  have send: "wp (io_bind (lift_res (changelog_name (op_format ops) (cfg_template cfg) source)) (\<lambda>topic.
      io_bind (produce ops source topic encoded) (\<lambda>offset.
      io_seq (checked_out ops bt (run_txn ops bt (materialize ops source offset mid k encoded)))
      (on_parts (\<lambda>m. record_applied m source offset))))) ?Q v"
    if "w_saved v = None" "w_db v = w_db w" "w_parts v = w_parts w" "w_env v = env"
      "validate_entity_key key = Inr k" "encode loads dumps k val mid = Inr encoded" for v bt k encoded
    unfolding wp_bind [of "lift_res _"] wp_lift_res
    by (cases "changelog_name (op_format ops) (cfg_template cfg) source")
      (use that in \<open>auto intro: append_raised produced_rule [OF uuid] simp del: wp_bind\<close>)
  have mint: "wp (io_bind (ask (op_uuid7 ops)) (\<lambda>mid.
      io_bind (lift_res (encode loads dumps k val mid)) (\<lambda>encoded.
      io_bind (lift_res (changelog_name (op_format ops) (cfg_template cfg) source)) (\<lambda>topic.
      io_bind (produce ops source topic encoded) (\<lambda>offset.
      io_seq (checked_out ops bt (run_txn ops bt (materialize ops source offset mid k encoded)))
      (on_parts (\<lambda>m. record_applied m source offset))))))) ?Q v"
    if "w_saved v = None" "w_db v = w_db w" "w_parts v = w_parts w" "w_env v = w_env w"
      "validate_entity_key key = Inr k" for v bt k
    unfolding wp_bind [of "ask _"] wp_ask
    unfolding wp_bind [of "lift_res (encode _ _ _ _ _)"] wp_lift_res
    by (cases "encode loads dumps k val mid")
      (use that uuid in \<open>auto intro: append_raised send simp del: wp_bind\<close>)
  show ?thesis
    unfolding append_record_def new_message_id_def
    unfolding wp_bind [of "lift_res (validate_entity_key _)"] wp_lift_res
    unfolding wp_bind [of "io_gets _"] wp_bind [of "io_when _ _"] wp_when wp_gets
    by (cases "validate_entity_key key")
      (auto simp del: wp_bind intro: append_raised mint simp: assms)
qed

lemmas append_rule = append_post_rule [unfolded append_post_def]


text \<open>What a replay reads back of an acknowledged record.\<close>

lemma acknowledged_classified:
  assumes "acknowledged ops loads dumps cfg source key val env encoded row" "uuid_ok (fst (op_uuid7 ops env))"
  shows "classify (Some (er_key encoded)) (Some (er_value encoded)) (er_headers encoded)
      = KsqliteRecord (message_id row) (entity_key row) (payload row)"
    and "row = replayed_record source (changelog_offset row) (message_id row) (entity_key row) (payload row)"
proof -
  obtain k offset body where a: "encode loads dumps k val (fst (op_uuid7 ops env)) = Inr encoded"
    "utf8_decode (er_value encoded) = Inr body"
    "row = replayed_record source offset (fst (op_uuid7 ops env)) k body"
    using assms(1) by (auto simp: acknowledged_def)
  obtain body' mb where p: "utf8_encode k = Inr (er_key encoded)" "utf8_encode body' = Inr (er_value encoded)"
    "utf8_encode (fst (op_uuid7 ops env)) = Inr mb"
    "er_headers encoded = [(lit ''format_version'', [49]), (lit ''message_id'', mb)]"
    using a(1) by (rule encode_parts)
  have "utf8_decode (er_key encoded) = Inr k" "utf8_decode (er_value encoded) = Inr body'"
    "utf8_decode mb = Inr (fst (op_uuid7 ops env))"
    by (rule utf8_decode_encode [OF p(1)], rule utf8_decode_encode [OF p(2)], rule utf8_decode_encode [OF p(3)])
  then show "classify (Some (er_key encoded)) (Some (er_value encoded)) (er_headers encoded)
      = KsqliteRecord (message_id row) (entity_key row) (payload row)"
    using assms(2) a(2,3)
    by (simp add: classify_def header_map_def p(4) lit_header_names version_matches replayed_record_def)
  show "row = replayed_record source (changelog_offset row) (message_id row) (entity_key row) (payload row)"
    by (simp add: a(3) replayed_record_def)
qed

definition changelog_record :: "encoded_record \<Rightarrow> int \<Rightarrow> consumer_record" where
  "changelog_record encoded n =
     \<lparr>cr_offset = n, cr_key = Some (er_key encoded), cr_value = Some (er_value encoded),
      cr_headers = er_headers encoded\<rparr>"

section \<open>Properties\<close>


definition appending :: fake where
  "appending = fake_start\<lparr>fk_uuids := [sample_uuid], fk_next_offsets := [\<lparr>tp_topic = lit ''m.p0.changelog'', tp_partition = 0\<rparr> \<mapsto> 7]\<rparr>"

abbreviation sample_append :: "fake world \<Rightarrow> unit res \<times> fake world" where
  "sample_append \<equiv> append_record fake_ops (\<lambda>_. None) (\<lambda>_::unit. Inl TypeError) test_settings sample_tp
     (HostStr (lit ''k'')) (PayloadStr (lit ''1''))"

lemma sample_encode:
  "encode (\<lambda>_. None) (\<lambda>_::unit. Inl TypeError) (lit ''k'') (PayloadStr (lit ''1'')) sample_uuid
     = Inr \<lparr>er_key = [107], er_value = [49],
            er_headers = [(lit ''format_version'', [49]), (lit ''message_id'', map of_nat sample_uuid)]\<rparr>"
proof -
  have "utf8_encode (lit ''k'') = Inr [107]" "utf8_encode (lit ''1'') = Inr [49]"
    "utf8_encode sample_uuid = Inr (map of_nat sample_uuid)"
    by (simp_all add: utf8_encode_def lit_def scalar_value_def utf8_encode_one_def sample_uuid_def)
  then show ?thesis by (simp add: encode_def serialize_payload_def version_bytes)
qed

lemma sample_key: "validate_entity_key (HostStr (lit ''k'')) = Inr (lit ''k'')"
  by (simp add: validate_entity_key_def utf8_encode_def lit_def scalar_value_def)

lemma sample_topic:
  "changelog_name (op_format fake_ops) (cfg_template test_settings) sample_tp = Inr (lit ''m.p0.changelog'')"
  by (simp add: test_settings_def sample_changelog_name)

lemma fake_answers:
  "op_clock fake_ops k = (fk_clock k, k)" "op_verdict fake_ops = fake_verdict"
  "op_acquire fake_ops k = (Inr (Idle (fst (fk_stale k)) (snd (fk_stale k))), k)"
  "op_release fake_ops k = (Inr (), k)"
  "op_uuid7 fake_ops k = (case fk_uuids k of [] \<Rightarrow> ([], k) | u # us \<Rightarrow> (u, k\<lparr>fk_uuids := us\<rparr>))"
  "op_send_and_wait fake_ops = fake_send_and_wait"
  by (simp_all add: fake_ops_def)

lemma sample_append_returns:
  "\<exists>w'. sample_append (boot appending empty_database) = (Ok (), w')
     \<and> w_db w' = empty_database\<lparr>db_records := [sample_row 7], db_checkpoints := [sample_tp \<mapsto> 7]\<rparr>"
proof -
  have d: "utf8_decode [49] = Inr (lit ''1'')"
    by (rule utf8_decode_encode) (simp add: utf8_encode_def lit_def scalar_value_def utf8_encode_one_def)
  show ?thesis
    by (simp add: append_record_def sample_key sample_topic sample_encode appending_def new_message_id_def lift_res_def ask_def call_def
        fake_answers produce_def io_simps fake_send_and_wait_def kafka_append_def kafka_log_end_def Let_def
        log_event_def checked_out_def acquire_def rollback_def execute_def run_stmt_def in_transaction_def
        fake_verdict_def run_txn_def run_from.simps attempt_txn_def on_error_def materialize_def d
        apply_materialization_def release_def commit_def end_commit_def on_parts_def committed_def
        insert_record_def checkpoint_upsert_def sample_row_def has_message_def status_of_def)
qed



text \<open>
  C11. An append and the replay of its record write the same rows. What an append produced is
  read back, from the acknowledged offset, as the row the append inserted: replaying it
  over the tables the append started from gives the append's rows, and replaying it over
  the tables the append left changes nothing. Message ids are well-formed UUID texts.
\<close>

theorem append_then_replay:
  assumes "w_saved w = None" "uuid_ok (fst (op_uuid7 ops (w_env w)))"
    and "append_record ops loads dumps cfg source key val w = (Ok (), w')"
  shows "\<exists>encoded row. acknowledged ops loads dumps cfg source key val (w_env w) encoded row
     \<and> replayed (op_json ops) source [changelog_record encoded (changelog_offset row)] (w_db w)
         = Inr ((w_db w)\<lparr>db_records := db_records (w_db w')\<rparr>)
     \<and> replayed (op_json ops) source [changelog_record encoded (changelog_offset row)] (w_db w') = Inr (w_db w')"
proof -
  obtain encoded row where a: "acknowledged ops loads dumps cfg source key val (w_env w) encoded row"
      "materialized (op_json ops) row (w_db w) = Inr (w_db w')"
    using wpD [OF append_rule [OF assms(1)] assms(3)] by auto
  obtain d where d: "insert_record (op_json ops) row (w_db w) = Inr d"
      "w_db w' = checkpoint_upsert d (row_tp row) (changelog_offset row)"
    using a(2) by (auto simp: materialized_def split: sum.splits)
  have run: "replayed (op_json ops) source [changelog_record encoded (changelog_offset row)] e
      = insert_record (op_json ops) row e" for e
    using acknowledged_classified [OF a(1) assms(2)]
    by (simp add: changelog_record_def split: sum.split)
  have "insert_record (op_json ops) row (w_db w) = Inr ((w_db w)\<lparr>db_records := db_records (w_db w')\<rparr>)"
    using d by (auto simp: insert_record_cases split: option.splits)
  moreover have "insert_record (op_json ops) row (w_db w') = Inr (w_db w')"
    using d by (auto simp: insert_record_cases message_ids_def split: option.splits if_splits)
  ultimately have "replayed (op_json ops) source [changelog_record encoded (changelog_offset row)] (w_db w)
         = Inr ((w_db w)\<lparr>db_records := db_records (w_db w')\<rparr>)"
    "replayed (op_json ops) source [changelog_record encoded (changelog_offset row)] (w_db w') = Inr (w_db w')"
    by (simp_all only: run)
  with a(1) show ?thesis by blast
qed

lemma append_then_replay_witness:
  "\<exists>encoded row. acknowledged fake_ops (\<lambda>_. None) (\<lambda>_::unit. Inl TypeError) test_settings sample_tp
        (HostStr (lit ''k'')) (PayloadStr (lit ''1'')) appending encoded row
     \<and> replayed Some sample_tp [changelog_record encoded (changelog_offset row)] empty_database
         = Inr (empty_database\<lparr>db_records := [sample_row 7]\<rparr>)
     \<and> replayed Some sample_tp [changelog_record encoded (changelog_offset row)]
           (empty_database\<lparr>db_records := [sample_row 7], db_checkpoints := [sample_tp \<mapsto> 7]\<rparr>)
         = Inr (empty_database\<lparr>db_records := [sample_row 7], db_checkpoints := [sample_tp \<mapsto> 7]\<rparr>)"
proof -
  obtain w' where w': "sample_append (boot appending empty_database) = (Ok (), w')"
    "w_db w' = empty_database\<lparr>db_records := [sample_row 7], db_checkpoints := [sample_tp \<mapsto> 7]\<rparr>"
    using sample_append_returns by blast
  have "uuid_ok (fst (op_uuid7 fake_ops appending))"
    using canonical_uuid_ok [OF sample_uuid_canonical] by (simp add: fake_answers appending_def)
  with append_then_replay [OF _ _ w'(1)] show ?thesis
    by (simp add: w'(2) del: replayed.simps)
qed

text \<open>The warning of an append to a partition that is not ready.\<close>

definition not_ready_warning :: "'k world \<Rightarrow> topic_partition \<Rightarrow> event list" where
  "not_ready_warning w source =
     (if status_of (w_parts w) source = Some READY then [] else [AppendToNonReady source])"

text \<open>
  Bad input is refused before anything leaves the process. If the entity key is no
  non-empty encodable text, or the payload is no JSON, the append raises \<^verbatim>\<open>ValueError\<close>; a bad
  key changes nothing at all, a bad payload only minted an id and logged the warning for a
  partition that is not ready: no message was sent, no statement was executed.
\<close>

lemma append_refuses_bad_input:
  assumes "case validate_entity_key key of
      Inl e' \<Rightarrow> e = e' | Inr k \<Rightarrow> encode loads dumps k val (fst (op_uuid7 ops (w_env w))) = Inl e"
    and "\<And>s e. loads s = Some e \<Longrightarrow> is_value_error e"
    and "\<And>x e. dumps x = Inl e \<Longrightarrow> e = TypeError \<or> is_value_error e"
  shows "is_value_error e \<and> append_record ops loads dumps cfg source key val w
      = (Exn e, case validate_entity_key key of Inl _ \<Rightarrow> w
          | Inr _ \<Rightarrow> w\<lparr>w_env := snd (op_uuid7 ops (w_env w)), w_log := w_log w @ not_ready_warning w source\<rparr>)"
proof (cases "validate_entity_key key")
  case (Inl e')
  moreover have "is_value_error e'"
    using Inl by (auto simp: validate_entity_key_def utf8_encode_def split: host_value.splits sum.splits if_splits)
  ultimately show ?thesis using assms(1) by (simp add: append_record_def lift_res_def io_simps)
next
  case (Inr k)
  with assms(1) have e: "encode loads dumps k val (fst (op_uuid7 ops (w_env w))) = Inl e" by simp
  obtain mid env where uuid: "op_uuid7 ops (w_env w) = (mid, env)" by fastforce
  show ?thesis
    using Inr e encode_errors [OF e assms(2,3)]
    by (simp add: append_record_def lift_res_def new_message_id_def ask_def log_event_def io_simps uuid
        not_ready_warning_def)
qed

lemma append_refuses_bad_input_example:
  "is_value_error ValueError \<and> append_record fake_ops (\<lambda>_. None) (\<lambda>_::unit. Inl TypeError) test_settings sample_tp
        (HostStr (lit ''k'')) (PayloadObject ()) (boot fake_start empty_database)
      = (Exn ValueError, case validate_entity_key (HostStr (lit ''k'')) of
           Inl _ \<Rightarrow> boot fake_start empty_database
         | Inr _ \<Rightarrow> (boot fake_start empty_database)
             \<lparr>w_env := snd (op_uuid7 fake_ops (w_env (boot fake_start empty_database))),
              w_log := w_log (boot fake_start empty_database)
                @ not_ready_warning (boot fake_start empty_database) sample_tp\<rparr>)"
  by (rule append_refuses_bad_input)
    (auto simp: validate_entity_key_def utf8_encode_def lit_def scalar_value_def encode_def serialize_payload_def)

text \<open>
  C32. A failed produce writes nothing. When the client raises a Kafka error, or acknowledges the
  record with a negative offset, the append raises \<open>ChangelogProduceError\<close> and logs
  \<open>produce_failure\<close>, and tables, checkpoint and partition machine are as before.
\<close>

theorem failed_produce_writes_nothing:
  assumes "validate_entity_key key = Inr k" "op_uuid7 ops (w_env w) = (mid, env)"
    and "encode loads dumps k val mid = Inr encoded"
    and "changelog_name (op_format ops) (cfg_template cfg) source = Inr topic"
    and "op_send_and_wait ops topic 0 encoded env = (answer, env')"
    and "case answer of Inl e \<Rightarrow> is_kafka_error e | Inr offset \<Rightarrow> offset < 0"
  shows "append_record ops loads dumps cfg source key val w
      = (Exn (ChangelogProduceError (case answer of Inl e \<Rightarrow> Some e | Inr _ \<Rightarrow> None)),
         w\<lparr>w_env := env', w_log := w_log w @ not_ready_warning w source @ [ProduceFailure source topic]\<rparr>)"
  using assms
  by (auto simp: append_record_def lift_res_def new_message_id_def ask_def call_def log_event_def produce_def
      io_simps not_ready_warning_def split: sum.splits prod.splits)

lemma failed_produce_writes_nothing_witness:
  "append_record fake_ops (\<lambda>_. None) (\<lambda>_::unit. Inl TypeError) test_settings sample_tp (HostStr (lit ''k''))
        (PayloadStr (lit ''1'')) (boot (appending\<lparr>fk_send_fails := Some (KafkaError 7)\<rparr>) empty_database)
      = (Exn (ChangelogProduceError (case (Inl (KafkaError 7) :: exn + int) of Inl e \<Rightarrow> Some e | Inr _ \<Rightarrow> None)),
         (boot (appending\<lparr>fk_send_fails := Some (KafkaError 7)\<rparr>) empty_database)
          \<lparr>w_env := appending\<lparr>fk_send_fails := Some (KafkaError 7), fk_uuids := []\<rparr>,
           w_log := w_log (boot (appending\<lparr>fk_send_fails := Some (KafkaError 7)\<rparr>) empty_database)
             @ not_ready_warning (boot (appending\<lparr>fk_send_fails := Some (KafkaError 7)\<rparr>) empty_database) sample_tp
             @ [ProduceFailure sample_tp (lit ''m.p0.changelog'')]\<rparr>)"
  by (rule failed_produce_writes_nothing [OF sample_key _ sample_encode sample_topic,
        where env = "appending\<lparr>fk_send_fails := Some (KafkaError 7), fk_uuids := []\<rparr>"])
    (simp_all add: fake_answers appending_def fake_send_and_wait_def Let_def)




text \<open>Any relation over the tables that a write path keeps is kept by an append.\<close>

context materializing
begin

lemma kept_append:
  assumes "source \<in> T"
  shows "keeps (settled R) (append_record ops loads dumps cfg source key val)"
proof (rule keepsI)
  fix w r w' assume run: "append_record ops loads dumps cfg source key val w = (r, w')"
  have row: "row_tp row \<in> T" if "acknowledged ops loads dumps cfg source key val env encoded row" for env encoded row
    using that assms by (auto simp: acknowledged_def)
  show "settled R w w'"
    using wpD [OF append_rule run]
    by (auto simp: settled_def R_refl split: res.splits intro: R_materialized [OF row])
qed

end

end
