(* ===== verification/Schema_Migration.thy ===== *)
theory Schema_Migration imports
  Assignment_Outcome
  "HOL-Library.List_Lexorder"
begin

text \<open>
  The migration of \<^verbatim>\<open>_schema.py\<close>: the version floor, the base schema, reconciliation of
  declared columns and indexes with the stored catalog, drift detection, and the DDL it
  executes. Text of identifiers is ordered by code points (\<^verbatim>\<open>sorted\<close> on \<^verbatim>\<open>str\<close>).
\<close>

section \<open>The operations\<close>

definition SQLITE_VERSION_FLOOR :: "int \<times> int" where
  "SQLITE_VERSION_FLOOR = (3, 38)"

text \<open>A tuple of three against a tuple of two: the shared positions decide, then length.\<close>

definition check_sqlite_version :: "int \<times> int \<times> int \<Rightarrow> exn + unit" where
  "check_sqlite_version version =
     (case (version, SQLITE_VERSION_FLOOR) of
        ((a, b, c), (a', b')) \<Rightarrow>
          if a < a' \<or> a = a' \<and> b < b' then Inl SQLiteVersionError else Inr ())"

definition HIDDEN_VIRTUAL :: nat where "HIDDEN_VIRTUAL = 2"

definition HIDDEN_STORED :: nat where "HIDDEN_STORED = 3"

definition BASE_INDEXES :: "(pystr \<times> pystr list) list" where
  "BASE_INDEXES =
     [(lit ''ix_records_tp'', [lit ''source_topic'', lit ''source_partition'']),
      (lit ''ix_records_key'', [lit ''entity_key''])]"

definition BASE_INDEX_NAMES :: "pystr list" where
  "BASE_INDEX_NAMES = [lit ''ix_records_tp'', lit ''ix_records_key'']"

text \<open>What the catalog queries return.\<close>

definition table_xinfo :: "database \<Rightarrow> (pystr \<times> nat) list" where
  "table_xinfo d = (case db_catalog d of None \<Rightarrow> [] | Some c \<Rightarrow> cat_columns c)"

definition stored_sql :: "database \<Rightarrow> pystr option" where
  "stored_sql d = map_option cat_sql (db_catalog d)"

definition index_list :: "database \<Rightarrow> (pystr \<times> bool) list" where
  "index_list d = (case db_catalog d of None \<Rightarrow> []
     | Some c \<Rightarrow> map (\<lambda>i. (ci_name i, ci_unique i)) (cat_indexes c))"

definition index_xinfo :: "pystr \<Rightarrow> database \<Rightarrow> (int \<times> pystr \<times> bool) list" where
  "index_xinfo name d = (case db_catalog d of None \<Rightarrow> []
     | Some c \<Rightarrow> (case find (\<lambda>i. ci_name i = name) (cat_indexes c) of
         None \<Rightarrow> [] | Some i \<Rightarrow> ci_xinfo i))"

text \<open>\<^verbatim>\<open>sorted(present - declared)\<close> of two sets of text.\<close>

definition orphans :: "pystr list \<Rightarrow> pystr list \<Rightarrow> pystr list" where
  "orphans present declared = sort (remdups (filter (\<lambda>n. n \<notin> set declared) present))"

definition execute_migration_ddl :: "'k ops \<Rightarrow> pystr \<Rightarrow> ('k, unit) act" where
  "execute_migration_ddl ops ddl =
     io_seq
       (io_catch (execute ops (MigrationDdl ddl))
         (\<lambda>e. io_raise (if is_sqlite_error e then SchemaMigrationError (Some e) else e)))
       (log_event (MigrationDdlExecuted ddl))"

definition check_column_drift :: "generated_column \<Rightarrow> pystr \<Rightarrow> exn + unit" where
  "check_column_drift column stored_schema =
     (if py_contains (render_column_clause column) stored_schema then Inr () else Inl ConfigError)"

definition existing_index_shape :: "'k ops \<Rightarrow> pystr \<Rightarrow> ('k, (pystr list \<times> bool) option) act" where
  "existing_index_shape ops name =
     io_bind (fetch ops IndexList index_list) (\<lambda>index_rows.
       case find (\<lambda>r. fst r = name) index_rows of
         None \<Rightarrow> io_ret None
       | Some entry \<Rightarrow>
           io_bind (fetch ops (IndexXinfo name) (index_xinfo name)) (\<lambda>xinfo.
             io_ret (Some
               (map (\<lambda>(seqno, name, key). name)
                  (filter (\<lambda>(seqno, name, key). key) (sort_key fst xinfo)),
                snd entry))))"

definition create_base_schema :: "'k ops \<Rightarrow> ('k, unit) act" where
  "create_base_schema ops =
     io_seq (io_for (execute ops)
              ([CreateRecords, CreateCheckpoint, CreateOwned] @ map (\<lambda>(n, cols). CreateBaseIndex n cols) BASE_INDEXES))
       (io_seq (execute ops CreateView)
         (execute ops OwnedDeleteAll))"

definition reconcile_column ::
    "'k ops \<Rightarrow> pystr list \<Rightarrow> pystr \<Rightarrow> generated_column \<Rightarrow> ('k, unit) act" where
  "reconcile_column ops existing_columns stored_schema column =
     (if col_name column \<in> set existing_columns
      then lift_res (check_column_drift column stored_schema)
      else execute_migration_ddl ops (emit_add_column column))"

definition reconcile_index :: "'k ops \<Rightarrow> index_decl \<Rightarrow> ('k, unit) act" where
  "reconcile_index ops index =
     io_bind (existing_index_shape ops (ix_name index)) (\<lambda>existing_shape.
       case existing_shape of
         None \<Rightarrow> execute_migration_ddl ops (emit_create_index index)
       | Some shape \<Rightarrow>
           if shape \<noteq> (ix_columns index, ix_unique index) then io_raise ConfigError else io_ret ())"

definition reconcile_columns :: "'k ops \<Rightarrow> generated_column list \<Rightarrow> ('k, unit) act" where
  "reconcile_columns ops columns =
     io_bind (fetch ops TableXinfo table_xinfo) (\<lambda>xinfo_rows.
     io_seq (io_for (\<lambda>n. log_event (OrphanedColumn n))
       (orphans
         (map fst (filter (\<lambda>(n, hidden). hidden = HIDDEN_VIRTUAL \<or> hidden = HIDDEN_STORED) xinfo_rows))
         (map col_name columns)))
     (io_bind (fetch ops SelectStoredSchema stored_sql) (\<lambda>row.
       case row of
         None \<Rightarrow> io_raise (OtherError 0)
       | Some stored_schema \<Rightarrow>
           io_for (reconcile_column ops (map fst xinfo_rows) stored_schema) columns)))"

definition reconcile_indexes :: "'k ops \<Rightarrow> index_decl list \<Rightarrow> ('k, unit) act" where
  "reconcile_indexes ops indexes =
     io_bind (fetch ops IndexList index_list) (\<lambda>index_rows.
     io_seq (io_for (\<lambda>n. log_event (OrphanedIndex n))
       (orphans
         (filter (\<lambda>n. \<not> py_startswith (lit ''sqlite_autoindex'') n) (map fst index_rows))
         (map ix_name indexes @ BASE_INDEX_NAMES)))
       (io_for (reconcile_index ops) indexes))"

definition migrate ::
    "'k ops \<Rightarrow> generated_column list \<Rightarrow> index_decl list \<Rightarrow> ('k, unit) act" where
  "migrate ops columns indexes =
     io_seq (create_base_schema ops)
       (io_seq (reconcile_columns ops columns)
         (reconcile_indexes ops indexes))"


section \<open>What any migration keeps\<close>

context db_relation
begin

text \<open>A statement in autocommit mode.\<close>

lemma kept_execute:
  assumes "plain_stmt s" "\<And>d d'. stmt_effect (op_json ops) (op_ddl ops) s d = Inr d' \<Longrightarrow> R d d'"
  shows "keeps (settled R) (execute ops s)"
proof (rule keepsI)
  fix w r w' assume run: "execute ops s w = (r, w')"
  have "wp (execute ops s) (\<lambda>r w'. settled R w w') w"
    by (rule execute_rule)
      (auto simp: wp_def settled_def run_plain_stmt [OF assms(1)] R_refl end_rollback_def
        intro: assms(2) split: sum.split)
  from wpD [OF this run] show "settled R w w'" .
qed

lemma kept_fetch:
  assumes "plain_stmt s" "\<And>d d'. stmt_effect (op_json ops) (op_ddl ops) s d = Inr d' \<Longrightarrow> R d d'"
  shows "keeps (settled R) (fetch ops s f)"
  unfolding fetch_def by (intro kept kept_execute assms)

end

text \<open>Rows and checkpoints stay, and ownership is at most given up.\<close>

definition migration_frame :: "database \<Rightarrow> database \<Rightarrow> bool" where
  "migration_frame d d' \<longleftrightarrow> db_records d' = db_records d \<and> db_checkpoints d' = db_checkpoints d
     \<and> db_owned d' \<subseteq> db_owned d"

interpretation migration: db_relation migration_frame
  by unfold_locales (auto simp: migration_frame_def)

text \<open>The statements of a migration.\<close>

fun schema_stmt :: "stmt \<Rightarrow> bool" where
  "schema_stmt CreateRecords = True"
| "schema_stmt CreateCheckpoint = True"
| "schema_stmt CreateOwned = True"
| "schema_stmt (CreateBaseIndex _ _) = True"
| "schema_stmt CreateView = True"
| "schema_stmt OwnedDeleteAll = True"
| "schema_stmt TableXinfo = True"
| "schema_stmt SelectStoredSchema = True"
| "schema_stmt IndexList = True"
| "schema_stmt (IndexXinfo _) = True"
| "schema_stmt (MigrationDdl _) = True"
| "schema_stmt _ = False"

lemma schema_stmt_plain: "schema_stmt s \<Longrightarrow> plain_stmt s"
  by (cases s) auto

lemma schema_stmt_frame: "schema_stmt s \<Longrightarrow> stmt_effect json ddl s d = Inr d' \<Longrightarrow> migration_frame d d'"
  by (cases s) (auto simp: migration_frame_def create_records_def owned_delete_all_def
      split: option.splits sum.splits)

lemma base_statements:
  "list_all schema_stmt ([CreateRecords, CreateCheckpoint, CreateOwned]
     @ map (\<lambda>(n, cols). CreateBaseIndex n cols) BASE_INDEXES)"
  by (simp add: BASE_INDEXES_def)

lemma keeps_schema_stmt:
  "schema_stmt s \<Longrightarrow> keeps (settled migration_frame) (execute ops s)"
  "schema_stmt s \<Longrightarrow> keeps (settled migration_frame) (fetch ops s f)"
  by (blast intro: migration.kept_execute migration.kept_fetch schema_stmt_plain schema_stmt_frame)+

lemma schema_stmt_settled: "schema_stmt s \<Longrightarrow> stays_settled (execute ops s)"
  by (blast intro: anything.kept_execute schema_stmt_plain)

lemma keeps_for_members:
  "preorder_rel R \<Longrightarrow> list_all P xs \<Longrightarrow> (\<And>x. P x \<Longrightarrow> keeps R (f x)) \<Longrightarrow> keeps R (io_for f xs)"
  by (induction xs) (auto intro: preorder_rel.keeps_ret preorder_rel.keeps_bind)

lemma keeps_base_schema: "keeps (settled migration_frame) (create_base_schema ops)"
  unfolding create_base_schema_def
  by (rule migration.settled.keeps_bind keeps_schema_stmt(1)
      keeps_for_members [OF migration.settled.preorder_rel_axioms base_statements] schema_stmt.simps(5,6)
    | assumption | simp)+

lemma keeps_migration_ddl: "keeps (settled migration_frame) (execute_migration_ddl ops t)"
  unfolding execute_migration_ddl_def
  by (intro migration.kept keeps_schema_stmt) simp

lemma keeps_reconcile_columns: "keeps (settled migration_frame) (reconcile_columns ops columns)"
  unfolding reconcile_columns_def reconcile_column_def
  by (intro migration.kept keeps_schema_stmt keeps_migration_ddl)
    (auto intro!: migration.kept keeps_migration_ddl split: option.split)

lemma keeps_index_shape: "keeps (settled migration_frame) (existing_index_shape ops n)"
  unfolding existing_index_shape_def
  by (intro migration.kept keeps_schema_stmt)
    (auto intro!: migration.kept keeps_schema_stmt split: option.split)

lemma keeps_reconcile_indexes: "keeps (settled migration_frame) (reconcile_indexes ops indexes)"
  unfolding reconcile_indexes_def reconcile_index_def
  by (intro migration.kept keeps_schema_stmt keeps_index_shape)
    (auto intro!: migration.kept keeps_migration_ddl split: option.split)

text \<open>When the base schema was created, no partition is owned.\<close>

lemma delete_all_disowns: "success (execute ops OwnedDeleteAll) (\<lambda>_ w. db_owned (w_db w) = {})"
  unfolding triple_def
proof (intro allI impI)
  fix w :: "'a world" and x w' assume w: "w_saved w = None" and run: "execute ops OwnedDeleteAll w = (Ok x, w')"
  have "wp (execute ops OwnedDeleteAll) (\<lambda>r w'. \<forall>x. r = Ok x \<longrightarrow> w_saved w' = None \<and> db_owned (w_db w') = {}) w"
    by (rule execute_rule) (use w in \<open>auto simp: wp_def run_plain_stmt owned_delete_all_def\<close>)
  from wpD [OF this run] show "w_saved w' = None \<and> db_owned (w_db w') = {}" by simp
qed

lemma base_schema_disowns: "success (create_base_schema ops) (\<lambda>_ w. db_owned (w_db w) = {})"
  unfolding create_base_schema_def
  by (rule success_after [OF keeps_for_members [OF anything.settled.preorder_rel_axioms base_statements]],
      erule schema_stmt_settled, rule success_after [OF schema_stmt_settled], simp, rule delete_all_disowns)


lemma keeps_disowned:
  "keeps (settled migration_frame) m \<Longrightarrow>
   triple (\<lambda>w. db_owned (w_db w) = {}) m (\<lambda>_ w. db_owned (w_db w) = {})"
  by (fastforce simp: triple_def settled_def migration_frame_def dest: keepsD)

lemma migrate_disowns: "success (migrate ops columns indexes) (\<lambda>_ w. db_owned (w_db w) = {})"
  unfolding migrate_def
  by (rule triple_bind [OF base_schema_disowns], rule triple_bind, rule keeps_disowned [OF keeps_reconcile_columns],
      rule keeps_disowned [OF keeps_reconcile_indexes])

lemma keeps_migrate: "keeps (settled migration_frame) (migrate ops columns indexes)"
  unfolding migrate_def
  by (intro migration.settled.keeps_bind keeps_base_schema keeps_reconcile_columns keeps_reconcile_indexes)

section \<open>A migration whose statements run\<close>

definition obliging :: "'k ops \<Rightarrow> bool" where
  "obliging ops \<longleftrightarrow> (\<forall>s k. fst (op_verdict ops s k) = Runs)"

text \<open>From the tables \<open>d\<close> the operation returns \<open>x\<close>, leaves \<open>d'\<close> and logs \<open>es\<close>.\<close>

definition yields :: "('k, 'a) act \<Rightarrow> database \<Rightarrow> 'a \<Rightarrow> database \<Rightarrow> event list \<Rightarrow> bool" where
  "yields m d x d' es \<longleftrightarrow> (\<forall>w. \<not> w_query_only w \<longrightarrow> w_db w = d \<longrightarrow>
     (\<exists>k. m w = (Ok x, w\<lparr>w_env := k, w_db := d', w_log := w_log w @ es\<rparr>)))"

lemma yields_bind:
  assumes "yields m d x c es" "yields (f x) c y d' es'"
  shows "yields (io_bind m f) d y d' (es @ es')"
  unfolding yields_def
proof (intro allI impI)
  fix w :: "'a world" assume w: "\<not> w_query_only w" "w_db w = d"
  obtain k where k: "m w = (Ok x, w\<lparr>w_env := k, w_db := c, w_log := w_log w @ es\<rparr>)"
    using assms(1) w by (auto simp: yields_def)
  let ?v = "w\<lparr>w_env := k, w_db := c, w_log := w_log w @ es\<rparr>"
  obtain k' where "f x ?v = (Ok y, ?v\<lparr>w_env := k', w_db := d', w_log := w_log ?v @ es'\<rparr>)"
    using assms(2) [unfolded yields_def, rule_format, of ?v] w(1) by auto
  with k show "\<exists>k. io_bind m f w = (Ok y, w\<lparr>w_env := k, w_db := d', w_log := w_log w @ es @ es'\<rparr>)"
    by (auto simp: io_bind_def)
qed


lemma yields_seq:
  "yields m d x c es \<Longrightarrow> yields n c y d' es' \<Longrightarrow> yields (io_seq m n) d y d' (es @ es')"
  by (rule yields_bind)

lemma yields_after: "yields m d x c [] \<Longrightarrow> yields (f x) c y d' es \<Longrightarrow> yields (io_bind m f) d y d' es"
  using yields_bind [of m d x c "[]" f y d' es] by simp

lemma yields_pure:
  assumes "\<And>w. w_db w = d \<Longrightarrow> m w = (Ok x, w)"
  shows "yields m d x d []"
  unfolding yields_def
proof (intro allI impI)
  fix w :: "'a world" assume "w_db w = d"
  then have "m w = (Ok x, w\<lparr>w_env := w_env w, w_db := d, w_log := w_log w @ []\<rparr>)"
    by (auto simp: assms)
  then show "\<exists>k. m w = (Ok x, w\<lparr>w_env := k, w_db := d, w_log := w_log w @ []\<rparr>)" by blast
qed

lemma yields_ret: "yields (io_ret x) d x d []"
  by (rule yields_pure) (simp add: io_ret_def)

lemma yields_log: "yields (log_event e) d () d [e]"
  unfolding yields_def log_event_def io_modify_def
proof (intro allI impI)
  fix w :: "'a world" assume "w_db w = d"
  then have "(Ok (), w\<lparr>w_log := w_log w @ [e]\<rparr>) = (Ok (), w\<lparr>w_env := w_env w, w_db := d, w_log := w_log w @ [e]\<rparr>)"
    by auto
  then show "\<exists>k. (Ok (), w\<lparr>w_log := w_log w @ [e]\<rparr>) = (Ok (), w\<lparr>w_env := k, w_db := d, w_log := w_log w @ [e]\<rparr>)"
    by blast
qed

lemma yields_execute:
  assumes "obliging ops" "plain_stmt s" "stmt_effect (op_json ops) (op_ddl ops) s d = Inr d'"
  shows "yields (execute ops s) d () d' []"
  unfolding yields_def
proof (intro allI impI)
  fix w :: "'a world" assume w: "\<not> w_query_only w" "w_db w = d"
  obtain k where "op_verdict ops s (w_env w) = (Runs, k)"
    using assms(1) by (metis obliging_def prod.collapse)
  with w assms(2,3) have "execute ops s w = (Ok (), w\<lparr>w_env := k, w_db := d', w_log := w_log w @ []\<rparr>)"
    by (simp add: execute_def ask_def io_simps run_plain_stmt)
  then show "\<exists>k. execute ops s w = (Ok (), w\<lparr>w_env := k, w_db := d', w_log := w_log w @ []\<rparr>)" by blast
qed

lemma yields_gets: "yields (io_gets (f \<circ> w_db)) d (f d) d []"
  by (rule yields_pure) (simp add: io_gets_def)

lemma yields_fetch:
  assumes "obliging ops" "plain_stmt s" "\<not> writes s"
  shows "yields (fetch ops s f) d (f d) d []"
  using yields_seq [OF yields_execute [OF assms(1,2)] yields_gets, of d d f] assms(3)
  by (simp add: fetch_def not_writes_effect)

lemma yields_for:
  "list_all (\<lambda>x. yields (f x) d () d (g x)) xs \<Longrightarrow> yields (io_for f xs) d () d (concat (map g xs))"
  by (induction xs) (auto intro: yields_ret yields_bind)

lemma yields_for_all: "list_all (\<lambda>x. yields (f x) d () d []) xs \<Longrightarrow> yields (io_for f xs) d () d []"
  by (induction xs) (auto intro: yields_ret yields_after)

text \<open>
  A catalog that has everything a migration establishes: the base indexes, every declared
  column with its clause in the stored text, every declared index with its shape.
\<close>

definition index_shape :: "catalog_index \<Rightarrow> pystr list \<times> bool" where
  "index_shape i =
     (map (\<lambda>(seqno, name, key). name) (filter (\<lambda>(seqno, name, key). key) (sort_key fst (ci_xinfo i))), ci_unique i)"

definition has_column :: "catalog \<Rightarrow> generated_column \<Rightarrow> bool" where
  "has_column c column \<longleftrightarrow> col_name column \<in> fst ` set (cat_columns c)
     \<and> py_contains (render_column_clause column) (cat_sql c)"

definition has_index :: "catalog \<Rightarrow> index_decl \<Rightarrow> bool" where
  "has_index c index \<longleftrightarrow>
     map_option index_shape (find (\<lambda>i. ci_name i = ix_name index) (cat_indexes c))
       = Some (ix_columns index, ix_unique index)"

definition conforms :: "generated_column list \<Rightarrow> index_decl list \<Rightarrow> catalog \<Rightarrow> bool" where
  "conforms columns indexes c \<longleftrightarrow>
     list_all (\<lambda>n. list_ex (\<lambda>i. ci_name i = n) (cat_indexes c)) BASE_INDEX_NAMES
     \<and> list_all (has_column c) columns \<and> list_all (has_index c) indexes"

definition orphan_events :: "generated_column list \<Rightarrow> index_decl list \<Rightarrow> catalog \<Rightarrow> event list" where
  "orphan_events columns indexes c =
     map OrphanedColumn
       (orphans (map fst (filter (\<lambda>(n, h). h = HIDDEN_VIRTUAL \<or> h = HIDDEN_STORED) (cat_columns c)))
         (map col_name columns))
     @ map OrphanedIndex
       (orphans (filter (\<lambda>n. \<not> py_startswith (lit ''sqlite_autoindex'') n) (map ci_name (cat_indexes c)))
         (map ix_name indexes @ BASE_INDEX_NAMES))"

lemma yields_base_schema:
  assumes "obliging ops" "db_catalog d = Some c" "list_all (\<lambda>n. list_ex (\<lambda>i. ci_name i = n) (cat_indexes c)) BASE_INDEX_NAMES"
  shows "yields (create_base_schema ops) d () (owned_delete_all d) []"
proof -
  have base: "list_all (\<lambda>s. plain_stmt s \<and> stmt_effect (op_json ops) (op_ddl ops) s d = Inr d)
      ([CreateRecords, CreateCheckpoint, CreateOwned] @ map (\<lambda>(n, cols). CreateBaseIndex n cols) BASE_INDEXES)"
    using assms(2,3) by (auto simp: BASE_INDEXES_def BASE_INDEX_NAMES_def create_records_def create_base_index_def)
  have "yields (io_for (execute ops) ([CreateRecords, CreateCheckpoint, CreateOwned]
      @ map (\<lambda>(n, cols). CreateBaseIndex n cols) BASE_INDEXES)) d () d []"
    by (rule yields_for_all, rule list.pred_mono_strong [OF base]) (auto intro: yields_execute [OF assms(1)])
  then show ?thesis unfolding create_base_schema_def
    by (rule yields_after, intro yields_after [OF yields_execute [OF assms(1)]] yields_execute [OF assms(1)]) simp_all
qed

lemma find_map: "find P (map f xs) = map_option f (find (P \<circ> f) xs)"
  by (induction xs) auto

lemma yields_index_shape:
  assumes "obliging ops" "db_catalog d = Some c"
  shows "yields (existing_index_shape ops n) d (map_option index_shape (find (\<lambda>i. ci_name i = n) (cat_indexes c))) d []"
proof -
  have f: "find (\<lambda>r. fst r = n) (index_list d)
      = map_option (\<lambda>i. (ci_name i, ci_unique i)) (find (\<lambda>i. ci_name i = n) (cat_indexes c))"
    using assms(2) by (simp add: index_list_def find_map o_def)
  show ?thesis
    unfolding existing_index_shape_def
  proof (rule yields_after [OF yields_fetch [OF assms(1)]], simp, simp)
    show "yields (case find (\<lambda>r. fst r = n) (index_list d) of None \<Rightarrow> io_ret None
        | Some entry \<Rightarrow> io_bind (fetch ops (IndexXinfo n) (index_xinfo n)) (\<lambda>xinfo. io_ret (Some
               (map (\<lambda>(seqno, name, key). name) (filter (\<lambda>(seqno, name, key). key) (sort_key fst xinfo)), snd entry))))
        d (map_option index_shape (find (\<lambda>i. ci_name i = n) (cat_indexes c))) d []"
    proof (cases "find (\<lambda>i. ci_name i = n) (cat_indexes c)")
      case None
      then show ?thesis by (simp add: f yields_ret)
    next
      case (Some i)
      then have x: "index_xinfo n d = ci_xinfo i" using assms(2) by (simp add: index_xinfo_def)
      have "yields (io_bind (fetch ops (IndexXinfo n) (index_xinfo n)) (\<lambda>xinfo. io_ret (Some
               (map (\<lambda>(seqno, name, key). name) (filter (\<lambda>(seqno, name, key). key) (sort_key fst xinfo)), ci_unique i))))
          d (Some (index_shape i)) d []"
        by (rule yields_after [OF yields_fetch [OF assms(1)]]) (simp_all add: x index_shape_def yields_ret)
      then show ?thesis using Some by (simp add: f)
    qed
  qed
qed

lemma yields_lift: "r = Inr x \<Longrightarrow> yields (lift_res r) d x d []"
  by (simp add: lift_res_def yields_ret)

lemma yields_columns:
  assumes "obliging ops" "db_catalog d = Some c" "list_all (has_column c) columns"
  shows "yields (reconcile_columns ops columns) d () d
    (map OrphanedColumn (orphans (map fst (filter (\<lambda>(n, h). h = HIDDEN_VIRTUAL \<or> h = HIDDEN_STORED) (cat_columns c)))
         (map col_name columns)))"
proof -
  have x: "table_xinfo d = cat_columns c" "stored_sql d = Some (cat_sql c)"
    using assms(2) by (simp_all add: table_xinfo_def stored_sql_def)
  have "list_all (\<lambda>column. yields (reconcile_column ops (map fst (cat_columns c)) (cat_sql c) column) d () d []) columns"
    using assms(3)
    by (rule list.pred_mono_strong)
      (auto simp: has_column_def reconcile_column_def check_column_drift_def intro!: yields_lift)
  from yields_for_all [OF this]
  have "yields (io_bind (fetch ops SelectStoredSchema stored_sql) (\<lambda>row. case row of
         None \<Rightarrow> io_raise (OtherError 0)
       | Some s \<Rightarrow> io_for (reconcile_column ops (map fst (cat_columns c)) s) columns)) d () d []"
    by (intro yields_after [OF yields_fetch [OF assms(1)]]) (simp_all add: x)
  from yields_seq [OF yields_for [of "\<lambda>n. log_event (OrphanedColumn n)" d "\<lambda>n. [OrphanedColumn n]"] this]
  show ?thesis unfolding reconcile_columns_def
    by (intro yields_after [OF yields_fetch [OF assms(1)]]) (simp_all add: x yields_log list_all_iff concat_map_singleton)
qed

lemma yields_indexes:
  assumes "obliging ops" "db_catalog d = Some c" "list_all (has_index c) indexes"
  shows "yields (reconcile_indexes ops indexes) d () d
    (map OrphanedIndex
       (orphans (filter (\<lambda>n. \<not> py_startswith (lit ''sqlite_autoindex'') n) (map ci_name (cat_indexes c)))
         (map ix_name indexes @ BASE_INDEX_NAMES)))"
proof -
  have x: "map fst (index_list d) = map ci_name (cat_indexes c)"
    using assms(2) by (simp add: index_list_def o_def)
  have "list_all (\<lambda>index. yields (reconcile_index ops index) d () d []) indexes"
    using assms(3)
  proof (rule list.pred_mono_strong)
    fix index assume i: "has_index c index"
    show "yields (reconcile_index ops index) d () d []"
      unfolding reconcile_index_def
      by (rule yields_after [OF yields_index_shape [OF assms(1,2)]]) (use i in \<open>auto simp: has_index_def yields_ret\<close>)
  qed
  from yields_seq [OF yields_for [of "\<lambda>n. log_event (OrphanedIndex n)" d "\<lambda>n. [OrphanedIndex n]"] yields_for_all [OF this]]
  show ?thesis unfolding reconcile_indexes_def
    by (intro yields_after [OF yields_fetch [OF assms(1)]]) (simp_all add: x yields_log list_all_iff concat_map_singleton)
qed

lemma yields_migrate:
  assumes "obliging ops" "db_catalog d = Some c" "conforms columns indexes c"
  shows "yields (migrate ops columns indexes) d () (owned_delete_all d) (orphan_events columns indexes c)"
proof -
  have c: "db_catalog (owned_delete_all d) = Some c" using assms(2) by (simp add: owned_delete_all_def)
  show ?thesis unfolding migrate_def orphan_events_def
    by (rule yields_after [OF yields_base_schema [OF assms(1,2)]], use assms(3) in \<open>simp add: conforms_def\<close>,
        rule yields_seq [OF yields_columns [OF assms(1) c] yields_indexes [OF assms(1) c]])
      (use assms(3) in \<open>simp_all add: conforms_def\<close>)
qed

end
