(* ===== verification/Schema_Engine.thy ===== *)
theory Schema_Engine imports
  Schema_Migration
begin

text \<open>
  What a migration establishes. It relies on two statements of SQLite whose text it emits,
  \<^verbatim>\<open>ALTER TABLE ... ADD COLUMN\<close> and \<^verbatim>\<open>CREATE INDEX IF NOT EXISTS\<close>; what it relies on is the
  locale \<open>ddl_engine\<close>, interpreted on an engine that reads the emitted text the way
  SQLite stores it.
\<close>

section \<open>The contract of the two DDL statements\<close>

text \<open>A catalog that keeps everything another one has.\<close>

definition extends :: "catalog \<Rightarrow> catalog \<Rightarrow> bool" where
  "extends c c' \<longleftrightarrow> fst ` set (cat_columns c) \<subseteq> fst ` set (cat_columns c')
     \<and> (\<forall>column. py_contains (render_column_clause column) (cat_sql c)
          \<longrightarrow> py_contains (render_column_clause column) (cat_sql c'))
     \<and> (\<forall>n i. find (\<lambda>i. ci_name i = n) (cat_indexes c) = Some i
          \<longrightarrow> find (\<lambda>i. ci_name i = n) (cat_indexes c') = Some i)"

lemma extends_refl: "extends c c"
  by (simp add: extends_def)

lemma extends_trans: "extends a b \<Longrightarrow> extends b c \<Longrightarrow> extends a c"
  by (auto simp: extends_def dest!: subsetD)

lemma has_column_extends: "has_column c column \<Longrightarrow> extends c c' \<Longrightarrow> has_column c' column"
  unfolding has_column_def extends_def by blast

lemma has_index_extends: "has_index c index \<Longrightarrow> extends c c' \<Longrightarrow> has_index c' index"
  by (fastforce simp: has_index_def extends_def)

lemma names_extend:
  assumes "extends c c'" "list_ex (\<lambda>i. ci_name i = n) (cat_indexes c)"
  shows "list_ex (\<lambda>i. ci_name i = n) (cat_indexes c')"
proof -
  obtain i where "find (\<lambda>i. ci_name i = n) (cat_indexes c) = Some i"
    using assms(2) by (cases "find (\<lambda>i. ci_name i = n) (cat_indexes c)") (auto simp: find_None_iff list_ex_iff)
  then have "find (\<lambda>i. ci_name i = n) (cat_indexes c') = Some i" using assms(1) by (simp add: extends_def)
  then show ?thesis by (auto simp: list_ex_iff find_Some_iff)
qed

definition valid_index :: "index_decl \<Rightarrow> bool" where
  "valid_index index \<longleftrightarrow> identifier_fullmatch (ix_name index) \<and> list_all identifier_fullmatch (ix_columns index)"

locale ddl_engine =
  fixes ddl :: "pystr \<Rightarrow> catalog \<Rightarrow> exn + catalog"
  assumes add_column: "validate_generated_column column = Inr () \<Longrightarrow> ddl (emit_add_column column) c = Inr c' \<Longrightarrow>
      extends c c' \<and> has_column c' column"
    and create_index: "valid_index index \<Longrightarrow> ddl (emit_create_index index) c = Inr c' \<Longrightarrow>
      extends c c' \<and> (find (\<lambda>i. ci_name i = ix_name index) (cat_indexes c) = None \<longrightarrow> has_index c' index)"

section \<open>What a successful migration leaves\<close>

text \<open>The world's tables have a catalog with the property \<open>F\<close>.\<close>

definition holds :: "(catalog \<Rightarrow> bool) \<Rightarrow> 'k world \<Rightarrow> bool" where
  "holds F w \<longleftrightarrow> (\<exists>c. db_catalog (w_db w) = Some c \<and> F c)"

definition stable :: "(catalog \<Rightarrow> bool) \<Rightarrow> bool" where
  "stable F \<longleftrightarrow> (\<forall>c c'. F c \<longrightarrow> extends c c' \<longrightarrow> F c')"

lemma stable_facts:
  "stable (extends c)" "stable (\<lambda>c. has_column c column)" "stable (\<lambda>c. has_index c index)"
  "stable (\<lambda>c. list_all (\<lambda>n. list_ex (\<lambda>i. ci_name i = n) (cat_indexes c)) ns)"
  unfolding stable_def list_all_iff
  by (blast intro: extends_trans has_column_extends has_index_extends names_extend)+

lemma triple_execute:
  assumes "plain_stmt s"
    and "\<And>w d. P w \<Longrightarrow> stmt_effect (op_json ops) (op_ddl ops) s (w_db w) = Inr d \<Longrightarrow>
      (\<And>k. Q () (w\<lparr>w_env := k, w_db := d\<rparr>))"
  shows "triple P (execute ops s) Q"
  unfolding triple_def
proof (intro allI impI)
  fix w :: "'a world" and x w' assume w: "w_saved w = None" "P w" and run: "execute ops s w = (Ok x, w')"
  have "wp (execute ops s) (\<lambda>r w'. \<forall>x. r = Ok x \<longrightarrow> w_saved w' = None \<and> Q x w') w"
    by (rule execute_rule)
      (auto simp: wp_def run_plain_stmt [OF assms(1)] w intro: assms(2) [OF w(2)] split: sum.split)
  from wpD [OF this run] show "w_saved w' = None \<and> Q x w'" by simp
qed

lemma triple_fetch:
  assumes "plain_stmt s" "\<not> writes s"
  shows "triple (\<lambda>w. w_db w = d) (fetch ops s f) (\<lambda>x w. w_db w = d \<and> x = f d)"
  unfolding fetch_def
  by (rule triple_bind [OF triple_execute [OF assms(1), where Q = "\<lambda>_ w. w_db w = d"]])
    (use not_writes_effect [OF assms(2)] in \<open>auto simp: triple_def io_gets_def\<close>)


lemma triple_conj:
  "triple P m Q \<Longrightarrow> triple P' m Q' \<Longrightarrow> triple (\<lambda>w. P w \<and> P' w) m (\<lambda>x w. Q x w \<and> Q' x w)"
  unfolding triple_def by meson

lemma triple_post: "triple P m Q \<Longrightarrow> (\<And>x w. Q x w \<Longrightarrow> Q' x w) \<Longrightarrow> triple P m Q'"
  unfolding triple_def by meson

text \<open>A loop whose steps establish facts that the other steps keep.\<close>

lemma triple_for:
  assumes "list_all P xs"
    and "\<And>x. P x \<Longrightarrow> triple I (f x) (\<lambda>_ w. I w \<and> D x w)"
    and "\<And>x y. P y \<Longrightarrow> triple (D x) (f y) (\<lambda>_. D x)"
  shows "triple I (io_for f xs) (\<lambda>_ w. I w \<and> (\<forall>x\<in>set xs. D x w))"
  using assms(1)
proof (induction xs)
  case Nil
  then show ?case by (simp add: triple_ret)
next
  case (Cons x xs)
  have keep: "triple (D x) (io_for f xs) (\<lambda>_. D x)"
    using Cons.prems
  proof (induction xs)
    case (Cons y ys)
    then show ?case unfolding io_for.simps by (intro triple_bind [OF assms(3)]) auto
  qed (simp add: triple_ret)
  show ?case unfolding io_for.simps
    by (rule triple_bind [OF assms(2)], use Cons.prems in simp,
        rule triple_post [OF triple_conj [OF Cons.IH keep]]) (use Cons.prems in auto)
qed

text \<open>What only grows.\<close>

definition catalog_grows :: "database \<Rightarrow> database \<Rightarrow> bool" where
  "catalog_grows d d' \<longleftrightarrow> (\<forall>c. db_catalog d = Some c \<longrightarrow> (\<exists>c'. db_catalog d' = Some c' \<and> extends c c'))"

interpretation catalog: db_relation catalog_grows
  by unfold_locales (fastforce simp: catalog_grows_def intro: extends_refl extends_trans)+

lemma keeps_holds:
  assumes "keeps (settled catalog_grows) m" "stable F"
  shows "triple (holds F) m (\<lambda>_. holds F)"
  unfolding triple_def holds_def
proof (intro allI impI, elim exE conjE)
  fix w x w' c assume "w_saved w = None" "m w = (Ok x, w')" "db_catalog (w_db w) = Some c" "F c"
  with keepsD [OF assms(1) this(2)] assms(2)
  show "w_saved w' = None \<and> (\<exists>c. db_catalog (w_db w') = Some c \<and> F c)"
    unfolding settled_def catalog_grows_def stable_def by blast
qed

lemma find_SomeD: "find P xs = Some x \<Longrightarrow> x \<in> set xs \<and> P x"
  by (induction xs) (auto split: if_splits)

lemma extends_new_index:
  assumes "\<not> list_ex (\<lambda>i. ci_name i = ci_name e) (cat_indexes c)"
  shows "extends c (c\<lparr>cat_indexes := e # cat_indexes c\<rparr>)"
  using assms by (auto simp: extends_def list_ex_iff dest!: find_SomeD)

lemma schema_stmt_grows:
  "schema_stmt s \<Longrightarrow> (\<And>t. s \<noteq> MigrationDdl t) \<Longrightarrow> stmt_effect json ddl s d = Inr d' \<Longrightarrow> catalog_grows d d'"
proof (cases s)
  case (CreateBaseIndex n cols)
  have "extends c (create_base_index n cols c)" for c
    using extends_new_index [of "index_entry n cols False" c] extends_refl
    by (auto simp: create_base_index_def index_entry_def)
  then show ?thesis if "stmt_effect json ddl s d = Inr d'"
    using that CreateBaseIndex by (auto simp: catalog_grows_def)
qed (auto simp: catalog_grows_def create_records_def owned_delete_all_def intro: extends_refl split: option.splits)

lemma grows_schema_stmt:
  "schema_stmt s \<Longrightarrow> (\<And>t. s \<noteq> MigrationDdl t) \<Longrightarrow> keeps (settled catalog_grows) (execute ops s)"
  "schema_stmt s \<Longrightarrow> (\<And>t. s \<noteq> MigrationDdl t) \<Longrightarrow> keeps (settled catalog_grows) (fetch ops s f)"
  by (blast intro: catalog.kept_execute catalog.kept_fetch schema_stmt_plain schema_stmt_grows)+

definition shape_at :: "pystr \<Rightarrow> database \<Rightarrow> (pystr list \<times> bool) option" where
  "shape_at n d = Option.bind (db_catalog d) (\<lambda>c. map_option index_shape (find (\<lambda>i. ci_name i = n) (cat_indexes c)))"

lemma triple_catalog:
  "(\<And>d c. db_catalog d = Some c \<Longrightarrow> triple (\<lambda>w. w_db w = d) m Q) \<Longrightarrow> triple (holds (\<lambda>_. True)) m Q"
  unfolding triple_def holds_def by blast

lemma triple_logs: "triple (\<lambda>w. w_db w = d) (io_for (\<lambda>n. log_event (f n)) ns) (\<lambda>_ w. w_db w = d)"
proof (induction ns)
  case (Cons n ns)
  show ?case unfolding io_for.simps
    by (rule triple_bind [OF _ Cons.IH]) (auto simp: triple_def log_event_def io_modify_def)
qed (simp add: triple_ret)

lemma triple_given: "(b \<Longrightarrow> triple P m Q) \<Longrightarrow> triple (\<lambda>w. P w \<and> b) m Q"
  unfolding triple_def by blast

lemma success_index_shape:
  "triple (\<lambda>w. w_db w = d) (existing_index_shape ops n) (\<lambda>x w. w_db w = d \<and> x = shape_at n d)"
  unfolding existing_index_shape_def
proof (rule triple_bind [OF triple_fetch], simp, simp, rule triple_given)
  fix rows assume rows: "rows = index_list d"
  show "triple (\<lambda>w. w_db w = d) (case find (\<lambda>r. fst r = n) rows of None \<Rightarrow> io_ret None
      | Some entry \<Rightarrow> io_bind (fetch ops (IndexXinfo n) (index_xinfo n)) (\<lambda>xinfo. io_ret (Some
             (map (\<lambda>(seqno, name, key). name) (filter (\<lambda>(seqno, name, key). key) (sort_key fst xinfo)), snd entry))))
      (\<lambda>x w. w_db w = d \<and> x = shape_at n d)"
  proof (cases "find (\<lambda>r. fst r = n) rows")
    case None
    then show ?thesis unfolding rows
      by (cases "db_catalog d") (auto simp: triple_ret shape_at_def index_list_def find_map o_def)
  next
    case (Some entry)
    then obtain c i where i: "db_catalog d = Some c" "find (\<lambda>i. ci_name i = n) (cat_indexes c) = Some i"
      "entry = (ci_name i, ci_unique i)"
      by (cases "db_catalog d") (auto simp: rows index_list_def find_map o_def)
    show ?thesis unfolding Some option.case
      by (rule triple_bind [OF triple_fetch], simp, simp)
        (use i in \<open>auto simp: triple_ret shape_at_def index_shape_def index_xinfo_def\<close>)
  qed
qed


lemma base_names:
  "success (create_base_schema ops)
     (\<lambda>_. holds (\<lambda>c. list_all (\<lambda>n. list_ex (\<lambda>i. ci_name i = n) (cat_indexes c)) BASE_INDEX_NAMES))"
proof -
  let ?F = "\<lambda>c. list_all (\<lambda>n. list_ex (\<lambda>i. ci_name i = n) (cat_indexes c)) BASE_INDEX_NAMES"
  let ?G = "\<lambda>c. list_ex (\<lambda>i. ci_name i = lit ''ix_records_tp'') (cat_indexes c)"
  have g: "stable ?G" using stable_facts(4) [of "[lit ''ix_records_tp'']"] by simp
  have keep: "triple (holds F) (execute ops s) (\<lambda>_. holds F)"
    if "stable F" "schema_stmt s" "\<And>t. s \<noteq> MigrationDdl t" for F s
    by (rule keeps_holds [OF grows_schema_stmt(1)]) (use that in auto)
  have any: "success (execute ops CreateRecords) (\<lambda>_. holds (\<lambda>_. True))"
    by (rule triple_execute) (auto simp: holds_def create_records_def split: option.splits)
  have tp: "triple (holds (\<lambda>_. True)) (execute ops (CreateBaseIndex (lit ''ix_records_tp'')
      [lit ''source_topic'', lit ''source_partition''])) (\<lambda>_. holds ?G)"
    by (rule triple_execute) (auto simp: holds_def create_base_index_def index_entry_def)
  have key: "triple (holds ?G) (execute ops (CreateBaseIndex (lit ''ix_records_key'') [lit ''entity_key'']))
      (\<lambda>_. holds ?F)"
    by (rule triple_execute) (auto simp: holds_def create_base_index_def index_entry_def BASE_INDEX_NAMES_def)
  have "stable (\<lambda>_. True)" by (simp add: stable_def)
  note keep = keep [OF this] keep [OF stable_facts(4)]
  show ?thesis
    unfolding create_base_schema_def BASE_INDEXES_def list.map prod.case append_Cons append_Nil io_for.simps
      io_bind_assoc io_bind_ret
    by (rule triple_bind [OF any], rule triple_bind [OF keep(1)], simp, simp, rule triple_bind [OF keep(1)], simp, simp,
        rule triple_bind [OF tp], rule triple_bind [OF key], rule triple_bind [OF keep(2)], simp, simp, rule keep(2)) simp_all
qed

lemma triple_catch_raise:
  assumes "triple P m Q"
  shows "triple P (io_catch m (\<lambda>e. io_raise (g e))) Q"
  unfolding triple_def
proof (intro allI impI)
  fix w x w' assume w: "w_saved w = None" "P w" "io_catch m (\<lambda>e. io_raise (g e)) w = (Ok x, w')"
  then have "m w = (Ok x, w')" by (auto simp: io_catch_def io_raise_def split: prod.splits res.splits)
  with tripleD [OF assms w(1,2)] show "w_saved w' = None \<and> Q x w'" .
qed

context ddl_engine
begin

lemma grows_ddl:
  assumes "op_ddl ops = ddl" "\<And>c c'. ddl t c = Inr c' \<Longrightarrow> extends c c'"
  shows "keeps (settled catalog_grows) (execute_migration_ddl ops t)"
  unfolding execute_migration_ddl_def
  by (intro catalog.kept catalog.kept_execute)
    (use assms in \<open>auto simp: catalog_grows_def split: option.splits sum.splits\<close>)

lemma ddl_success:
  assumes "op_ddl ops = ddl" "\<And>c c'. P c \<Longrightarrow> ddl t c = Inr c' \<Longrightarrow> F c'"
  shows "triple (holds P) (execute_migration_ddl ops t) (\<lambda>_. holds F)"
proof -
  have "triple (holds P) (execute ops (MigrationDdl t)) (\<lambda>_. holds F)"
    by (rule triple_execute) (use assms in \<open>auto simp: holds_def split: option.splits sum.splits\<close>)
  then have "triple (holds P) (io_catch (execute ops (MigrationDdl t))
         (\<lambda>e. io_raise (if is_sqlite_error e then SchemaMigrationError (Some e) else e))) (\<lambda>_. holds F)"
    by (rule triple_catch_raise)
  then show ?thesis
    unfolding execute_migration_ddl_def
    by (rule triple_bind) (auto simp: triple_def log_event_def io_modify_def holds_def)
qed

lemma grows_column:
  assumes "op_ddl ops = ddl" "validate_generated_column column = Inr ()"
  shows "keeps (settled catalog_grows) (reconcile_column ops names s column)"
  unfolding reconcile_column_def
  by (intro catalog.kept grows_ddl [OF assms(1)]) (use add_column [OF assms(2)] in blast)

lemma success_reconcile_column:
  assumes "op_ddl ops = ddl" "validate_generated_column column = Inr ()"
  shows "triple (holds (extends c)) (reconcile_column ops (map fst (cat_columns c)) (cat_sql c) column)
    (\<lambda>_ w. holds (extends c) w \<and> holds (\<lambda>c. has_column c column) w)"
proof (cases "col_name column \<in> set (map fst (cat_columns c))")
  case True
  show ?thesis
  proof (cases "py_contains (render_column_clause column) (cat_sql c)")
    case inside: True
    then have "has_column c column" using True by (simp add: has_column_def)
    then have "has_column c' column" if "extends c c'" for c'
      using that by (rule has_column_extends)
    then show ?thesis using True inside
      by (auto simp: reconcile_column_def check_column_drift_def lift_res_def triple_ret holds_def)
  qed (use True in \<open>simp add: reconcile_column_def check_column_drift_def lift_res_def\<close>)
next
  case False
  have "triple (holds (extends c)) (execute_migration_ddl ops (emit_add_column column))
      (\<lambda>_. holds (\<lambda>c'. extends c c' \<and> has_column c' column))"
    by (rule ddl_success [OF assms(1)]) (use add_column [OF assms(2)] in \<open>blast intro: extends_trans\<close>)
  then show ?thesis using False
    by (auto simp: reconcile_column_def holds_def elim!: triple_post)
qed

lemma success_columns:
  assumes "op_ddl ops = ddl" "list_all (\<lambda>column. validate_generated_column column = Inr ()) columns"
  shows "triple (holds (\<lambda>_. True)) (reconcile_columns ops columns)
    (\<lambda>_ w. \<forall>column\<in>set columns. holds (\<lambda>c. has_column c column) w)"
proof -
  have at: "triple (\<lambda>w. w_db w = d) (reconcile_columns ops columns)
      (\<lambda>_ w. \<forall>column\<in>set columns. holds (\<lambda>c. has_column c column) w)" if d: "db_catalog d = Some c" for d c
  proof -
    have loop: "triple (holds (extends c)) (io_for (reconcile_column ops (map fst (cat_columns c)) (cat_sql c)) columns)
        (\<lambda>_ w. holds (extends c) w \<and> (\<forall>column\<in>set columns. holds (\<lambda>c. has_column c column) w))"
      by (rule triple_for [OF assms(2)], rule success_reconcile_column [OF assms(1)], assumption,
          rule keeps_holds [OF grows_column [OF assms(1)] stable_facts(2)])
    have logs: "triple (\<lambda>w. w_db w = d) (io_for (\<lambda>n. log_event (OrphanedColumn n)) ns) (\<lambda>_ w. w_db w = d)" for ns
      by (rule triple_logs)
    have x: "stored_sql d = Some (cat_sql c)" "table_xinfo d = cat_columns c"
      using d by (simp_all add: stored_sql_def table_xinfo_def)
    show ?thesis unfolding reconcile_columns_def
    proof (rule triple_bind [OF triple_fetch], simp, simp, rule triple_given, rule triple_bind [OF logs],
        rule triple_bind [OF triple_fetch], simp, simp, rule triple_given)
      fix rows row assume r: "rows = table_xinfo d" "row = stored_sql d"
      show "triple (\<lambda>w. w_db w = d) (case row of None \<Rightarrow> io_raise (OtherError 0)
          | Some s \<Rightarrow> io_for (reconcile_column ops (map fst rows) s) columns)
          (\<lambda>_ w. \<forall>column\<in>set columns. holds (\<lambda>c. has_column c column) w)"
        unfolding r x option.case
        by (rule triple_post [OF triple_pre [OF loop]]) (use d in \<open>auto simp: holds_def intro: extends_refl\<close>)
    qed
  qed
  show ?thesis by (rule triple_catalog) (rule at)
qed

lemma grows_index:
  assumes "op_ddl ops = ddl" "valid_index index"
  shows "keeps (settled catalog_grows) (reconcile_index ops index)"
  unfolding reconcile_index_def existing_index_shape_def
  by (intro catalog.kept grows_schema_stmt)
    (auto intro!: catalog.kept grows_schema_stmt grows_ddl [OF assms(1)] dest: create_index [OF assms(2)]
      split: option.split)

lemma success_reconcile_index:
  assumes "op_ddl ops = ddl" "valid_index index"
  shows "triple (holds (\<lambda>_. True)) (reconcile_index ops index) (\<lambda>_. holds (\<lambda>c. has_index c index))"
proof -
  have at: "triple (\<lambda>w. w_db w = d) (reconcile_index ops index) (\<lambda>_. holds (\<lambda>c. has_index c index))"
    if d: "db_catalog d = Some c" for d c
    unfolding reconcile_index_def
  proof (rule triple_bind [OF success_index_shape], rule triple_given)
    fix x assume x: "x = shape_at (ix_name index) d"
    show "triple (\<lambda>w. w_db w = d) (case x of None \<Rightarrow> execute_migration_ddl ops (emit_create_index index)
        | Some shape \<Rightarrow> if shape \<noteq> (ix_columns index, ix_unique index) then io_raise ConfigError else io_ret ())
        (\<lambda>_. holds (\<lambda>c. has_index c index))"
    proof (cases x)
      case None
      then have f: "find (\<lambda>i. ci_name i = ix_name index) (cat_indexes c) = None"
        using x d by (simp add: shape_at_def)
      have "triple (holds (\<lambda>c'. c' = c)) (execute_migration_ddl ops (emit_create_index index))
          (\<lambda>_. holds (\<lambda>c. has_index c index))"
        by (rule ddl_success [OF assms(1)]) (use create_index [OF assms(2)] f in blast)
      then show ?thesis unfolding None option.case by (rule triple_pre) (use d in \<open>auto simp: holds_def\<close>)
    next
      case (Some shape)
      then show ?thesis using x d
        by (auto simp: triple_ret holds_def has_index_def shape_at_def)
    qed
  qed
  show ?thesis by (rule triple_catalog) (rule at)
qed

lemma grows_reconcile:
  assumes "op_ddl ops = ddl"
  shows "list_all (\<lambda>column. validate_generated_column column = Inr ()) columns \<Longrightarrow>
      keeps (settled catalog_grows) (reconcile_columns ops columns)"
    and "list_all valid_index indexes \<Longrightarrow> keeps (settled catalog_grows) (reconcile_indexes ops indexes)"
proof -
  note loop = keeps_for_members [OF catalog.settled.preorder_rel_axioms]
  show "keeps (settled catalog_grows) (reconcile_columns ops columns)"
    if v: "list_all (\<lambda>column. validate_generated_column column = Inr ()) columns"
    unfolding reconcile_columns_def
    by (intro catalog.kept grows_schema_stmt)
      (auto intro!: catalog.kept loop [OF v] grows_column [OF assms] split: option.split)
  show "keeps (settled catalog_grows) (reconcile_indexes ops indexes)" if v: "list_all valid_index indexes"
    unfolding reconcile_indexes_def
    by (intro catalog.settled.keeps_bind grows_schema_stmt)
      (auto intro!: catalog.kept loop [OF v] grows_index [OF assms])
qed

lemma success_indexes:
  assumes "op_ddl ops = ddl" "list_all valid_index indexes"
  shows "triple (holds (\<lambda>_. True)) (reconcile_indexes ops indexes)
    (\<lambda>_ w. \<forall>index\<in>set indexes. holds (\<lambda>c. has_index c index) w)"
proof -
  have true: "stable (\<lambda>_. True)" by (simp add: stable_def)
  have step: "triple (holds (\<lambda>_. True)) (reconcile_index ops index)
      (\<lambda>_ w. holds (\<lambda>_. True) w \<and> holds (\<lambda>c. has_index c index) w)" if "valid_index index" for index
    by (rule triple_post [OF success_reconcile_index [OF assms(1) that]]) (auto simp: holds_def)
  have loop: "triple (holds (\<lambda>_. True)) (io_for (reconcile_index ops) indexes)
      (\<lambda>_ w. \<forall>index\<in>set indexes. holds (\<lambda>c. has_index c index) w)"
    by (rule triple_post [OF triple_for [OF assms(2) step]], assumption,
        rule keeps_holds [OF grows_index [OF assms(1)] stable_facts(3)]) auto
  have logs: "keeps (settled catalog_grows) (io_for (\<lambda>n. log_event (OrphanedIndex n)) ns)" for ns
    by (intro catalog.kept)
  show ?thesis unfolding reconcile_indexes_def
    by (rule triple_bind [OF keeps_holds [OF grows_schema_stmt(2) true]], simp, simp,
        rule triple_bind [OF keeps_holds [OF logs true]], rule loop)
qed

lemma success_migrate:
  assumes "op_ddl ops = ddl" "list_all (\<lambda>column. validate_generated_column column = Inr ()) columns"
    "list_all valid_index indexes"
  shows "success (migrate ops columns indexes) (\<lambda>_. holds (conforms columns indexes))"
proof -
  let ?F = "\<lambda>c. list_all (\<lambda>n. list_ex (\<lambda>i. ci_name i = n) (cat_indexes c)) BASE_INDEX_NAMES"
  let ?C = "\<lambda>c. list_all (has_column c) columns"
  have any: "holds F w \<Longrightarrow> holds (\<lambda>_. True) w" for F and w :: "'a world"
    by (auto simp: holds_def)
  have both: "holds (\<lambda>c. F c \<and> G c) w \<longleftrightarrow> holds F w \<and> holds G w" for F G and w :: "'a world"
    by (auto simp: holds_def)
  have all: "holds (\<lambda>c. list_all (P c) xs) w \<longleftrightarrow> holds (\<lambda>_. True) w \<and> (\<forall>x\<in>set xs. holds (\<lambda>c. P c x) w)"
    for P :: "catalog \<Rightarrow> 'b \<Rightarrow> bool" and xs and w :: "'a world"
    by (auto simp: holds_def list_all_iff)
  have F: "stable ?F" by (rule stable_facts)
  have C: "stable ?C" unfolding stable_def list_all_iff by (blast intro: has_column_extends)
  note cols = grows_reconcile(1) [OF assms(1,2)] and ixs = grows_reconcile(2) [OF assms(1,3)]
  have 1: "triple (holds ?F) (reconcile_columns ops columns) (\<lambda>_ w. holds ?F w \<and> holds ?C w)"
    by (rule triple_post [OF triple_pre [OF triple_conj [OF keeps_holds [OF cols F] success_columns [OF assms(1,2)]]]])
      (auto simp: all intro: any)
  have 2: "triple (\<lambda>w. holds ?F w \<and> holds ?C w) (reconcile_indexes ops indexes)
      (\<lambda>_. holds (conforms columns indexes))"
    by (rule triple_post [OF triple_pre [OF triple_conj [OF triple_conj [OF keeps_holds [OF ixs F] keeps_holds [OF ixs C]]
            success_indexes [OF assms(1,3)]]]])
      (auto simp: all both conforms_def [abs_def] intro: any)
  show ?thesis unfolding migrate_def
    by (rule triple_bind [OF base_names], rule triple_bind [OF 1], rule 2)
qed

end


section \<open>An engine\<close>

text \<open>
  How SQLite executes the two statements, on the texts the program emits: \<^verbatim>\<open>ADD COLUMN\<close>
  refuses a known column and inserts the column text before the closing parenthesis of the
  stored \<^verbatim>\<open>CREATE TABLE\<close>; \<^verbatim>\<open>CREATE INDEX IF NOT EXISTS\<close> leaves a known name alone, refuses
  unknown columns, and lists the index first.
\<close>

definition strip :: "pystr \<Rightarrow> pystr \<Rightarrow> pystr option" where
  "strip p s = (if take (length p) s = p then Some (drop (length p) s) else None)"

lemma strip_iff: "strip p s = Some r \<longleftrightarrow> s = p @ r"
  by (auto simp: strip_def) (metis append_take_drop_id)

lemma strip_append [simp]: "strip p (p @ r) = Some r"
  by (simp add: strip_iff)

lemma strip_none: "strip p s = None \<longleftrightarrow> (\<forall>r. s \<noteq> p @ r)"
  by (metis not_None_eq strip_iff)

fun split_on :: "nat \<Rightarrow> pystr \<Rightarrow> pystr list" where
  "split_on sep [] = [[]]"
| "split_on sep (c # s) =
     (if c = sep then [] # split_on sep s
      else case split_on sep s of [] \<Rightarrow> [[c]] | n # ns \<Rightarrow> (c # n) # ns)"

lemma split_on_none: "sep \<notin> set s \<Longrightarrow> split_on sep s = [s]"
  by (induction s) auto

lemma split_on_append: "sep \<notin> set s \<Longrightarrow> split_on sep (s @ sep # r) = s # split_on sep r"
  by (induction s) auto

lemma split_on_join:
  "ns \<noteq> [] \<Longrightarrow> \<forall>n\<in>set ns. sep \<notin> set n \<Longrightarrow> split_on sep (py_join [sep] ns) = ns"
  by (induction "[sep]" ns rule: py_join.induct) (auto simp: split_on_none split_on_append)

lemma join_filter:
  "\<forall>n\<in>set ns. 32 \<notin> set n \<Longrightarrow> filter (\<lambda>c. c \<noteq> 32) (py_join [44, 32] ns) = py_join [44] ns"
proof (induction "[44::nat, 32]" ns rule: py_join.induct)
  case (3 x y xs)
  have "filter (\<lambda>c. c \<noteq> 32) x = x" using "3.prems" by (auto simp: filter_id_conv)
  with 3 show ?case by simp
qed (auto simp: filter_id_conv)

definition alter_add_column :: "pystr \<Rightarrow> catalog \<Rightarrow> exn + catalog" where
  "alter_add_column clause c =
     (let name = takeWhile (\<lambda>x. x \<noteq> 32) clause in
      if name \<in> fst ` set (cat_columns c)
      then Inl (SqliteError True (lit ''duplicate column name: '' @ name))
      else if cat_sql c = [] \<or> last (cat_sql c) \<noteq> 41
      then Inl (SqliteError False (lit ''malformed database schema''))
      else Inr (c\<lparr>cat_sql := butlast (cat_sql c) @ lit '', '' @ clause @ [41],
                  cat_columns := cat_columns c @ [(name, HIDDEN_VIRTUAL)]\<rparr>))"

definition create_index_on :: "pystr \<Rightarrow> pystr list \<Rightarrow> bool \<Rightarrow> catalog \<Rightarrow> exn + catalog" where
  "create_index_on name columns u c =
     (if list_ex (\<lambda>i. ci_name i = name) (cat_indexes c) then Inr c
      else if list_all (\<lambda>x. x \<in> fst ` set (cat_columns c)) columns
      then Inr (c\<lparr>cat_indexes := index_entry name columns u # cat_indexes c\<rparr>)
      else Inl (SqliteError True (lit ''no such column'')))"

definition syntax_error :: exn where
  "syntax_error = SqliteError True (lit ''syntax error'')"

definition parse_index :: "bool \<Rightarrow> pystr \<Rightarrow> catalog \<Rightarrow> exn + catalog" where
  "parse_index u rest c =
     (let name = takeWhile (\<lambda>x. x \<noteq> 32) rest in
      case strip (lit '' ON _records ('') (dropWhile (\<lambda>x. x \<noteq> 32) rest) of
        None \<Rightarrow> Inl syntax_error
      | Some body \<Rightarrow>
          let names = takeWhile (\<lambda>x. x \<noteq> 41) body in
          if names = [] then Inl syntax_error
          else create_index_on name (split_on 44 (filter (\<lambda>x. x \<noteq> 32) names)) u c)"

definition sqlite_ddl :: "pystr \<Rightarrow> catalog \<Rightarrow> exn + catalog" where
  "sqlite_ddl sql c =
     (case strip (lit ''ALTER TABLE _records ADD COLUMN '') sql of
        Some clause \<Rightarrow> alter_add_column clause c
      | None \<Rightarrow>
     (case strip (lit ''CREATE INDEX IF NOT EXISTS '') sql of
        Some rest \<Rightarrow> parse_index False rest c
      | None \<Rightarrow>
     (case strip (lit ''CREATE UNIQUE INDEX IF NOT EXISTS '') sql of
        Some rest \<Rightarrow> parse_index True rest c
      | None \<Rightarrow> Inl syntax_error)))"

lemma identifier_chars:
  "identifier_fullmatch n \<Longrightarrow> n \<noteq> [] \<and> 32 \<notin> set n \<and> 44 \<notin> set n \<and> 41 \<notin> set n"
  by (cases n) (auto simp: ident_start_def ident_char_def list_all_iff)

lemma ddl_add_column:
  assumes "validate_generated_column column = Inr ()"
  shows "sqlite_ddl (emit_add_column column) c = alter_add_column (render_column_clause column) c"
  by (simp add: sqlite_ddl_def emit_add_column_def)

lemma validated_name: "validate_generated_column column = Inr () \<Longrightarrow> identifier_fullmatch (col_name column)"
  by (auto simp: validate_generated_column_def validate_identifier_def split: if_splits)

lemma clause_name:
  assumes "validate_generated_column column = Inr ()"
  shows "takeWhile (\<lambda>x. x \<noteq> 32) (render_column_clause column) = col_name column"
proof -
  have "32 \<notin> set (col_name column)" using identifier_chars [OF validated_name [OF assms]] by blast
  then have "takeWhile (\<lambda>x. x \<noteq> 32) (col_name column @ 32 # r) = col_name column" for r
    by (subst takeWhile_append2) auto
  then show ?thesis by (simp add: render_column_clause_def lit_def)
qed

lemma join_chars: "x \<in> set (py_join sep ns) \<Longrightarrow> x \<in> set sep \<or> (\<exists>n\<in>set ns. x \<in> set n)"
  by (induction sep ns rule: py_join.induct) auto

lemma join_nonempty: "ns \<noteq> [] \<Longrightarrow> \<forall>n\<in>set ns. n \<noteq> [] \<Longrightarrow> py_join sep ns \<noteq> []"
  by (induction sep ns rule: py_join.induct) auto

lemma parse_emitted:
  assumes "valid_index index"
  shows "parse_index u (ix_name index @ lit '' ON _records ('' @ py_join (lit '', '') (ix_columns index) @ lit '')'') c =
    (if ix_columns index = [] then Inl syntax_error
     else create_index_on (ix_name index) (ix_columns index) u c)"
proof -
  have name: "32 \<notin> set (ix_name index)"
    using assms identifier_chars unfolding valid_index_def by blast
  have cols: "\<forall>n\<in>set (ix_columns index). n \<noteq> [] \<and> 32 \<notin> set n \<and> 44 \<notin> set n \<and> 41 \<notin> set n"
    using assms identifier_chars unfolding valid_index_def list_all_iff by blast
  let ?J = "py_join [44, 32] (ix_columns index)"
  have "41 \<notin> set ?J" using cols join_chars [of 41 "[44, 32]" "ix_columns index"] by auto
  then have body: "takeWhile (\<lambda>x. x \<noteq> 41) (?J @ [41]) = ?J"
    by (subst takeWhile_append2) auto
  have head: "takeWhile (\<lambda>x. x \<noteq> 32) (ix_name index @ 32 # r) = ix_name index"
    "dropWhile (\<lambda>x. x \<noteq> 32) (ix_name index @ 32 # r) = 32 # r" for r
    using name by (auto simp: takeWhile_tail dropWhile_append3)
  have on: "lit '' ON _records ('' @ r = 32 # tl (lit '' ON _records ('') @ r" for r by (simp add: lit_def)
  have sep: "lit '', '' = [44, 32]" "lit '')'' = [41]" by (simp_all add: lit_def)
  have names: "split_on 44 (filter (\<lambda>x. x \<noteq> 32) ?J) = ix_columns index" if "ix_columns index \<noteq> []"
    using that cols by (simp add: join_filter split_on_join)
  have "parse_index u (ix_name index @ lit '' ON _records ('' @ ?J @ [41]) c =
      (if ?J = [] then Inl syntax_error
       else create_index_on (ix_name index) (split_on 44 (filter (\<lambda>x. x \<noteq> 32) ?J)) u c)"
    unfolding parse_index_def Let_def on head by (simp only: on [symmetric] strip_append option.case body)
  then show ?thesis
    unfolding sep using join_nonempty [of "ix_columns index" "[44, 32]"] cols names by auto
qed

lemma ddl_create_index:
  assumes "valid_index index"
  shows "sqlite_ddl (emit_create_index index) c =
    (if ix_columns index = [] then Inl syntax_error
     else create_index_on (ix_name index) (ix_columns index) (ix_unique index) c)"
proof -
  let ?r = "ix_name index @ lit '' ON _records ('' @ py_join (lit '', '') (ix_columns index) @ lit '')''"
  have e: "emit_create_index index =
      (if ix_unique index then lit ''CREATE UNIQUE INDEX IF NOT EXISTS '' else lit ''CREATE INDEX IF NOT EXISTS '') @ ?r"
    by (simp add: emit_create_index_def lit_def)
  have no: "strip (lit ''ALTER TABLE _records ADD COLUMN '') (emit_create_index index) = None"
    "ix_unique index \<Longrightarrow> strip (lit ''CREATE INDEX IF NOT EXISTS '') (emit_create_index index) = None"
    by (simp_all add: strip_none emit_create_index_def lit_def)
  show ?thesis
  proof (cases "ix_unique index")
    case True
    then show ?thesis using no parse_emitted [OF assms, of True c]
      unfolding sqlite_ddl_def by (simp only: e if_True option.case strip_append)
  next
    case False
    then show ?thesis using no(1) parse_emitted [OF assms, of False c]
      unfolding sqlite_ddl_def by (simp only: e if_False option.case strip_append)
  qed
qed

lemma contains_insert:
  assumes "py_contains t (a @ [41])" "t \<noteq> []" "last t \<noteq> 41"
  shows "py_contains t (a @ r)"
proof -
  obtain x y where xy: "a @ [41] = x @ t @ y" using assms(1) by (auto simp: py_contains_iff)
  have "y \<noteq> []"
    using xy assms(2,3) by (metis append_Nil2 last_append last_snoc append_is_Nil_conv)
  then have "a = x @ t @ butlast y" using xy by (metis butlast_append butlast_snoc append_is_Nil_conv)
  then show ?thesis by (auto simp: py_contains_iff)
qed

lemma clause_last: "render_column_clause column \<noteq> [] \<and> last (render_column_clause column) \<noteq> 41"
  by (simp add: render_column_clause_def lit_def)

lemma index_shape_entry: "index_shape (index_entry n cols u) = (cols, u)"
proof -
  let ?z = "zip (map int [0..<length cols]) (map (\<lambda>c. (c, True)) cols)"
  have "sorted (map fst ?z)" by (simp add: map_fst_zip sorted_map mono_iff_le_Suc strict_mono_leD)
  then have "sort_key fst ?z = ?z" by (rule sort_key_id_if_sorted)
  moreover have "filter (\<lambda>(seqno, name, key). key) ?z = ?z"
    by (rule filter_True) (auto simp: set_zip)
  moreover have "map (\<lambda>(seqno, name, key). name) ?z = cols"
    by (rule nth_equalityI) auto
  ultimately show ?thesis by (simp only: index_shape_def index_entry_def catalog_index.simps)
qed

interpretation sqlite: ddl_engine sqlite_ddl
proof unfold_locales
  fix column c c'
  assume v: "validate_generated_column column = Inr ()" and ok: "sqlite_ddl (emit_add_column column) c = Inr c'"
  let ?clause = "render_column_clause column"
  have c': "cat_sql c \<noteq> []" "last (cat_sql c) = 41" "col_name column \<notin> fst ` set (cat_columns c)"
    "c' = c\<lparr>cat_sql := butlast (cat_sql c) @ lit '', '' @ ?clause @ [41],
            cat_columns := cat_columns c @ [(col_name column, HIDDEN_VIRTUAL)]\<rparr>"
    using ok by (auto simp: ddl_add_column [OF v] alter_add_column_def clause_name [OF v] Let_def split: if_splits)
  have sql: "cat_sql c = butlast (cat_sql c) @ [41]" using c'(1,2) by (metis append_butlast_last_id)
  have "py_contains (render_column_clause x) (cat_sql c')" if "py_contains (render_column_clause x) (cat_sql c)" for x
    using contains_insert [of "render_column_clause x" "butlast (cat_sql c)"] that clause_last [of x] sql c'(4)
    by simp
  moreover have "cat_sql c' = (butlast (cat_sql c) @ lit '', '') @ ?clause @ [41]" by (simp add: c'(4))
  then have "py_contains ?clause (cat_sql c')" unfolding py_contains_iff by blast
  ultimately show "extends c c' \<and> has_column c' column"
    by (auto simp: extends_def has_column_def c'(4))
next
  fix index c c'
  assume v: "valid_index index" and ok: "sqlite_ddl (emit_create_index index) c = Inr c'"
  let ?e = "index_entry (ix_name index) (ix_columns index) (ix_unique index)"
  have c': "c' = (if list_ex (\<lambda>i. ci_name i = ix_name index) (cat_indexes c) then c
      else c\<lparr>cat_indexes := ?e # cat_indexes c\<rparr>)"
    using ok by (auto simp: ddl_create_index [OF v] create_index_on_def split: if_splits)
  have "ci_name ?e = ix_name index" by (simp add: index_entry_def)
  then show "extends c c' \<and> (find (\<lambda>i. ci_name i = ix_name index) (cat_indexes c) = None \<longrightarrow> has_index c' index)"
    using extends_new_index [of ?e c]
    by (auto simp: c' extends_refl has_index_def index_shape_entry find_None_iff list_ex_iff)
qed


section \<open>Properties\<close>

text \<open>
  C24. A migration never loses data: whatever the engine and the scheduler do to its statements,
  and whether it returns or raises, every row and every checkpoint is as before and no
  partition is revealed; when it returns, no partition is owned, so nothing is visible
  until a rebalance assigns it.
\<close>

theorem migration_keeps_data:
  assumes "w_saved w = None"
  shows "case migrate ops columns indexes w of (r, w') \<Rightarrow>
      w_saved w' = None \<and> db_records (w_db w') = db_records (w_db w)
      \<and> db_checkpoints (w_db w') = db_checkpoints (w_db w) \<and> set (records_view (w_db w')) \<subseteq> set (records_view (w_db w))
      \<and> (case r of Ok _ \<Rightarrow> db_owned (w_db w') = {} \<and> records_view (w_db w') = [] | _ \<Rightarrow> True)"
proof -
  obtain r w' where run: "migrate ops columns indexes w = (r, w')" by fastforce
  have frame: "w_saved w' = None \<and> migration_frame (w_db w) (w_db w')"
    using keepsD [OF keeps_migrate run] assms by (simp add: settled_def)
  moreover have "db_owned (w_db w') = {}" if "r = Ok ()"
    using tripleD [OF migrate_disowns assms] run that by simp
  ultimately show ?thesis unfolding run
    by (auto simp: migration_frame_def records_view_def split: res.split)
qed

lemma migration_keeps_data_witness:
  "case migrate fake_ops [] [] (boot (fake_start\<lparr>fk_verdicts := [Runs, Fails (SqliteError True (lit ''disk is full''))]\<rparr>)
        (empty_database\<lparr>db_records := [sample_record 97 3], db_owned := {sample_tp}\<rparr>)) of (r, w') \<Rightarrow>
      w_saved w' = None \<and> db_records (w_db w') = [sample_record 97 3]
      \<and> db_checkpoints (w_db w') = Map.empty
      \<and> set (records_view (w_db w')) \<subseteq> set (records_view (empty_database\<lparr>db_records := [sample_record 97 3], db_owned := {sample_tp}\<rparr>))
      \<and> (case r of Ok _ \<Rightarrow> db_owned (w_db w') = {} \<and> records_view (w_db w') = [] | _ \<Rightarrow> True)"
  using migration_keeps_data [of "boot (fake_start\<lparr>fk_verdicts := [Runs, Fails (SqliteError True (lit ''disk is full''))]\<rparr>)
        (empty_database\<lparr>db_records := [sample_record 97 3], db_owned := {sample_tp}\<rparr>)" fake_ops "[]" "[]"]
  by (simp add: empty_database_def)


definition sqlite_ops :: "fake ops" where
  "sqlite_ops = fake_ops\<lparr>op_ddl := sqlite_ddl, op_verdict := \<lambda>s k. (Runs, k)\<rparr>"

definition thread_column :: generated_column where
  "thread_column = \<lparr>col_name = lit ''thread_id'', col_json_path = lit ''$.id'', col_sql_type = lit ''TEXT''\<rparr>"

definition thread_index :: index_decl where
  "thread_index = \<lparr>ix_name = lit ''ix_thread'', ix_columns = [lit ''thread_id''], ix_unique = False\<rparr>"

lemma thread_valid: "validate_generated_column thread_column = Inr ()" "valid_index thread_index"
  by (simp_all add: thread_column_def thread_index_def validate_generated_column_def validate_identifier_def
      valid_index_def ident_start_def ident_char_def validate_json_path_def SYSTEM_COLUMNS_def lit_def)

lemma sqlite_ops_engine: "ddl_engine (op_ddl sqlite_ops)" "obliging sqlite_ops"
  using sqlite.ddl_engine_axioms by (simp_all add: sqlite_ops_def obliging_def)

lemma lit_inject [simp]: "lit s = lit t \<longleftrightarrow> s = t"
  unfolding lit_def by (rule inj_map_eq_map) (simp add: inj_def)

definition base_catalog :: catalog where
  "base_catalog = create_base_index (lit ''ix_records_key'') [lit ''entity_key'']
     (create_base_index (lit ''ix_records_tp'') [lit ''source_topic'', lit ''source_partition''] fresh_catalog)"

lemma base_catalog_conforms: "conforms [] [] base_catalog"
  by (simp add: conforms_def base_catalog_def create_base_index_def index_entry_def fresh_catalog_def BASE_INDEX_NAMES_def)

definition thread_catalog :: catalog where
  "thread_catalog = (case sqlite_ddl (emit_add_column thread_column) base_catalog of
     Inl _ \<Rightarrow> base_catalog
   | Inr c \<Rightarrow> (case sqlite_ddl (emit_create_index thread_index) c of Inl _ \<Rightarrow> base_catalog | Inr c' \<Rightarrow> c'))"

lemma base_catalog_simps:
  "cat_sql base_catalog = CREATE_RECORDS" "cat_columns base_catalog = cat_columns fresh_catalog"
  by (simp_all add: base_catalog_def create_base_index_def fresh_catalog_def)

lemma base_index_names:
  "map ci_name (cat_indexes base_catalog) = [lit ''ix_records_key'', lit ''ix_records_tp'', lit ''sqlite_autoindex__records_1'']"
  by (simp add: base_catalog_def create_base_index_def fresh_catalog_def index_entry_def)

lemma thread_ddl: "\<exists>c. sqlite_ddl (emit_add_column thread_column) base_catalog = Inr c
    \<and> cat_indexes c = cat_indexes base_catalog \<and> sqlite_ddl (emit_create_index thread_index) c = Inr thread_catalog"
proof -
  have name: "col_name thread_column = lit ''thread_id''" "ix_name thread_index = lit ''ix_thread''"
    "ix_columns thread_index = [lit ''thread_id'']"
    by (simp_all add: thread_column_def thread_index_def)
  have sql: "CREATE_RECORDS \<noteq> []" "last CREATE_RECORDS = 41"
    by (simp_all add: CREATE_RECORDS_def lit_def)
  have new: "lit ''thread_id'' \<notin> fst ` set (cat_columns fresh_catalog)" by (simp add: fresh_catalog_def)
  obtain c where c: "sqlite_ddl (emit_add_column thread_column) base_catalog = Inr c"
    "cat_indexes c = cat_indexes base_catalog" "cat_columns c = cat_columns base_catalog @ [(lit ''thread_id'', HIDDEN_VIRTUAL)]"
    using sql new
    by (simp add: ddl_add_column [OF thread_valid(1)] alter_add_column_def clause_name [OF thread_valid(1)] name
        base_catalog_simps Let_def)
  have "lit ''ix_thread'' \<notin> set (map ci_name (cat_indexes c))" unfolding c(2) base_index_names by simp
  then have "\<exists>c'. sqlite_ddl (emit_create_index thread_index) c = Inr c'"
    using c(3) by (simp add: ddl_create_index [OF thread_valid(2)] name create_index_on_def)
  with c show ?thesis by (auto simp: thread_catalog_def)
qed

lemma thread_catalog_conforms: "conforms [thread_column] [thread_index] thread_catalog"
proof -
  obtain c where c: "sqlite_ddl (emit_add_column thread_column) base_catalog = Inr c"
    "cat_indexes c = cat_indexes base_catalog" "sqlite_ddl (emit_create_index thread_index) c = Inr thread_catalog"
    using thread_ddl by blast
  have new: "find (\<lambda>i. ci_name i = ix_name thread_index) (cat_indexes c) = None"
  proof -
    have "lit ''ix_thread'' \<notin> set (map ci_name (cat_indexes c))" unfolding c(2) base_index_names by simp
    then show ?thesis by (force simp: find_None_iff thread_index_def)
  qed
  note col = sqlite.add_column [OF thread_valid(1) c(1)] and ix = sqlite.create_index [OF thread_valid(2) c(3)]
  have "stable (\<lambda>c. list_all (\<lambda>n. list_ex (\<lambda>i. ci_name i = n) (cat_indexes c)) BASE_INDEX_NAMES)" by (rule stable_facts)
  then have "list_all (\<lambda>n. list_ex (\<lambda>i. ci_name i = n) (cat_indexes thread_catalog)) BASE_INDEX_NAMES"
    using base_catalog_conforms col ix unfolding stable_def conforms_def by blast
  then show ?thesis
    using col ix new has_column_extends by (auto simp: conforms_def)
qed

definition migrated_database :: database where
  "migrated_database = empty_database\<lparr>db_catalog := Some thread_catalog\<rparr>"



text \<open>
  C35. The drift check compares text without a boundary: a declared column counts as unchanged as
  soon as the stored schema has a column of the same type and path whose name ends with the
  declared name, even if the stored column of the declared name is another one; the
  migration then goes on without an error.
\<close>

theorem drift_behind_longer_name:
  assumes "col_name column \<in> set existing_columns"
    and "py_contains (render_column_clause (column\<lparr>col_name := p @ col_name column\<rparr>)) stored_schema"
  shows "reconcile_column ops existing_columns stored_schema column w = (Ok (), w)"
proof -
  have "render_column_clause (column\<lparr>col_name := p @ col_name column\<rparr>) = p @ render_column_clause column"
    by (simp add: render_column_clause_def)
  then have "py_contains (render_column_clause column) stored_schema"
    using assms(2) unfolding py_contains_iff by (metis append_assoc)
  with assms(1) show ?thesis
    by (simp add: reconcile_column_def check_column_drift_def lift_res_def io_ret_def)
qed

definition id_column :: "pystr \<Rightarrow> generated_column" where
  "id_column t = \<lparr>col_name = lit ''id'', col_json_path = lit ''$.id'', col_sql_type = t\<rparr>"

text \<open>Stored: \<^verbatim>\<open>id INTEGER\<close> and \<^verbatim>\<open>thread_id TEXT\<close>. Declared: \<^verbatim>\<open>id TEXT\<close>.\<close>

definition drifted_schema :: pystr where
  "drifted_schema = CREATE_RECORDS @ lit '', '' @ render_column_clause (id_column (lit ''INTEGER'')) @ lit '', ''
     @ render_column_clause thread_column @ [41]"

lemma drift_behind_longer_name_witness:
  "reconcile_column sqlite_ops [lit ''id'', lit ''thread_id''] drifted_schema (id_column (lit ''TEXT''))
       (boot fake_start empty_database) = (Ok (), boot fake_start empty_database)"
proof (rule drift_behind_longer_name [where p = "lit ''thread_''"])
  have "(id_column (lit ''TEXT''))\<lparr>col_name := lit ''thread_'' @ col_name (id_column (lit ''TEXT''))\<rparr> = thread_column"
    by (simp add: id_column_def thread_column_def lit_append [symmetric])
  moreover have "py_contains (render_column_clause thread_column) drifted_schema"
    unfolding py_contains_iff drifted_schema_def
    by (rule exI [of _ "CREATE_RECORDS @ lit '', '' @ render_column_clause (id_column (lit ''INTEGER'')) @ lit '', ''"],
        rule exI [of _ "[41]"]) simp
  ultimately show "py_contains (render_column_clause ((id_column (lit ''TEXT''))
      \<lparr>col_name := lit ''thread_'' @ col_name (id_column (lit ''TEXT''))\<rparr>)) drifted_schema" by simp
qed (simp add: id_column_def)

end
