(* ===== verification/Read_Path.thy ===== *)
theory Read_Path imports
  Assignment_Outcome
begin

text \<open>
  The read side, \<^verbatim>\<open>_read.py\<close>: a statement of the host on a pooled connection under
  \<^verbatim>\<open>query_only\<close>, the mapping of its errors, the reset of \<^verbatim>\<open>row_factory\<close>, and the hydration of
  rows into a Pydantic model or a dataclass. The host's statement is any text: it may
  write, begin a transaction or switch the flag off. The lemmas show what it cannot do.
\<close>

section \<open>The operations\<close>

text \<open>
  What \<^verbatim>\<open>into\<close> offers: \<^verbatim>\<open>model_validate_json\<close>, and a constructor applied to the keywords of the
  decoded payload if it is a dataclass. \<^verbatim>\<open>json.loads\<close> is an argument.
\<close>

record ('j, 'o) into_target =
  into_validator :: "(sql_value \<Rightarrow> exn + 'o) option"
  into_dataclass :: "('j \<Rightarrow> exn + 'o) option"

text \<open>\<^verbatim>\<open>row[name]\<close> of a \<^verbatim>\<open>sqlite3.Row\<close>: the first column whose name agrees, case ignored.\<close>

definition row_item :: "sql_row \<Rightarrow> pystr \<Rightarrow> exn + sql_value" where
  "row_item row name =
     (case find (\<lambda>(n, _). py_lower n = py_lower name) row of
        None \<Rightarrow> Inl IndexError | Some (_, v) \<Rightarrow> Inr v)"

definition hydrate ::
    "(sql_value \<Rightarrow> exn + 'j) \<Rightarrow> sql_row \<Rightarrow> ('j, 'o) into_target \<Rightarrow> exn + 'o" where
  "hydrate loads row into =
     (if lit ''payload'' \<notin> set (map fst row) then Inl HydrationError
      else case row_item row (lit ''payload'') of
        Inl e \<Rightarrow> Inl e
      | Inr text \<Rightarrow>
          (case into_validator into of
             Some validator \<Rightarrow> validator text
           | None \<Rightarrow>
               (case into_dataclass into of
                  Some constructor \<Rightarrow>
                    (case loads text of Inl e \<Rightarrow> Inl e | Inr keywords \<Rightarrow> constructor keywords)
                | None \<Rightarrow> Inl TypeError)))"

fun hydrate_all ::
    "(sql_value \<Rightarrow> exn + 'j) \<Rightarrow> sql_row list \<Rightarrow> ('j, 'o) into_target \<Rightarrow> exn + 'o list" where
  "hydrate_all loads [] into = Inr []"
| "hydrate_all loads (row # rows) into =
     (case hydrate loads row into of
        Inl e \<Rightarrow> Inl e
      | Inr x \<Rightarrow> (case hydrate_all loads rows into of Inl e \<Rightarrow> Inl e | Inr xs \<Rightarrow> Inr (x # xs)))"

text \<open>The innermost \<^verbatim>\<open>try\<close>, and the whole of the checkout around it.\<close>

definition host_fetch :: "'k ops \<Rightarrow> pystr \<Rightarrow> sql_row \<Rightarrow> ('k, sql_row list) act" where
  "host_fetch ops sql params =
     io_catch (fetch ops (HostSql sql params) (op_host_rows ops sql params))
       (\<lambda>e. io_raise (if is_sqlite_error e then StorageError (Some e) else e))"

definition query_rows :: "'k ops \<Rightarrow> rat \<Rightarrow> pystr \<Rightarrow> sql_row \<Rightarrow> ('k, sql_row list) act" where
  "query_rows ops busy_timeout sql params =
     checked_out ops busy_timeout
       (io_seq (io_modify (\<lambda>w. w\<lparr>w_row_factory := True\<rparr>))
         (io_finally (query_only ops (host_fetch ops sql params))
           (io_modify (\<lambda>w. w\<lparr>w_row_factory := False\<rparr>))))"

definition query ::
    "'k ops \<Rightarrow> (sql_value \<Rightarrow> exn + 'j) \<Rightarrow> rat \<Rightarrow> pystr \<Rightarrow> sql_row \<Rightarrow> ('j, 'o) into_target option
     \<Rightarrow> ('k, sql_row list + 'o list) act" where
  "query ops loads busy_timeout sql params into =
     io_bind (query_rows ops busy_timeout sql params) (\<lambda>rows.
       case into of
         None \<Rightarrow> io_ret (Inl rows)
       | Some target \<Rightarrow>
           io_bind (lift_res (hydrate_all loads rows target)) (\<lambda>objects. io_ret (Inr objects)))"

section \<open>What a statement of the host can do\<close>

lemma host_stmt_readonly:
  assumes "w_query_only w" "w_saved w = None"
  shows "wp (run_stmt ops (HostSql sql params))
     (\<lambda>r w'. committed w' = w_db w \<and> r \<noteq> Running \<and> (\<forall>x. r = Ok x \<longrightarrow> w_db w' = w_db w)) w"
  using assms by (auto simp: wp_def run_stmt_def host_stmt_def in_transaction_def split: host_effect.split)

lemma host_fetch_rule:
  assumes "w_query_only w" "w_saved w = None"
  shows "wp (host_fetch ops sql params)
     (\<lambda>r w'. committed w' = w_db w \<and> r \<noteq> Running \<and> (\<forall>x. r = Ok x \<longrightarrow> x = op_host_rows ops sql params (w_db w))) w"
proof -
  have "wp (execute ops (HostSql sql params))
      (\<lambda>r w'. committed w' = w_db w \<and> r \<noteq> Running \<and> (\<forall>x. r = Ok x \<longrightarrow> w_db w' = w_db w)) w"
    by (rule execute_rule, rule wp_mono [OF host_stmt_readonly]) (use assms in auto)
  then show ?thesis
    unfolding host_fetch_def fetch_def wp_catch wp_bind
    by (rule wp_mono) (auto split: res.splits)
qed

lemma pragma_rule:
  assumes "w_saved w = None"
  shows "wp (execute ops (PragmaQueryOnly b))
     (\<lambda>r w'. w_saved w' = None \<and> w_db w' = w_db w \<and> r \<noteq> Running \<and> (\<forall>x. r = Ok x \<longrightarrow> w_query_only w' = b)) w"
  by (rule execute_rule) (use assms in auto)

lemma committed_control:
  "wp (execute ops (PragmaQueryOnly b)) (\<lambda>r w'. committed w' = committed w \<and> r \<noteq> Running) w"
  by (rule execute_rule) auto

lemma query_rows_rule:
  assumes "w_saved w = None"
  shows "wp (query_rows ops bt sql params)
     (\<lambda>r w'. w_saved w' = None \<and> (r \<noteq> Running \<and> w_db w' = w_db w
        \<and> (\<forall>x. r = Ok x \<longrightarrow> x = op_host_rows ops sql params (w_db w)))) w"
  unfolding query_rows_def
proof (rule checked_out_rule [where P = "\<lambda>r d. r \<noteq> Running \<and> d = w_db w
    \<and> (\<forall>x. r = Ok x \<longrightarrow> x = op_host_rows ops sql params (w_db w))", OF assms])
  fix v :: "'a world" assume v: "w_saved v = None" "w_db v = w_db w"
  let ?P = "\<lambda>r (v' :: 'a world). r \<noteq> Running \<and> committed v' = w_db w
    \<and> (\<forall>x. r = Ok x \<longrightarrow> x = op_host_rows ops sql params (w_db w))"
  have host: "wp (io_finally (host_fetch ops sql params) (execute ops (PragmaQueryOnly False))) ?P u"
    if "w_query_only u" "w_saved u = None" "w_db u = w_db w" for u
    unfolding wp_finally
  proof (rule wp_mono [OF host_fetch_rule [OF that(1,2)]], goal_cases)
    case (1 r y)
    have "wp (execute ops (PragmaQueryOnly False)) (\<lambda>s z. committed z = w_db w \<and> s \<noteq> Running) y"
      using committed_control 1 that(3) by metis
    then show ?case
      by (cases r) (use 1 that(3) in \<open>auto elim!: wp_mono split: res.splits\<close>)
  qed
  have scope: "wp (query_only ops (host_fetch ops sql params)) ?P u"
    if "w_saved u = None" "w_db u = w_db w" for u
    unfolding query_only_def wp_bind
    by (rule wp_mono [OF pragma_rule [OF that(1)]])
      (use that in \<open>auto split: res.split simp del: wp_finally intro!: host\<close>)
  show "wp (io_seq (io_modify (\<lambda>w. w\<lparr>w_row_factory := True\<rparr>))
         (io_finally (query_only ops (host_fetch ops sql params))
           (io_modify (\<lambda>w. w\<lparr>w_row_factory := False\<rparr>)))) ?P v"
    unfolding wp_bind wp_modify res.case wp_finally
    by (rule wp_mono [OF scope]) (use v in \<open>auto split: res.split\<close>)
qed auto

text \<open>The memory of the process, and the row factory of the connection.\<close>

lemma memory_query_rows: "keeps same_memory (query_rows ops bt sql params)"
  unfolding query_rows_def host_fetch_def
  by (intro keeps_checked_out keeps_query_only keeps_basics keeps_fetch keeps_modify_memory) simp_all

definition factory_frame :: "'k world \<Rightarrow> 'k world \<Rightarrow> bool" where
  "factory_frame w w' \<longleftrightarrow> (w_row_factory w' \<longrightarrow> w_row_factory w)"

interpretation factory: preorder_rel factory_frame
  by unfold_locales (auto simp: factory_frame_def)

lemma factory_pure:
  "keeps factory_frame (ask f)" "keeps factory_frame (call g)" "keeps factory_frame (run_stmt ops s)"
  "keeps factory_frame (io_modify end_rollback)"
  "keeps factory_frame (io_modify (\<lambda>w. w\<lparr>w_query_only := b, w_row_factory := False\<rparr>))"
  "keeps factory_frame (io_modify (\<lambda>w. w\<lparr>w_saved := S w, w_query_only := c\<rparr>))"
  by (auto simp: keeps_def factory_frame_def ask_def call_def run_stmt_def host_stmt_def end_commit_def
      end_rollback_def io_simps split: prod.split sum.split stmt.split host_effect.split)

lemmas factory_basics = factory.keeps_combinators keeps_if factory_pure

lemma factory_execute: "keeps factory_frame (execute ops s)"
  unfolding execute_def by (intro factory_basics) (auto split: verdict.split intro!: factory_basics)

lemma factory_checked_out: "keeps factory_frame body \<Longrightarrow> keeps factory_frame (checked_out ops bt body)"
  unfolding checked_out_def acquire_def release_def open_connection_def on_error_def rollback_def
  by (intro factory_basics factory_execute)
    (auto split: acquired.split intro!: factory_basics factory_execute)

lemma halts_query_scope: "halts (query_only ops (host_fetch ops sql params))"
  unfolding query_only_def host_fetch_def by (intro halts_intros)

lemma factory_query_rows: "keeps factory_frame (query_rows ops bt sql params)"
  unfolding query_rows_def
proof (rule factory_checked_out, rule keepsI)
  fix w r w'
  assume run: "io_seq (io_modify (\<lambda>w. w\<lparr>w_row_factory := True\<rparr>))
         (io_finally (query_only ops (host_fetch ops sql params))
           (io_modify (\<lambda>w. w\<lparr>w_row_factory := False\<rparr>))) w = (r, w')"
  have "wp (io_seq (io_modify (\<lambda>w. w\<lparr>w_row_factory := True\<rparr>))
         (io_finally (query_only ops (host_fetch ops sql params))
           (io_modify (\<lambda>w. w\<lparr>w_row_factory := False\<rparr>)))) (\<lambda>_ w'. \<not> w_row_factory w') w"
    unfolding wp_bind wp_modify res.case wp_finally
    by (rule wp_mono [OF halts_wp [OF halts_query_scope]]) (auto split: res.split)
  from wpD [OF this run] show "factory_frame w w'" by (simp add: factory_frame_def)
qed

section \<open>Properties\<close>

text \<open>
  C20. A query changes nothing, whatever text the host passes and whatever the pool, SQLite and the
  scheduler do: an \<^verbatim>\<open>INSERT\<close>, a \<^verbatim>\<open>BEGIN\<close> left open or a \<^verbatim>\<open>PRAGMA query_only=OFF\<close> leaves the
  committed tables, the partition machine and the connection's \<^verbatim>\<open>row_factory\<close> as they were,
  and no transaction behind. A query that returns gives the rows of the committed tables,
  or the objects hydrated from them.
\<close>

theorem query_writes_nothing:
  assumes "w_saved w = None" "query ops loads busy_timeout sql params into w = (r, w')"
  shows "r \<noteq> Running \<and> w_saved w' = None \<and> w_db w' = w_db w \<and> w_parts w' = w_parts w
    \<and> (w_row_factory w' = w_row_factory w \<or> \<not> w_row_factory w')
    \<and> (case r of
         Ok (Inl rows) \<Rightarrow> into = None \<and> rows = op_host_rows ops sql params (w_db w)
       | Ok (Inr objects) \<Rightarrow>
           map_option (hydrate_all loads (op_host_rows ops sql params (w_db w))) into = Some (Inr objects)
       | _ \<Rightarrow> True)"
proof -
  obtain q v where run: "query_rows ops busy_timeout sql params w = (q, v)" by fastforce
  have q: "w_saved v = None" "q \<noteq> Running" "w_db v = w_db w" "\<And>x. q = Ok x \<Longrightarrow> x = op_host_rows ops sql params (w_db w)"
    using wpD [OF query_rows_rule [OF assms(1)] run] by auto
  have m: "w_parts v = w_parts w" using keepsD [OF memory_query_rows run] by (simp add: same_memory_def)
  have f: "w_row_factory v \<longrightarrow> w_row_factory w"
    using keepsD [OF factory_query_rows run] by (simp add: factory_frame_def)
  show ?thesis using assms(2) q m f
    by (auto simp: query_def io_simps run lift_res_def split: res.splits option.splits sum.splits)
qed

text \<open>An outside where every statement runs and every text of the host has the same effect.\<close>

definition host_ops :: "host_effect \<Rightarrow> fake ops" where
  "host_ops h = fake_ops\<lparr>op_verdict := \<lambda>_ k. (Runs, k), op_host_effect := \<lambda>_ _. h\<rparr>"

definition no_loads :: "sql_value \<Rightarrow> exn + unit" where
  "no_loads _ = Inl ValueError"

definition two_partitions :: database where
  "two_partitions = empty_database\<lparr>db_records := [sample_record 97 3,
      (sample_record 98 4)\<lparr>source_partition := 1\<rparr>], db_owned := {sample_tp}\<rparr>"

lemma host_answers:
  "op_acquire (host_ops h) k = (Inr (Idle (fst (fk_stale k)) (snd (fk_stale k))), k)"
  "op_release (host_ops h) k = (Inr (), k)" "op_verdict (host_ops h) = (\<lambda>_ k. (Runs, k))"
  "op_host_effect (host_ops h) = (\<lambda>_ _. h)"
  "op_host_rows (host_ops h) = (\<lambda>_ _ d. List.map (\<lambda>r. [(lit ''payload'', SqlText (payload r))]) (records_view d))"
  by (simp_all add: host_ops_def fake_ops_def)

lemma query_writes_nothing_witness:
  "case query (host_ops (HostWrites (\<lambda>d. Inr (d\<lparr>db_records := []\<rparr>)))) no_loads 5 (lit ''DELETE FROM _records'') []
        (None :: (unit, unit) into_target option) (boot fake_start two_partitions) of (r, w') \<Rightarrow>
      w_saved w' = None \<and> w_db w' = two_partitions \<and> w_parts w' = Map.empty"
proof -
  obtain r w' where run: "query (host_ops (HostWrites (\<lambda>d. Inr (d\<lparr>db_records := []\<rparr>)))) no_loads 5 (lit ''DELETE FROM _records'') []
        (None :: (unit, unit) into_target option) (boot fake_start two_partitions) = (r, w')" by fastforce
  from query_writes_nothing [OF _ run] show ?thesis by (simp add: run)
qed

text \<open>
  A query sees owned partitions only: a statement whose rows depend on the view \<^verbatim>\<open>records\<close> and
  on nothing else returns what it would return if the rows of all other partitions had been
  deleted, so no row of a revoked or still hidden partition influences it.
\<close>

lemma query_sees_owned_only:
  assumes "\<And>d d'. records_view d = records_view d' \<Longrightarrow>
      op_host_rows ops sql params d = op_host_rows ops sql params d'"
    and "w_saved w = None"
    and "query ops loads busy_timeout sql params None w = (Ok (Inl rows), w')"
  shows "rows = op_host_rows ops sql params ((w_db w)\<lparr>db_records := records_view (w_db w)\<rparr>)"
proof -
  obtain v where run: "query_rows ops busy_timeout sql params w = (Ok rows, v)"
    using assms(3) by (auto simp: query_def io_simps split: res.splits prod.splits)
  then have "rows = op_host_rows ops sql params (w_db w)"
    using wpD [OF query_rows_rule [OF assms(2)] run] by auto
  also have "\<dots> = op_host_rows ops sql params ((w_db w)\<lparr>db_records := records_view (w_db w)\<rparr>)"
    by (rule assms(1)) (simp add: records_view_def)
  finally show ?thesis .
qed

lemma query_sees_owned_only_example:
  "[[(lit ''payload'', SqlText (payload (sample_record 97 3)))]]
     = op_host_rows (host_ops HostReads) (lit ''SELECT payload FROM records'') []
         ((w_db (boot fake_start two_partitions))\<lparr>db_records := records_view (w_db (boot fake_start two_partitions))\<rparr>)"
proof (rule query_sees_owned_only)
  show "query (host_ops HostReads) no_loads 5 (lit ''SELECT payload FROM records'') []
        (None :: (unit, unit) into_target option) (boot fake_start two_partitions)
      = (Ok (Inl [[(lit ''payload'', SqlText (payload (sample_record 97 3)))]]),
         snd (query (host_ops HostReads) no_loads 5 (lit ''SELECT payload FROM records'') []
            (None :: (unit, unit) into_target option) (boot fake_start two_partitions)))"
    by (simp add: query_def query_rows_def checked_out_def acquire_def release_def host_fetch_def fetch_def query_only_def
        execute_def ask_def call_def run_stmt_def host_stmt_def in_transaction_def io_simps host_answers end_rollback_def
        committed_def two_partitions_def records_view_def row_tp_def sample_record_def sample_tp_def)
qed (simp_all add: host_answers)

text \<open>
  C40. Errors of a query. A statement that would write is refused: the query raises \<open>StorageError\<close>
  around SQLite's read-only error. But the mapping covers the host's statement only: when
  SQLite refuses to set the \<^verbatim>\<open>query_only\<close> flag, its error leaves the query as it is.
\<close>

theorem query_errors:
  assumes "\<And>k. \<exists>t q k'. op_acquire ops k = (Inr (Idle t q), k')" "\<And>k. fst (op_release ops k) = Inr ()"
    and "\<And>s k. s \<noteq> PragmaQueryOnly True \<Longrightarrow> fst (op_verdict ops s k) = Runs"
    and "op_host_effect ops sql params = HostWrites f"
    and "\<And>k. fst (op_verdict ops (PragmaQueryOnly True) k) = (case fault of None \<Rightarrow> Runs | Some e \<Rightarrow> Fails e)"
    and "fault \<noteq> Some PoolClosedError" "fault \<noteq> Some PoolConnectionAcquireTimeoutError"
  shows "fst (query ops loads busy_timeout sql params into w)
      = Exn (case fault of None \<Rightarrow> StorageError (Some readonly_error) | Some e \<Rightarrow> e)"
proof -
  obtain t q k where acquire: "op_acquire ops (w_env w) = (Inr (Idle t q), k)" using assms(1) by blast
  have release: "\<exists>k'. op_release ops k = (Inr (), k')" for k
    using assms(2) [of k] by (metis prod.collapse)
  have runs: "\<exists>k'. op_verdict ops s k = (Runs, k')" if "s \<noteq> PragmaQueryOnly True" for s k
    using assms(3) [OF that] by (metis prod.collapse)
  have on: "\<exists>k'. op_verdict ops (PragmaQueryOnly True) k = (case fault of None \<Rightarrow> Runs | Some e \<Rightarrow> Fails e, k')" for k
    using assms(5) by (metis prod.collapse)
  have exec: "execute ops s v = run_stmt ops s (v\<lparr>w_env := snd (op_verdict ops s (w_env v))\<rparr>)"
    if "s \<noteq> PragmaQueryOnly True" for s and v :: "'a world"
    using runs [OF that, of "w_env v"] by (auto simp: execute_def ask_def io_simps)
  have flag: "execute ops (PragmaQueryOnly True) v = (case fault of
      None \<Rightarrow> (Ok (), v\<lparr>w_env := snd (op_verdict ops (PragmaQueryOnly True) (w_env v)), w_query_only := True\<rparr>)
    | Some e \<Rightarrow> (Exn e, v\<lparr>w_env := snd (op_verdict ops (PragmaQueryOnly True) (w_env v))\<rparr>))" for v :: "'a world"
    using on [of "w_env v"] by (auto simp: execute_def ask_def io_simps run_stmt_def split: option.splits)
  have free: "call (op_release ops) v = (Ok (), v\<lparr>w_env := snd (op_release ops (w_env v))\<rparr>)" for v :: "'a world"
    using release [of "w_env v"] by (auto simp: call_def)
  have idle: "call (op_acquire ops) w = (Ok (Idle t q), w\<lparr>w_env := k\<rparr>)"
    by (simp add: call_def acquire)
  have stmts: "run_stmt ops Rollback v = (Ok (), end_rollback v)"
      "run_stmt ops (PragmaQueryOnly b) v = (Ok (), v\<lparr>w_query_only := b\<rparr>)"
      "run_stmt ops (HostSql sql params) v = (if w_query_only v then (Exn readonly_error, v)
         else case f (w_db v) of Inl e \<Rightarrow> (Exn e, v) | Inr d \<Rightarrow> (Ok (), v\<lparr>w_db := d\<rparr>))" for b and v :: "'a world"
    by (simp_all add: run_stmt_def host_stmt_def assms(4))
  show ?thesis
    using assms(6,7)
    by (cases t; cases fault)
      (simp_all add: query_def query_rows_def checked_out_def acquire_def idle release_def rollback_def host_fetch_def
        fetch_def query_only_def exec flag free stmts in_transaction_def io_simps readonly_error_def pool_error_def)
qed

lemma query_errors_witness:
  "fst (query (host_ops (HostWrites Inr)) no_loads 5 (lit ''DELETE FROM _records'') [] (None :: (unit, unit) into_target option)
       (boot fake_start two_partitions)) = Exn (StorageError (Some readonly_error))
   \<and> fst (query ((host_ops (HostWrites Inr))\<lparr>op_verdict := \<lambda>s k. (if s = PragmaQueryOnly True then Fails disk_full else Runs, k)\<rparr>)
       no_loads 5 (lit ''DELETE FROM _records'') [] (None :: (unit, unit) into_target option)
       (boot fake_start two_partitions)) = Exn disk_full"
proof
  show "fst (query (host_ops (HostWrites Inr)) no_loads 5 (lit ''DELETE FROM _records'') [] (None :: (unit, unit) into_target option)
       (boot fake_start two_partitions)) = Exn (StorageError (Some readonly_error))"
    using query_errors [of "host_ops (HostWrites Inr)" "lit ''DELETE FROM _records''" "[]" Inr None] by (simp add: host_answers)
  show "fst (query ((host_ops (HostWrites Inr))\<lparr>op_verdict := \<lambda>s k. (if s = PragmaQueryOnly True then Fails disk_full else Runs, k)\<rparr>)
       no_loads 5 (lit ''DELETE FROM _records'') [] (None :: (unit, unit) into_target option)
       (boot fake_start two_partitions)) = Exn disk_full"
    using query_errors [of "(host_ops (HostWrites Inr))\<lparr>op_verdict := \<lambda>s k. (if s = PragmaQueryOnly True then Fails disk_full else Runs, k)\<rparr>"
        "lit ''DELETE FROM _records''" "[]" Inr "Some disk_full"]
    by (simp add: host_answers) (simp add: disk_full_def)
qed

end
