(* ===== verification/Store_Facade.thy ===== *)
theory Store_Facade imports
  Append_Path Schema_Engine Read_Path
begin

text \<open>
  The facade, \<^verbatim>\<open>_store.py\<close>: validation of the configuration, the merged client settings, the
  life cycle of the store with its rollback and its close sequence, and the delegation of
  the public operations to the services. Constructing, starting and closing a client is a
  call to the outside, recorded in the trace of the store; every other effect goes through
  the world the services run on.
\<close>

section \<open>Configuration\<close>

text \<open>Values a host passes in \<^verbatim>\<open>producer_config\<close> and \<^verbatim>\<open>consumer_config\<close>.\<close>

datatype cfg_value = CfgNone | CfgBool bool | CfgInt int | CfgFloat rat | CfgStr pystr | CfgObject nat

type_synonym kwargs = "pystr \<rightharpoonup> cfg_value"

record store_config =
  sc_bootstrap_servers :: pystr
  sc_template :: pystr
  sc_create_topics_retention_ms :: "int option"
  sc_verify_changelog_policy :: bool
  sc_generated_columns :: "generated_column list"
  sc_indexes :: "index_decl list"
  sc_pool_size :: int
  sc_busy_timeout :: rat
  sc_rehydrate_timeout :: rat
  sc_producer_config :: kwargs
  sc_consumer_config :: kwargs

definition PINNED_CONSUMER_KEYS :: kwargs where
  "PINNED_CONSUMER_KEYS =
     [lit ''group_id'' \<mapsto> CfgNone,
      lit ''enable_auto_commit'' \<mapsto> CfgBool False,
      lit ''auto_offset_reset'' \<mapsto> CfgStr (lit ''none'')]"

definition SECURITY_KEY_NAMES :: "pystr list" where
  "SECURITY_KEY_NAMES = [lit ''security_protocol'', lit ''ssl_context'']"

definition SECURITY_KEY_PREFIX :: pystr where
  "SECURITY_KEY_PREFIX = lit ''sasl_''"

definition merged_consumer_kwargs :: "pystr \<Rightarrow> kwargs \<Rightarrow> kwargs" where
  "merged_consumer_kwargs servers config =
     [lit ''bootstrap_servers'' \<mapsto> CfgStr servers] ++ config ++ PINNED_CONSUMER_KEYS"

definition merged_producer_kwargs :: "pystr \<Rightarrow> kwargs \<Rightarrow> kwargs" where
  "merged_producer_kwargs servers config =
     [lit ''bootstrap_servers'' \<mapsto> CfgStr servers, lit ''acks'' \<mapsto> CfgInt 1] ++ config"

text \<open>The parameters the admin client's constructor accepts are an argument.\<close>

definition admin_security_kwargs :: "pystr set \<Rightarrow> pystr \<Rightarrow> kwargs \<Rightarrow> kwargs" where
  "admin_security_kwargs accepted servers config =
     [lit ''bootstrap_servers'' \<mapsto> CfgStr servers]
     ++ config |` {k. (k \<in> set SECURITY_KEY_NAMES \<or> py_startswith SECURITY_KEY_PREFIX k) \<and> k \<in> accepted}"

text \<open>\<^verbatim>\<open>acks in (0, "0")\<close>, where \<^verbatim>\<open>False\<close> and \<^verbatim>\<open>0.0\<close> equal \<^verbatim>\<open>0\<close>.\<close>

fun acks_zero :: "cfg_value \<Rightarrow> bool" where
  "acks_zero (CfgInt n) = (n = 0)"
| "acks_zero (CfgBool b) = (\<not> b)"
| "acks_zero (CfgFloat q) = (q = 0)"
| "acks_zero (CfgStr s) = (s = lit ''0'')"
| "acks_zero _ = False"

fun validate_columns :: "generated_column list \<Rightarrow> exn + unit" where
  "validate_columns [] = Inr ()"
| "validate_columns (column # columns) =
     (case validate_generated_column column of Inl e \<Rightarrow> Inl e | Inr _ \<Rightarrow> validate_columns columns)"

fun validate_indexes :: "pystr list \<Rightarrow> index_decl list \<Rightarrow> exn + unit" where
  "validate_indexes declared_names [] = Inr ()"
| "validate_indexes declared_names (index # indexes) =
     (case validate_index index declared_names of
        Inl e \<Rightarrow> Inl e | Inr _ \<Rightarrow> validate_indexes declared_names indexes)"

definition validate_config :: "fmt_ext \<Rightarrow> store_config \<Rightarrow> exn + unit" where
  "validate_config ext cfg =
     (case validate_changelog_template ext (sc_template cfg) of Inl e \<Rightarrow> Inl e | Inr _ \<Rightarrow>
      if sc_pool_size cfg < 1 then Inl ConfigError
      else if sc_busy_timeout cfg \<le> 0 then Inl ConfigError
      else if sc_rehydrate_timeout cfg \<le> 0 then Inl ConfigError
      else if acks_zero (case sc_producer_config cfg (lit ''acks'') of None \<Rightarrow> CfgInt 1 | Some v \<Rightarrow> v)
      then Inl ConfigError
      else (case validate_columns (sc_generated_columns cfg) of Inl e \<Rightarrow> Inl e | Inr _ \<Rightarrow>
        validate_indexes (map col_name (sc_generated_columns cfg)) (sc_indexes cfg)))"

section \<open>The state of a store\<close>

datatype run_state = NEW | RUNNING | STOPPING | CLOSED

datatype client = PoolClient | ProducerClient | AdminClient

datatype client_call =
    OpenPool | ClosePool
  | NewProducer | StartProducer | FlushProducer | StopProducer
  | NewAdmin | StartAdmin | CloseAdmin
  | StopConsumer

text \<open>
  What the facade calls on its clients, and what it reads of its platform: the SQLite
  version and the parameters of the admin client.
\<close>

record 'k clients =
  cl_open_pool :: "('k, unit) call"
  cl_pool_close :: "('k, unit) call"
  cl_new_producer :: "kwargs \<Rightarrow> ('k, unit) call"
  cl_producer_start :: "('k, unit) call"
  cl_producer_flush :: "('k, unit) call"
  cl_producer_stop :: "('k, unit) call"
  cl_new_admin :: "kwargs \<Rightarrow> ('k, unit) call"
  cl_admin_start :: "('k, unit) call"
  cl_admin_close :: "('k, unit) call"
  cl_new_consumer :: "kwargs \<Rightarrow> ('k, unit) call"
  cl_admin_params :: "pystr set"
  cl_sqlite_version :: "int \<times> int \<times> int"

text \<open>
  The attributes of the facade. \<open>st_open\<close> holds the clients that are constructed, in their
  order: the local variables of a running \<^verbatim>\<open>start\<close>, then the attributes. The partition
  machine, the cache of checked partitions and the consumer are in the world.
\<close>

record 'k store =
  st_world :: "'k world"
  st_run :: run_state
  st_in_flight :: int
  st_drained :: bool
  st_open :: "client list"
  st_trace :: "client_call list"

type_synonym ('k, 'a) sact = "('k store, 'a) io"

definition new_store :: "'k world \<Rightarrow> 'k store" where
  "new_store w =
     \<lparr>st_world = w\<lparr>w_parts := Map.empty\<rparr>, st_run = NEW, st_in_flight = 0, st_drained = False,
      st_open = [], st_trace = []\<rparr>"

definition in_world :: "('k, 'a) act \<Rightarrow> ('k, 'a) sact" where
  "in_world m = (\<lambda>s. case m (st_world s) of (r, w') \<Rightarrow> (r, s\<lparr>st_world := w'\<rparr>))"

definition trace :: "client_call \<Rightarrow> ('k, unit) sact" where
  "trace c = io_modify (\<lambda>s. s\<lparr>st_trace := st_trace s @ [c]\<rparr>)"

definition use :: "client_call \<Rightarrow> ('k, unit) act \<Rightarrow> ('k, unit) sact" where
  "use c m = io_seq (trace c) (in_world m)"

section \<open>Start\<close>

definition DEFAULT_BATCH_SIZE :: nat where
  "DEFAULT_BATCH_SIZE = 500"

text \<open>What the composition root hands to the services.\<close>

definition service_settings :: "store_config \<Rightarrow> settings" where
  "service_settings cfg =
     \<lparr>cfg_template = sc_template cfg, cfg_retention_ms = sc_create_topics_retention_ms cfg,
      cfg_verify_policy = sc_verify_changelog_policy cfg, cfg_busy_timeout = sc_busy_timeout cfg,
      cfg_rehydrate_timeout = sc_rehydrate_timeout cfg, cfg_batch_size = DEFAULT_BATCH_SIZE\<rparr>"

definition service_ops :: "'k ops \<Rightarrow> 'k clients \<Rightarrow> store_config \<Rightarrow> 'k ops" where
  "service_ops ops cl cfg =
     ops\<lparr>op_new_consumer :=
       cl_new_consumer cl (merged_consumer_kwargs (sc_bootstrap_servers cfg) (sc_consumer_config cfg))\<rparr>"

definition opened :: "client \<Rightarrow> client_call \<Rightarrow> ('k, unit) act \<Rightarrow> ('k, unit) sact" where
  "opened c call_made m =
     io_seq (use call_made m) (io_modify (\<lambda>s. s\<lparr>st_open := st_open s @ [c]\<rparr>))"

definition started :: "client_call \<Rightarrow> ('k, unit) act \<Rightarrow> ('k, unit) sact" where
  "started call_made m =
     io_catch (use call_made m) (\<lambda>e. io_raise (if is_exception e then KSQLiteError (Some e) else e))"

fun migration_error :: "exn \<Rightarrow> exn" where
  "migration_error (SqliteError operational message) = StorageError (Some (SqliteError operational message))"
| "migration_error e = e"

definition open_clients :: "'k ops \<Rightarrow> 'k clients \<Rightarrow> store_config \<Rightarrow> ('k, unit) sact" where
  "open_clients ops cl cfg =
     io_seq (opened PoolClient OpenPool (call (cl_open_pool cl)))
     (io_seq
       (io_catch
         (in_world (checked_out ops (sc_busy_timeout cfg)
           (migrate ops (sc_generated_columns cfg) (sc_indexes cfg))))
         (\<lambda>e. io_raise (migration_error e)))
     (io_seq
       (opened ProducerClient NewProducer
         (call (cl_new_producer cl (merged_producer_kwargs (sc_bootstrap_servers cfg) (sc_producer_config cfg)))))
     (io_seq (started StartProducer (call (cl_producer_start cl)))
     (io_seq
       (opened AdminClient NewAdmin
         (call (cl_new_admin cl
           (admin_security_kwargs (cl_admin_params cl) (sc_bootstrap_servers cfg) (sc_consumer_config cfg)))))
       (started StartAdmin (call (cl_admin_start cl)))))))"

type_synonym 'k close_action = "pystr \<times> client_call \<times> ('k, unit) act"

definition rollback_steps :: "'k clients \<Rightarrow> client list \<Rightarrow> 'k close_action list" where
  "rollback_steps cl clients =
     (if AdminClient \<in> set clients then [(lit ''admin.close'', CloseAdmin, call (cl_admin_close cl))] else [])
     @ (if ProducerClient \<in> set clients then [(lit ''producer.stop'', StopProducer, call (cl_producer_stop cl))] else [])
     @ (if PoolClient \<in> set clients then [(lit ''pool.close'', ClosePool, call (cl_pool_close cl))] else [])"

definition rollback_step :: "'k close_action \<Rightarrow> ('k, unit) sact" where
  "rollback_step = (\<lambda>(name, call_made, closer).
     io_catch (use call_made closer) (\<lambda>_. in_world (log_event (StartRollbackCloseFailed name))))"

definition rollback_start :: "'k clients \<Rightarrow> ('k, unit) sact" where
  "rollback_start cl =
     io_bind (io_gets st_open) (\<lambda>clients.
       io_seq (io_for rollback_step (rollback_steps cl clients))
         (io_modify (\<lambda>s. s\<lparr>st_open := []\<rparr>)))"

definition compose_services :: "'k store \<Rightarrow> 'k store" where
  "compose_services s =
     s\<lparr>st_world := (st_world s)\<lparr>w_parts := Map.empty, w_checked := {}, w_consumer := False\<rparr>,
       st_run := RUNNING\<rparr>"

definition start :: "'k ops \<Rightarrow> 'k clients \<Rightarrow> store_config \<Rightarrow> ('k, unit) sact" where
  "start ops cl cfg =
     io_bind (io_gets st_run) (\<lambda>phase.
       if phase \<noteq> NEW then io_raise LifecycleError
       else
         io_seq (in_world (lift_res (validate_config (op_format ops) cfg)))
         (io_seq (in_world (lift_res (check_sqlite_version (cl_sqlite_version cl))))
         (io_seq
           (io_catch (open_clients ops cl cfg) (\<lambda>e. io_seq (rollback_start cl) (io_raise e)))
           (io_modify compose_services))))"

section \<open>Stop\<close>

text \<open>
  Up to the first \<^verbatim>\<open>await\<close>: whether this call goes on to close the store. Waiting for the drain
  returns only when the event is set.
\<close>

definition begin_stop :: "('k, bool) sact" where
  "begin_stop =
     io_bind (io_gets st_run) (\<lambda>phase.
       if phase = STOPPING \<or> phase = CLOSED then io_ret False
       else if phase = NEW then io_raise LifecycleError
       else io_seq (io_modify (\<lambda>s. s\<lparr>st_run := STOPPING\<rparr>)) (io_ret True))"

definition await_drained :: "('k, unit) sact" where
  "await_drained =
     io_bind (io_gets st_in_flight) (\<lambda>n.
       if 0 < n then io_bind (io_gets st_drained) (\<lambda>d. if d then io_ret () else io_running)
       else io_ret ())"

definition close_steps :: "'k ops \<Rightarrow> 'k clients \<Rightarrow> 'k close_action list" where
  "close_steps ops cl =
     [(lit ''producer.flush'', FlushProducer, call (cl_producer_flush cl)),
      (lit ''producer.stop'', StopProducer, call (cl_producer_stop cl)),
      (lit ''consumer.stop'', StopConsumer, aclose ops),
      (lit ''admin.close'', CloseAdmin, call (cl_admin_close cl)),
      (lit ''pool.close'', ClosePool, call (cl_pool_close cl))]"

definition close_step :: "'k close_action \<Rightarrow> ('k, exn option) sact" where
  "close_step = (\<lambda>(name, call_made, step).
     io_bind (io_attempt (use call_made step)) (\<lambda>outcome.
       case outcome of
         Inr _ \<Rightarrow> io_ret None
       | Inl e \<Rightarrow> io_seq (in_world (log_event (StopStepFailed name))) (io_ret (Some e))))"

fun close_from :: "'k close_action list \<Rightarrow> exn option \<Rightarrow> ('k, exn option) sact" where
  "close_from [] first_exc = io_ret first_exc"
| "close_from (step # steps) first_exc =
     io_bind (close_step step) (\<lambda>failure.
       close_from steps (if first_exc = None then failure else first_exc))"

definition finish_stop :: "'k ops \<Rightarrow> 'k clients \<Rightarrow> ('k, unit) sact" where
  "finish_stop ops cl =
     io_seq (io_modify (\<lambda>s. s\<lparr>st_run := CLOSED\<rparr>))
       (io_bind (close_from (close_steps ops cl) None) (\<lambda>first_exc.
         case first_exc of None \<Rightarrow> io_ret () | Some e \<Rightarrow> io_raise e))"

definition stop :: "'k ops \<Rightarrow> 'k clients \<Rightarrow> ('k, unit) sact" where
  "stop ops cl =
     io_bind begin_stop (\<lambda>winner.
       io_when winner (io_seq await_drained (finish_stop ops cl)))"

section \<open>The public operations\<close>

definition ensure_running :: "('k, unit) sact" where
  "ensure_running =
     io_bind (io_gets st_run) (\<lambda>phase. if phase \<noteq> RUNNING then io_raise LifecycleError else io_ret ())"

definition enter_append :: "('k, unit) sact" where
  "enter_append =
     io_seq ensure_running (io_modify (\<lambda>s. s\<lparr>st_in_flight := st_in_flight s + 1\<rparr>))"

definition leave_append :: "('k, unit) sact" where
  "leave_append =
     io_seq (io_modify (\<lambda>s. s\<lparr>st_in_flight := st_in_flight s - 1\<rparr>))
       (io_modify (\<lambda>s. if st_run s \<noteq> RUNNING \<and> st_in_flight s = 0 then s\<lparr>st_drained := True\<rparr> else s))"

definition store_append ::
    "'k ops \<Rightarrow> (pystr \<Rightarrow> exn option) \<Rightarrow> ('o \<Rightarrow> exn + pystr) \<Rightarrow> store_config
     \<Rightarrow> topic_partition \<Rightarrow> host_value \<Rightarrow> 'o payload \<Rightarrow> ('k, unit) sact" where
  "store_append ops loads dumps cfg source key val =
     io_seq enter_append
       (io_finally (in_world (append_record ops loads dumps (service_settings cfg) source key val)) leave_append)"

definition store_query ::
    "'k ops \<Rightarrow> (sql_value \<Rightarrow> exn + 'j) \<Rightarrow> store_config \<Rightarrow> pystr \<Rightarrow> sql_row \<Rightarrow> ('j, 'o) into_target option
     \<Rightarrow> ('k, sql_row list + 'o list) sact" where
  "store_query ops loads cfg sql params into =
     io_seq ensure_running (in_world (query ops loads (sc_busy_timeout cfg) sql params into))"

definition store_partition_states :: "('k, topic_partition \<rightharpoonup> partition_state) sact" where
  "store_partition_states = io_gets (\<lambda>s. partition_states (w_parts (st_world s)))"

definition store_assigned ::
    "nat \<Rightarrow> 'k ops \<Rightarrow> 'k clients \<Rightarrow> store_config \<Rightarrow> topic_partition list \<Rightarrow> ('k, unit) sact" where
  "store_assigned fuel ops cl cfg assigned =
     io_seq ensure_running
       (in_world (on_partitions_assigned fuel (service_ops ops cl cfg) (service_settings cfg) assigned))"

definition store_revoked ::
    "'k ops \<Rightarrow> store_config \<Rightarrow> topic_partition list \<Rightarrow> ('k, unit) sact" where
  "store_revoked ops cfg revoked =
     io_seq ensure_running (in_world (on_partitions_revoked ops (service_settings cfg) revoked))"

text \<open>\<^verbatim>\<open>async with store: body\<close>\<close>

definition aenter :: "'k ops \<Rightarrow> 'k clients \<Rightarrow> store_config \<Rightarrow> ('k, unit) sact" where
  "aenter ops cl cfg = start ops cl cfg"

definition aexit :: "'k ops \<Rightarrow> 'k clients \<Rightarrow> ('k, unit) sact" where
  "aexit ops cl = stop ops cl"

end
