(* ===== verification/Store_Start.thy ===== *)
theory Store_Start imports
  Store_Facade
begin

text \<open>
  What \<^verbatim>\<open>start\<close> establishes: an accepted configuration is one the services can rely on, a
  start that fails closes what it opened in reverse order and reports the original error,
  and a start that returns leaves a running store with a conforming schema and nothing
  visible.
\<close>

section \<open>Runs of the facade\<close>

lemma wp_in_world [simp]:
  "wp (in_world m) Q s = wp m (\<lambda>r w'. Q r (s\<lparr>st_world := w'\<rparr>)) (st_world s)"
  by (simp add: wp_def in_world_def split: prod.split)

lemma wp_trace [simp]: "wp (trace c) Q s = Q (Ok ()) (s\<lparr>st_trace := st_trace s @ [c]\<rparr>)"
  by (simp add: trace_def)

lemma wp_use:
  "wp (use c m) Q s =
   wp m (\<lambda>r w'. Q r (s\<lparr>st_trace := st_trace s @ [c], st_world := w'\<rparr>)) (st_world s)"
  by (simp add: use_def)

text \<open>A call to the outside changes nothing but its state.\<close>

definition same_but_env :: "'k world \<Rightarrow> 'k world \<Rightarrow> bool" where
  "same_but_env w w' \<longleftrightarrow> (\<exists>k. w' = w\<lparr>w_env := k\<rparr>)"

lemma call_rule: "wp (call f) (\<lambda>r w'. r \<noteq> Running \<and> same_but_env w w') w"
  by (auto simp: same_but_env_def split: prod.split sum.split)

lemma same_but_env_simps:
  "same_but_env w w' \<Longrightarrow> w_db w' = w_db w \<and> w_saved w' = w_saved w \<and> w_parts w' = w_parts w \<and> w_log w' = w_log w
     \<and> w_query_only w' = w_query_only w"
  by (auto simp: same_but_env_def)

section \<open>The configuration\<close>

lemma validate_columns_iff:
  "validate_columns columns = Inr () \<longleftrightarrow> list_all (\<lambda>column. validate_generated_column column = Inr ()) columns"
  by (induction columns) (auto split: sum.split)

lemma validate_indexes_iff:
  "validate_indexes names indexes = Inr () \<longleftrightarrow> list_all (\<lambda>index. validate_index index names = Inr ()) indexes"
  by (induction indexes) (auto split: sum.split)

lemma system_columns_identifiers: "list_all identifier_fullmatch SYSTEM_COLUMNS"
  by (simp add: SYSTEM_COLUMNS_def lit_def ident_start_def ident_char_def)

lemma validate_index_valid:
  assumes "validate_index index names = Inr ()" "\<forall>n\<in>set names. identifier_fullmatch n"
  shows "valid_index index"
proof -
  have "c \<in> set SYSTEM_COLUMNS \<or> c \<in> set names" if "c \<in> set (ix_columns index)" for c
    using assms(1) that by (auto simp: validate_index_def list_ex_iff split: sum.splits if_splits)
  moreover have "identifier_fullmatch (ix_name index)"
    using assms(1) by (auto simp: validate_index_def validate_identifier_def split: sum.splits if_splits)
  ultimately show ?thesis
    using assms(2) system_columns_identifiers unfolding valid_index_def list_all_iff by blast
qed

lemma validated_schema:
  assumes "validate_config ext cfg = Inr ()"
  shows "list_all (\<lambda>column. validate_generated_column column = Inr ()) (sc_generated_columns cfg)"
    "list_all valid_index (sc_indexes cfg)"
proof -
  have cols: "validate_columns (sc_generated_columns cfg) = Inr ()"
    and ixs: "validate_indexes (map col_name (sc_generated_columns cfg)) (sc_indexes cfg) = Inr ()"
    using assms by (auto simp: validate_config_def split: sum.splits if_splits)
  show c: "list_all (\<lambda>column. validate_generated_column column = Inr ()) (sc_generated_columns cfg)"
    using cols by (simp add: validate_columns_iff)
  have "\<forall>n\<in>set (map col_name (sc_generated_columns cfg)). identifier_fullmatch n"
    using c validated_name by (auto simp: list_all_iff)
  with ixs show "list_all valid_index (sc_indexes cfg)"
    unfolding validate_indexes_iff list_all_iff by (blast intro: validate_index_valid)
qed

section \<open>The migration at start\<close>

lemma halts_ddl [halts_intros]: "halts (execute_migration_ddl ops t)"
  unfolding execute_migration_ddl_def by (intro halts_intros)

lemma halts_index_shape [halts_intros]: "halts (existing_index_shape ops n)"
  unfolding existing_index_shape_def by (intro halts_intros) (auto intro: halts_intros split: option.split)

lemma halts_migrate: "halts (migrate ops columns indexes)"
  unfolding migrate_def create_base_schema_def reconcile_columns_def reconcile_column_def reconcile_indexes_def
    reconcile_index_def
  by (intro halts_intros) (auto intro!: halts_intros split: option.split)

lemma checked_out_migrate:
  assumes "w_saved w = None"
  shows "wp (checked_out ops bt (migrate ops columns indexes))
     (\<lambda>r w'. w_saved w' = None \<and> (r \<noteq> Running \<and> migration_frame (w_db w) (w_db w')
        \<and> (r = Ok () \<longrightarrow> db_owned (w_db w') = {}
          \<and> (ddl_engine (op_ddl ops) \<and> list_all (\<lambda>column. validate_generated_column column = Inr ()) columns
               \<and> list_all valid_index indexes
             \<longrightarrow> (\<exists>c. db_catalog (w_db w') = Some c \<and> conforms columns indexes c))))) w"
proof (rule checked_out_rule [where P = "\<lambda>r d. r \<noteq> Running \<and> migration_frame (w_db w) d
        \<and> (r = Ok () \<longrightarrow> db_owned d = {}
          \<and> (ddl_engine (op_ddl ops) \<and> list_all (\<lambda>column. validate_generated_column column = Inr ()) columns
               \<and> list_all valid_index indexes
             \<longrightarrow> (\<exists>c. db_catalog d = Some c \<and> conforms columns indexes c)))", OF assms], goal_cases)
  case (1 v)
  show ?case
  proof (rule wpI, intro conjI impI, goal_cases)
    case (1 r v') then show ?case using halts_migrate by (blast dest: haltsD)
  next
    case (2 r v')
    with keepsD [OF keeps_migrate this] \<open>w_saved v = None\<close> \<open>w_db v = w_db w\<close> show ?case
      by (simp add: settled_def)
  next
    case (3 r v')
    with tripleD [OF migrate_disowns \<open>w_saved v = None\<close>] show ?case by simp
  next
    case (4 r v')
    then have "w_saved v' = None \<and> holds (conforms columns indexes) v'"
      using tripleD [OF ddl_engine.success_migrate [OF _ refl] \<open>w_saved v = None\<close>, of ops columns indexes "()" v'] by simp
    then show ?case by (simp add: holds_def)
  qed
qed (simp_all add: migration_frame_def)

section \<open>Opening and rolling back\<close>

text \<open>
  How far an opening came when it raised: the calls made on the clients, and the clients
  constructed by then.
\<close>

definition opening_stages :: "(client_call list \<times> client list) list" where
  "opening_stages =
     [([OpenPool], []),
      ([OpenPool], [PoolClient]),
      ([OpenPool, NewProducer], [PoolClient]),
      ([OpenPool, NewProducer, StartProducer], [PoolClient, ProducerClient]),
      ([OpenPool, NewProducer, StartProducer, NewAdmin], [PoolClient, ProducerClient]),
      ([OpenPool, NewProducer, StartProducer, NewAdmin, StartAdmin], [PoolClient, ProducerClient, AdminClient])]"

definition all_opened :: "client_call list \<times> client list" where
  "all_opened =
     ([OpenPool, NewProducer, StartProducer, NewAdmin, StartAdmin], [PoolClient, ProducerClient, AdminClient])"

fun close_call :: "client \<Rightarrow> client_call" where
  "close_call PoolClient = ClosePool"
| "close_call ProducerClient = StopProducer"
| "close_call AdminClient = CloseAdmin"

text \<open>The parts of a store that only \<^verbatim>\<open>start\<close>, \<^verbatim>\<open>stop\<close> and the append counter write.\<close>

definition same_phase :: "'k store \<Rightarrow> 'k store \<Rightarrow> bool" where
  "same_phase s s' \<longleftrightarrow>
     st_run s' = st_run s \<and> st_in_flight s' = st_in_flight s \<and> st_drained s' = st_drained s"

text \<open>What an opening leaves, from a store with no client and no open transaction.\<close>

definition opening_post ::
    "'k ops \<Rightarrow> store_config \<Rightarrow> 'k store \<Rightarrow> unit res \<Rightarrow> 'k store \<Rightarrow> bool" where
  "opening_post ops cfg s r s' \<longleftrightarrow> same_phase s s' \<and> w_saved (st_world s') = None
     \<and> migration_frame (w_db (st_world s)) (w_db (st_world s'))
     \<and> (case r of
          Ok _ \<Rightarrow> (st_trace s', st_open s') = (st_trace s @ fst all_opened, snd all_opened)
            \<and> db_owned (w_db (st_world s')) = {}
            \<and> (ddl_engine (op_ddl ops) \<and> validate_config (op_format ops) cfg = Inr () \<longrightarrow>
               (\<exists>c. db_catalog (w_db (st_world s')) = Some c \<and> conforms (sc_generated_columns cfg) (sc_indexes cfg) c))
        | Exn e \<Rightarrow> (\<exists>(calls, clients) \<in> set opening_stages.
            st_trace s' = st_trace s @ calls \<and> st_open s' = clients)
        | Running \<Rightarrow> False)"

lemma wp_call_any:
  "(\<And>r w'. r \<noteq> Running \<Longrightarrow> same_but_env w w' \<Longrightarrow> Q r w') \<Longrightarrow> wp (call f) Q w"
  by (rule wp_mono [OF call_rule]) blast

text \<open>A store in the middle of an opening.\<close>

definition at_stage :: "'k store \<Rightarrow> client_call list \<times> client list \<Rightarrow> database \<Rightarrow> 'k store \<Rightarrow> bool" where
  "at_stage s stage d v \<longleftrightarrow> same_phase s v \<and> w_saved (st_world v) = None \<and> w_db (st_world v) = d
     \<and> st_trace v = st_trace s @ fst stage \<and> st_open v = snd stage"

lemma opening_raised:
  assumes "at_stage s stage d v" "stage \<in> set opening_stages" "migration_frame (w_db (st_world s)) d"
  shows "opening_post ops cfg s (Exn e) v"
  using assms by (auto simp: opening_post_def at_stage_def intro!: bexI [of _ stage])

lemma opened_rule:
  assumes "at_stage s stage d v" "(fst stage @ [t], snd stage) \<in> set opening_stages"
    and "migration_frame (w_db (st_world s)) d"
    and "\<And>v. at_stage s (fst stage @ [t], snd stage @ [c]) d v \<Longrightarrow> wp m (opening_post ops cfg s) v"
  shows "wp (io_seq (opened c t (call f)) m) (opening_post ops cfg s) v"
proof -
  have "wp (use t (call f)) (\<lambda>r v'. r \<noteq> Running \<and> at_stage s (fst stage @ [t], snd stage) d v') v"
    unfolding wp_use
    by (rule wp_call_any) (use assms(1) in \<open>auto simp: at_stage_def same_phase_def dest!: same_but_env_simps\<close>)
  then show ?thesis
    unfolding opened_def wp_bind
  proof (rule wp_mono, goal_cases)
    case (1 r u)
    have "at_stage s (fst stage @ [t], snd stage @ [c]) d (u\<lparr>st_open := st_open u @ [c]\<rparr>)"
      using 1 by (simp add: at_stage_def same_phase_def)
    with assms(4) opening_raised [OF conjunct2 [OF 1] assms(2,3)] 1 show ?case
      by (cases r) auto
  qed
qed

lemma started_rule:
  assumes "at_stage s stage d v" "(fst stage @ [t], snd stage) \<in> set opening_stages"
    and "migration_frame (w_db (st_world s)) d"
    and "\<And>v. at_stage s (fst stage @ [t], snd stage) d v \<Longrightarrow> wp m (opening_post ops cfg s) v"
  shows "wp (io_seq (started t (call f)) m) (opening_post ops cfg s) v"
proof -
  have "wp (use t (call f)) (\<lambda>r v'. r \<noteq> Running \<and> at_stage s (fst stage @ [t], snd stage) d v') v"
    unfolding wp_use
    by (rule wp_call_any) (use assms(1) in \<open>auto simp: at_stage_def same_phase_def dest!: same_but_env_simps\<close>)
  then show ?thesis
    unfolding started_def wp_bind wp_catch
  proof (rule wp_mono, goal_cases)
    case (1 r u)
    with assms(4) opening_raised [OF conjunct2 [OF 1] assms(2,3)] show ?case
      by (cases r) auto
  qed
qed

text \<open>What the migration of a start establishes.\<close>

definition migrated_tables :: "'k ops \<Rightarrow> store_config \<Rightarrow> database \<Rightarrow> bool" where
  "migrated_tables ops cfg d \<longleftrightarrow> db_owned d = {} \<and> (ddl_engine (op_ddl ops) \<and> validate_config (op_format ops) cfg = Inr () \<longrightarrow>
     (\<exists>c. db_catalog d = Some c \<and> conforms (sc_generated_columns cfg) (sc_indexes cfg) c))"

lemma opening_migration:
  assumes v: "at_stage s ([OpenPool], [PoolClient]) (w_db (st_world s)) v" "w_saved (st_world s) = None"
    and m: "\<And>d v. at_stage s ([OpenPool], [PoolClient]) d v \<Longrightarrow> migration_frame (w_db (st_world s)) d \<Longrightarrow>
      migrated_tables ops cfg d \<Longrightarrow> wp m (opening_post ops cfg s) v"
  shows "wp (io_seq (io_catch (in_world (checked_out ops (sc_busy_timeout cfg)
           (migrate ops (sc_generated_columns cfg) (sc_indexes cfg)))) (\<lambda>e. io_raise (migration_error e))) m)
      (opening_post ops cfg s) v"
proof -
  let ?d = "w_db (st_world s)"
  have saved: "w_saved (st_world v) = None" and db: "w_db (st_world v) = ?d" using v by (simp_all add: at_stage_def)
  show ?thesis unfolding wp_bind wp_catch wp_in_world
  proof (rule wp_mono [OF checked_out_migrate [OF saved]], goal_cases)
    case (1 r w')
    let ?v = "v\<lparr>st_world := w'\<rparr>"
    have stage: "at_stage s ([OpenPool], [PoolClient]) (w_db w') ?v"
      using 1 v by (simp add: at_stage_def same_phase_def)
    have frame: "migration_frame ?d (w_db w')" using 1 db by simp
    show ?case
    proof (cases r)
      case (Ok x)
      with 1 have "migrated_tables ops cfg (w_db w')" using validated_schema by (auto simp: migrated_tables_def)
      from m [OF stage frame this] Ok show ?thesis by simp
    next
      case (Exn e)
      from opening_raised [OF stage _ frame, of ops cfg "migration_error e"] Exn show ?thesis
        by (simp add: opening_stages_def)
    qed (use 1 in simp)
  qed
qed

lemma opening_rule:
  assumes "st_open s = []" "w_saved (st_world s) = None"
  shows "wp (open_clients ops cl cfg) (opening_post ops cfg s) s"
proof -
  let ?d = "w_db (st_world s)"
  have last: "wp (io_seq (started t (call f)) (io_ret ())) (opening_post ops cfg s) v"
    if "at_stage s ([OpenPool, NewProducer, StartProducer, NewAdmin], snd all_opened) d v" "t = StartAdmin"
      "migration_frame ?d d" "migrated_tables ops cfg d" for t f d v
    by (rule started_rule [OF that(1) _ that(3)])
      (use that in \<open>auto simp: opening_stages_def all_opened_def opening_post_def at_stage_def migrated_tables_def\<close>)
  have rest: "wp (io_seq (opened ProducerClient NewProducer (call f))
        (io_seq (started StartProducer (call g))
          (io_seq (opened AdminClient NewAdmin (call h)) (io_seq (started StartAdmin (call i)) (io_ret ())))))
      (opening_post ops cfg s) v"
    if v: "at_stage s ([OpenPool], [PoolClient]) d v" "migration_frame ?d d" "migrated_tables ops cfg d" for f g h i d v
    by (rule opened_rule [OF v(1) _ v(2)], simp add: opening_stages_def,
        rule started_rule, assumption, simp add: opening_stages_def, rule v(2),
        rule opened_rule, assumption, simp add: opening_stages_def, rule v(2),
        rule last, simp add: all_opened_def, simp, rule v(2), rule v(3))
  have "wp (io_seq (open_clients ops cl cfg) (io_ret ())) (opening_post ops cfg s) s"
    unfolding open_clients_def io_bind_assoc
    by (rule opened_rule [where stage = "([], [])" and d = ?d], use assms in \<open>simp add: at_stage_def same_phase_def\<close>,
        simp add: opening_stages_def, simp add: migration_frame_def,
        rule opening_migration, simp, rule assms(2), rule rest)
  then show ?thesis by simp
qed

lemma rollback_calls:
  "(calls, clients) \<in> set opening_stages \<Longrightarrow>
   map (\<lambda>(_, c, _). c) (rollback_steps cl clients) = map close_call (rev clients)"
  by (auto simp: opening_stages_def rollback_steps_def)

lemma rollback_steps_calls: "(n, c, m) \<in> set (rollback_steps cl clients) \<Longrightarrow> \<exists>f. m = call f"
  by (auto simp: rollback_steps_def split: if_splits)

lemma rollback_loop:
  assumes "\<forall>(n, c, m) \<in> set steps. \<exists>f. m = call f"
  shows "wp (io_for rollback_step steps)
     (\<lambda>r v. r = Ok () \<and> same_phase s v \<and> st_open v = st_open s \<and> st_trace v = st_trace s @ map (\<lambda>(_, c, _). c) steps
        \<and> w_db (st_world v) = w_db (st_world s) \<and> w_saved (st_world v) = w_saved (st_world s)
        \<and> w_parts (st_world v) = w_parts (st_world s)) s"
  using assms
proof (induction steps arbitrary: s)
  case Nil
  then show ?case by (simp add: same_phase_def)
next
  case (Cons step steps)
  obtain n c f where step: "step = (n, c, call f)" using Cons.prems by (cases step) auto
  have "wp (rollback_step step) (\<lambda>r v. r = Ok () \<and> same_phase s v \<and> st_open v = st_open s \<and> st_trace v = st_trace s @ [c]
        \<and> w_db (st_world v) = w_db (st_world s) \<and> w_saved (st_world v) = w_saved (st_world s)
        \<and> w_parts (st_world v) = w_parts (st_world s)) s"
    unfolding step rollback_step_def prod.case wp_catch wp_use
    by (rule wp_call_any) (auto simp: same_phase_def split: res.split dest!: same_but_env_simps)
  then show ?case unfolding io_for.simps wp_bind
  proof (rule wp_mono, goal_cases)
    case (1 r u)
    have "\<forall>(n, c, m) \<in> set steps. \<exists>f. m = call f" using Cons.prems by auto
    from Cons.IH [OF this, of u] show ?case
      using 1 by (auto elim!: wp_mono simp: step same_phase_def)
  qed
qed

lemma rollback_rule_start:
  "wp (rollback_start cl)
     (\<lambda>r v. r = Ok () \<and> same_phase s v \<and> st_open v = []
        \<and> st_trace v = st_trace s @ map (\<lambda>(_, c, _). c) (rollback_steps cl (st_open s))
        \<and> w_db (st_world v) = w_db (st_world s) \<and> w_saved (st_world v) = w_saved (st_world s)
        \<and> w_parts (st_world v) = w_parts (st_world s)) s"
  unfolding rollback_start_def wp_bind wp_gets res.case
  by (rule wp_mono [OF rollback_loop]) (auto dest: rollback_steps_calls simp: same_phase_def split: res.split)

definition start_post :: "store_config \<Rightarrow> 'k store \<Rightarrow> unit res \<Rightarrow> 'k store \<Rightarrow> bool" where
  "start_post cfg s r s' \<longleftrightarrow> w_saved (st_world s') = None
     \<and> migration_frame (w_db (st_world s)) (w_db (st_world s'))
     \<and> st_in_flight s' = st_in_flight s \<and> st_drained s' = st_drained s
     \<and> (case r of
          Ok _ \<Rightarrow> st_run s' = RUNNING \<and> st_open s' = snd all_opened \<and> st_trace s' = st_trace s @ fst all_opened
            \<and> records_view (w_db (st_world s')) = [] \<and> w_parts (st_world s') = Map.empty
        | Exn _ \<Rightarrow> st_run s' = NEW \<and> st_open s' = []
            \<and> (s' = s \<or> (\<exists>(calls, clients) \<in> set opening_stages.
                 st_trace s' = st_trace s @ calls @ map close_call (rev clients)))
        | Running \<Rightarrow> False)"

definition start_schema :: "'k ops \<Rightarrow> store_config \<Rightarrow> unit res \<Rightarrow> 'k store \<Rightarrow> bool" where
  "start_schema ops cfg r s' \<longleftrightarrow> (r = Ok () \<and> ddl_engine (op_ddl ops) \<longrightarrow>
     (\<exists>c. db_catalog (w_db (st_world s')) = Some c \<and> conforms (sc_generated_columns cfg) (sc_indexes cfg) c))"

lemma start_rule:
  assumes "st_run s = NEW" "st_open s = []" "w_saved (st_world s) = None"
  shows "wp (start ops cl cfg) (\<lambda>r s'. start_post cfg s r s' \<and> start_schema ops cfg r s') s"
    (is "wp _ ?P s")
proof (cases "validate_config (op_format ops) cfg")
  case (Inl e)
  then show ?thesis using assms(1-3) by (simp add: start_def start_post_def start_schema_def migration_frame_def)
next
  case (Inr u)
  show ?thesis
  proof (cases "check_sqlite_version (cl_sqlite_version cl)")
    case version: (Inr u')
    have "wp (io_seq (io_catch (open_clients ops cl cfg) (\<lambda>e. io_seq (rollback_start cl) (io_raise e)))
         (io_modify compose_services)) ?P s"
      unfolding wp_bind [of "io_catch _ _"] wp_catch
    proof (rule wp_mono [OF opening_rule [OF assms(2,3), of ops cl cfg]], goal_cases)
      case (1 r v)
      show ?case
      proof (cases r)
        case (Ok x)
        with 1 Inr show ?thesis
          by (auto simp: start_post_def start_schema_def opening_post_def same_phase_def compose_services_def
            all_opened_def migration_frame_def records_view_def)
      next
        case (Exn e)
        with 1 obtain calls clients where at: "(calls, clients) \<in> set opening_stages"
            "st_trace v = st_trace s @ calls" "st_open v = clients"
          by (auto simp: opening_post_def)
        show ?thesis unfolding Exn res.case wp_bind
        proof (rule wp_mono [OF rollback_rule_start], goal_cases)
          case (1 q u)
          have "st_trace u = st_trace s @ calls @ map close_call (rev clients)"
            using 1 at rollback_calls [OF at(1)] by simp
          then have "\<exists>(calls, clients) \<in> set opening_stages. st_trace u = st_trace s @ calls @ map close_call (rev clients)"
            using at(1) by blast
          with 1 \<open>opening_post ops cfg s r v\<close> Exn assms(1) show ?case
            by (simp add: start_post_def start_schema_def opening_post_def same_phase_def migration_frame_def)
        qed
      qed (use 1 in \<open>simp add: opening_post_def\<close>)
    qed
    then show ?thesis using assms(1) Inr version unfolding start_def
      by (simp only: wp_bind [of "io_gets _"] wp_gets res.case simp_thms if_False
          wp_bind [of "in_world _"] wp_in_world wp_lift_res sum.case store.surjective store.update_convs) simp
  qed (use Inr assms(1-3) in \<open>simp add: start_def start_post_def start_schema_def migration_frame_def\<close>)
qed

section \<open>Properties\<close>


text \<open>Clients whose every call succeeds.\<close>

definition good_clients :: "fake clients" where
  "good_clients =
     \<lparr>cl_open_pool = (\<lambda>k. (Inr (), k)), cl_pool_close = (\<lambda>k. (Inr (), k)),
      cl_new_producer = (\<lambda>_ k. (Inr (), k)), cl_producer_start = (\<lambda>k. (Inr (), k)),
      cl_producer_flush = (\<lambda>k. (Inr (), k)), cl_producer_stop = (\<lambda>k. (Inr (), k)),
      cl_new_admin = (\<lambda>_ k. (Inr (), k)), cl_admin_start = (\<lambda>k. (Inr (), k)),
      cl_admin_close = (\<lambda>k. (Inr (), k)), cl_new_consumer = (\<lambda>_ k. (Inr (), k)),
      cl_admin_params = {lit ''security_protocol'', lit ''sasl_mechanism''},
      cl_sqlite_version = (3, 45, 1)\<rparr>"

definition thread_config :: store_config where
  "thread_config =
     \<lparr>sc_bootstrap_servers = lit ''localhost:9092'', sc_template = DEFAULT_CHANGELOG_TEMPLATE,
      sc_create_topics_retention_ms = Some 1000, sc_verify_changelog_policy = True,
      sc_generated_columns = [thread_column], sc_indexes = [thread_index], sc_pool_size = 16,
      sc_busy_timeout = 5, sc_rehydrate_timeout = 30,
      sc_producer_config = Map.empty, sc_consumer_config = [lit ''group_id'' \<mapsto> CfgStr (lit ''g'')]\<rparr>"

lemma thread_config_valid: "validate_config ext thread_config = Inr ()"
proof -
  have "validate_changelog_template ext DEFAULT_CHANGELOG_TEMPLATE = Inr ()"
    by (rule default_template_accepted)
  moreover have "validate_index thread_index [col_name thread_column] = Inr ()"
    by (simp add: validate_index_def validate_identifier_def thread_index_def thread_column_def
        ident_start_def ident_char_def lit_def)
  ultimately show ?thesis
    using thread_valid(1) by (simp add: validate_config_def thread_config_def)
qed

lemma checked_out_yields:
  assumes "yields m d x d' es" "w_db w = d" "w_saved w = None" "op_acquire ops (w_env w) = (Inr (Idle False q), w_env w)"
    and ops: "\<And>k. op_release ops k = (Inr (), k)" "\<And>s k. op_verdict ops s k = (Runs, k)"
  shows "fst (checked_out ops bt m w) = Ok x"
proof -
  let ?v = "w\<lparr>w_saved := None, w_query_only := False\<rparr>"
  obtain k where "m ?v = (Ok x, ?v\<lparr>w_env := k, w_db := d', w_log := w_log ?v @ es\<rparr>)"
    using assms(1) [unfolded yields_def, rule_format, of ?v] assms(2) by auto
  then show ?thesis using assms(3,4)
    by (simp add: checked_out_def acquire_def call_def ops io_simps execute_def ask_def run_stmt_def
        in_transaction_def release_def)
qed

lemma thread_start_returns:
  "fst (start sqlite_ops good_clients thread_config (new_store (boot fake_start migrated_database))) = Ok ()"
proof -
  have y: "yields (migrate sqlite_ops [thread_column] [thread_index]) migrated_database () (owned_delete_all migrated_database)
      (orphan_events [thread_column] [thread_index] thread_catalog)"
    by (rule yields_migrate [OF sqlite_ops_engine(2) _ thread_catalog_conforms]) (simp add: migrated_database_def)
  let ?w = "(boot fake_start migrated_database)\<lparr>w_parts := Map.empty\<rparr>"
  obtain w' where "checked_out sqlite_ops 5 (migrate sqlite_ops [thread_column] [thread_index]) ?w = (Ok (), w')"
    using checked_out_yields [OF y, of ?w sqlite_ops False 5]
    by (cases "checked_out sqlite_ops 5 (migrate sqlite_ops [thread_column] [thread_index]) ?w")
      (simp add: sqlite_ops_def fake_ops_def)
  moreover have "sc_busy_timeout thread_config = 5" "sc_generated_columns thread_config = [thread_column]"
    "sc_indexes thread_config = [thread_index]" "check_sqlite_version (cl_sqlite_version good_clients) = Inr ()"
    by (simp_all add: thread_config_def good_clients_def check_sqlite_version_def SQLITE_VERSION_FLOOR_def)
  ultimately show ?thesis
    by (simp add: start_def new_store_def thread_config_valid in_world_def lift_res_def io_simps open_clients_def
        opened_def started_def use_def trace_def call_def good_clients_def)
qed


text \<open>
  C38. Closing what a failed start opened never hides why it failed: the outcome of \<^verbatim>\<open>start\<close> is the
  same whatever the three close calls do, also when they raise or are cancelled.
\<close>

theorem start_error_not_masked:
  "fst (start ops (cl\<lparr>cl_pool_close := a, cl_producer_stop := b, cl_admin_close := c\<rparr>) cfg s)
     = fst (start ops cl cfg s)"
proof -
  let ?cl = "cl\<lparr>cl_pool_close := a, cl_producer_stop := b, cl_admin_close := c\<rparr>"
  have same: "open_clients ops ?cl cfg = open_clients ops cl cfg"
    by (simp add: open_clients_def)
  have version: "cl_sqlite_version ?cl = cl_sqlite_version cl" by simp
  have quiet: "\<exists>v. rollback_start cl u = (Ok (), v)" for cl :: "'a clients" and u
    using rollback_rule_start [of cl u] by (auto simp: wp_def)
  have after: "fst (io_bind m f u) = fst (io_bind m g u)" if "\<And>x v. fst (f x v) = fst (g x v)"
    for m :: "('a, 'b) sact" and f g :: "'b \<Rightarrow> ('a, unit) sact" and u
    using that by (auto simp: io_bind_def split: prod.split res.split)
  have tail: "fst (io_seq (io_catch m (\<lambda>e. io_seq (rollback_start ?cl) (io_raise e))) n u)
      = fst (io_seq (io_catch m (\<lambda>e. io_seq (rollback_start cl) (io_raise e))) n u)" for m n :: "('a, unit) sact" and u
  proof (cases "m u")
    case (Pair r v)
    obtain y z where "rollback_start ?cl v = (Ok (), y)" "rollback_start cl v = (Ok (), z)"
      using quiet by blast
    with Pair show ?thesis by (cases r) (auto simp: io_catch_def io_bind_def io_raise_def)
  qed
  show ?thesis
    unfolding start_def same version
  proof (rule after, goal_cases)
    case (1 phase v)
    show ?case by (cases "phase = NEW") (simp_all only: simp_thms if_True if_False, intro after tail)
  qed
qed

end
