(* ===== verification/Store_Lifecycle.thy ===== *)
theory Store_Lifecycle imports
  Store_Start
begin

text \<open>
  The facade under concurrency. The event loop interleaves any number of \<^verbatim>\<open>append\<close> and \<^verbatim>\<open>stop\<close>
  calls at their \<^verbatim>\<open>await\<close>s; a step of the relation below is the code between two of them.
  The invariants say what \<^verbatim>\<open>stop\<close> promises about the appends in flight, progress says that
  it finishes, and the last section what happens to a \<^verbatim>\<open>stop\<close> cancelled while it drains.
\<close>

section \<open>Steps\<close>

text \<open>
  A \<^verbatim>\<open>stop\<close> in flight: waiting for the drain, or in the close sequence with the steps to come
  and the first failure so far.
\<close>

datatype 'k stop_task = Draining | Closing "'k close_action list" "exn option"

record 'k system =
  sys_store :: "'k store"
  sys_appends :: nat
  sys_stops :: "'k stop_task list"

text \<open>The steps that need no new call of the host.\<close>

inductive progress :: "'k ops \<Rightarrow> 'k clients \<Rightarrow> 'k system \<Rightarrow> 'k system \<Rightarrow> bool"
  for ops :: "'k ops" and cl :: "'k clients" where
  append_leaves:
    "0 < sys_appends y \<Longrightarrow> leave_append (sys_store y) = (Ok (), s) \<Longrightarrow>
     progress ops cl y (y\<lparr>sys_store := s, sys_appends := sys_appends y - 1\<rparr>)"
| stop_drained:
    "sys_stops y = ts @ Draining # us \<Longrightarrow> st_drained (sys_store y) \<Longrightarrow>
     progress ops cl y (y\<lparr>sys_store := (sys_store y)\<lparr>st_run := CLOSED\<rparr>,
       sys_stops := ts @ Closing (close_steps ops cl) None # us\<rparr>)"
| stop_closes:
    "sys_stops y = ts @ Closing (step # steps) first_exc # us \<Longrightarrow>
     close_step step (sys_store y) = (Ok failure, s) \<Longrightarrow>
     progress ops cl y (y\<lparr>sys_store := s,
       sys_stops := ts @ Closing steps (if first_exc = None then failure else first_exc) # us\<rparr>)"
| stop_ends:
    "sys_stops y = ts @ Closing [] first_exc # us \<Longrightarrow>
     progress ops cl y (y\<lparr>sys_stops := ts @ us\<rparr>)"

text \<open>
  All steps: the host calls \<^verbatim>\<open>append\<close> or \<^verbatim>\<open>stop\<close>, a service does some of its work, a waiting
  \<^verbatim>\<open>stop\<close> is cancelled, or one of the above.
\<close>

inductive facade_step :: "'k ops \<Rightarrow> 'k clients \<Rightarrow> 'k system \<Rightarrow> 'k system \<Rightarrow> bool"
  for ops :: "'k ops" and cl :: "'k clients" where
  progresses: "progress ops cl y z \<Longrightarrow> facade_step ops cl y z"
| append_enters:
    "enter_append (sys_store y) = (Ok (), s) \<Longrightarrow>
     facade_step ops cl y (y\<lparr>sys_store := s, sys_appends := sys_appends y + 1\<rparr>)"
| append_refused:
    "enter_append (sys_store y) = (Exn e, s) \<Longrightarrow> facade_step ops cl y (y\<lparr>sys_store := s\<rparr>)"
| service_works: "facade_step ops cl y (y\<lparr>sys_store := (sys_store y)\<lparr>st_world := w\<rparr>\<rparr>)"
| stop_waits:
    "begin_stop (sys_store y) = (Ok True, s) \<Longrightarrow> 0 < st_in_flight s \<Longrightarrow>
     facade_step ops cl y (y\<lparr>sys_store := s, sys_stops := Draining # sys_stops y\<rparr>)"
| stop_proceeds:
    "begin_stop (sys_store y) = (Ok True, s) \<Longrightarrow> \<not> 0 < st_in_flight s \<Longrightarrow>
     facade_step ops cl y (y\<lparr>sys_store := s\<lparr>st_run := CLOSED\<rparr>,
       sys_stops := Closing (close_steps ops cl) None # sys_stops y\<rparr>)"
| stop_returns:
    "begin_stop (sys_store y) = (Ok False, s) \<Longrightarrow> facade_step ops cl y (y\<lparr>sys_store := s\<rparr>)"
| stop_refused:
    "begin_stop (sys_store y) = (Exn e, s) \<Longrightarrow> facade_step ops cl y (y\<lparr>sys_store := s\<rparr>)"
| stop_cancelled:
    "sys_stops y = ts @ Draining # us \<Longrightarrow> facade_step ops cl y (y\<lparr>sys_stops := ts @ us\<rparr>)"

abbreviation facade_reaches :: "'k ops \<Rightarrow> 'k clients \<Rightarrow> 'k system \<Rightarrow> 'k system \<Rightarrow> bool" where
  "facade_reaches ops cl \<equiv> (facade_step ops cl)\<^sup>*\<^sup>*"

text \<open>A store that has just been started.\<close>

definition running :: "'k store \<Rightarrow> 'k system" where
  "running s = \<lparr>sys_store = s, sys_appends = 0, sys_stops = []\<rparr>"

definition just_started :: "'k store \<Rightarrow> bool" where
  "just_started s \<longleftrightarrow> st_run s = RUNNING \<and> st_in_flight s = 0 \<and> \<not> st_drained s"

inductive_cases progressE: "progress ops cl y z"

section \<open>The steps of the code\<close>

lemma enter_append_iff:
  "enter_append s = (Ok (), s') \<longleftrightarrow> st_run s = RUNNING \<and> s' = s\<lparr>st_in_flight := st_in_flight s + 1\<rparr>"
  "enter_append s = (Exn e, s') \<longleftrightarrow> st_run s \<noteq> RUNNING \<and> s' = s \<and> e = LifecycleError"
  by (auto simp: enter_append_def ensure_running_def io_simps)

lemma leave_append_iff:
  "leave_append s = (r, s') \<longleftrightarrow> r = Ok () \<and>
     s' = s\<lparr>st_in_flight := st_in_flight s - 1,
            st_drained := st_drained s \<or> st_run s \<noteq> RUNNING \<and> st_in_flight s = 1\<rparr>"
  by (cases "st_drained s") (auto simp: leave_append_def io_simps)

lemma begin_stop_iff:
  "begin_stop s = (Ok True, s') \<longleftrightarrow> st_run s = RUNNING \<and> s' = s\<lparr>st_run := STOPPING\<rparr>"
  "begin_stop s = (Ok False, s') \<longleftrightarrow> (st_run s = STOPPING \<or> st_run s = CLOSED) \<and> s' = s"
  "begin_stop s = (Exn e, s') \<longleftrightarrow> st_run s = NEW \<and> s' = s \<and> e = LifecycleError"
  by (cases "st_run s"; auto simp: begin_stop_def io_simps)+

lemma halts_aclose: "halts (aclose ops)"
  unfolding aclose_def by (intro halts_intros)

lemma halts_close_steps: "(n, c, m) \<in> set (close_steps ops cl) \<Longrightarrow> halts m"
  by (auto simp: close_steps_def intro: halts_aclose halts_intros)

text \<open>A close step always comes to an end, with one more call in the trace.\<close>

lemma close_step_ends:
  assumes "halts m"
  shows "\<exists>failure s'. close_step (n, c, m) s = (Ok failure, s') \<and> same_phase s s' \<and> st_trace s' = st_trace s @ [c]"
proof -
  have "wp (close_step (n, c, m)) (\<lambda>r s'. (\<exists>failure. r = Ok failure) \<and> same_phase s s' \<and> st_trace s' = st_trace s @ [c]) s"
    unfolding close_step_def prod.case wp_bind wp_attempt wp_use
    by (rule wp_mono [OF halts_wp [OF assms]]) (auto simp: same_phase_def split: res.split)
  then show ?thesis by (auto simp: wp_def split: prod.splits)
qed

section \<open>The invariant\<close>

definition CLOSES :: "client_call list" where
  "CLOSES = [FlushProducer, StopProducer, StopConsumer, CloseAdmin, ClosePool]"

lemma close_steps_calls: "map (\<lambda>(_, c, _). c) (close_steps ops cl) = CLOSES" "length (close_steps ops cl) = 5"
  by (simp_all add: close_steps_def CLOSES_def)

text \<open>The calls of the close sequence that were made: all but those of the steps to come.\<close>

definition closed_so_far :: "'k ops \<Rightarrow> 'k clients \<Rightarrow> 'k stop_task list \<Rightarrow> client_call list \<Rightarrow> bool" where
  "closed_so_far ops cl ts calls \<longleftrightarrow> ts = [] \<and> calls = CLOSES
     \<or> (\<exists>n first_exc. n \<le> 5 \<and> ts = [Closing (drop n (close_steps ops cl)) first_exc] \<and> calls = take n CLOSES)"

lemma closed_so_far_at:
  "closed_so_far ops cl (ts @ t # us) calls \<longleftrightarrow> ts = [] \<and> us = [] \<and>
     (\<exists>steps first_exc n. t = Closing steps first_exc \<and> n \<le> 5 \<and> steps = drop n (close_steps ops cl)
        \<and> calls = take n CLOSES)"
  by (auto simp: closed_so_far_def append_eq_Cons_conv)

definition facade_inv :: "'k ops \<Rightarrow> 'k clients \<Rightarrow> client_call list \<Rightarrow> 'k system \<Rightarrow> bool" where
  "facade_inv ops cl base y \<longleftrightarrow> (let s = sys_store y in
     st_in_flight s = int (sys_appends y) \<and>
     (case st_run s of
        NEW \<Rightarrow> False
      | RUNNING \<Rightarrow> sys_stops y = [] \<and> \<not> st_drained s \<and> st_trace s = base
      | STOPPING \<Rightarrow> (sys_stops y = [] \<or> sys_stops y = [Draining]) \<and> (st_drained s \<longleftrightarrow> sys_appends y = 0) \<and> st_trace s = base
      | CLOSED \<Rightarrow> sys_appends y = 0 \<and> (\<exists>calls. st_trace s = base @ calls \<and> closed_so_far ops cl (sys_stops y) calls)))"

lemma inv_start: "just_started s \<Longrightarrow> facade_inv ops cl (st_trace s) (running s)"
  by (simp add: facade_inv_def just_started_def running_def Let_def)

text \<open>Where a stop that closes stands, and one close call of it.\<close>

lemma closing_at:
  assumes "facade_inv ops cl base y" "sys_stops y = ts @ Closing steps first_exc # us"
  obtains n where "st_run (sys_store y) = CLOSED" "sys_appends y = 0" "st_in_flight (sys_store y) = 0"
    "ts = []" "us = []" "n \<le> 5" "steps = drop n (close_steps ops cl)" "st_trace (sys_store y) = base @ take n CLOSES"
proof -
  have run: "st_run (sys_store y) = CLOSED" "sys_appends y = 0" "st_in_flight (sys_store y) = 0"
    and "\<exists>calls. st_trace (sys_store y) = base @ calls \<and> closed_so_far ops cl (sys_stops y) calls"
    using assms by (auto simp: facade_inv_def Let_def append_eq_Cons_conv split: run_state.splits)
  with assms(2) that show thesis by (auto simp: closed_so_far_at)
qed

lemma inv_close:
  assumes "facade_inv ops cl base y" "sys_stops y = ts @ Closing (step # steps) first_exc # us"
    and close: "close_step step (sys_store y) = (Ok failure, s)"
  shows "facade_inv ops cl base (y\<lparr>sys_store := s,
    sys_stops := ts @ Closing steps (if first_exc = None then failure else first_exc) # us\<rparr>)"
proof -
  obtain n where run: "st_run (sys_store y) = CLOSED" "sys_appends y = 0" "st_in_flight (sys_store y) = 0"
    and n: "ts = []" "us = []" "n \<le> 5" "step # steps = drop n (close_steps ops cl)"
      "st_trace (sys_store y) = base @ take n CLOSES"
    using closing_at [OF assms(1,2)] by blast
  have less: "n < 5" using n(3,4) by (cases "n = 5") (auto simp: close_steps_calls)
  have step: "step = close_steps ops cl ! n" "steps = drop (Suc n) (close_steps ops cl)"
    using n(4) less by (auto simp: Cons_nth_drop_Suc [symmetric] close_steps_calls)
  obtain name c m where c: "step = (name, c, m)" by (cases step)
  have "(\<lambda>(_, c, _). c) (close_steps ops cl ! n) = CLOSES ! n"
    using less by (metis close_steps_calls nth_map)
  then have "c = CLOSES ! n" by (simp add: step(1) [symmetric] c)
  then have "take (Suc n) CLOSES = take n CLOSES @ [c]"
    using less by (metis close_steps_calls length_map take_Suc_conv_app_nth)
  moreover have "halts m" using halts_close_steps [of name c m ops cl] step(1) c less
    by (metis close_steps_calls(2) nth_mem)
  then have "same_phase (sys_store y) s \<and> st_trace s = st_trace (sys_store y) @ [c]"
    using close_step_ends [of m name c "sys_store y"] close c by auto
  moreover have "closed_so_far ops cl [Closing steps f] (take (Suc n) CLOSES)" for f
    using less step(2) unfolding closed_so_far_def by (auto intro: exI [of _ "Suc n"])
  ultimately show ?thesis using run n by (simp add: facade_inv_def Let_def same_phase_def)
qed

lemma inv_progress:
  assumes "facade_inv ops cl base y" "progress ops cl y z"
  shows "facade_inv ops cl base z"
  using assms(2)
proof cases
  case (append_leaves s)
  then show ?thesis using assms(1)
    by (auto simp: facade_inv_def Let_def leave_append_iff split: run_state.splits)
next
  case (stop_drained ts us)
  then have "st_run (sys_store y) = STOPPING" "ts = []" "us = []" "sys_appends y = 0"
      "st_trace (sys_store y) = base" "st_in_flight (sys_store y) = 0"
    using assms(1)
    by (auto simp: facade_inv_def Let_def closed_so_far_at append_eq_Cons_conv split: run_state.splits)
  moreover have "closed_so_far ops cl [Closing (close_steps ops cl) None] []"
    by (auto simp: closed_so_far_def intro: exI [of _ 0])
  ultimately show ?thesis using stop_drained by (simp add: facade_inv_def Let_def)
next
  case (stop_closes ts step steps first_exc us failure s)
  then show ?thesis using inv_close [OF assms(1) stop_closes(2,3)] by simp
next
  case (stop_ends ts first_exc us)
  obtain n where run: "st_run (sys_store y) = CLOSED" "sys_appends y = 0" "st_in_flight (sys_store y) = 0"
    and n: "ts = []" "us = []" "n \<le> 5" "[] = drop n (close_steps ops cl)" "st_trace (sys_store y) = base @ take n CLOSES"
    using closing_at [OF assms(1) stop_ends(2)] by blast
  have "n = 5" using n(3,4) by (simp add: close_steps_calls)
  with n run show ?thesis using stop_ends(1)
    by (simp add: facade_inv_def Let_def closed_so_far_def CLOSES_def)
qed

lemma inv_step:
  assumes "facade_inv ops cl base y" "facade_step ops cl y z"
  shows "facade_inv ops cl base z"
  using assms(2)
proof cases
  case progresses
  then show ?thesis by (rule inv_progress [OF assms(1)])
next
  case (stop_proceeds s)
  then have s: "s = (sys_store y)\<lparr>st_run := STOPPING\<rparr>" "st_run (sys_store y) = RUNNING"
    by (simp_all add: begin_stop_iff)
  with stop_proceeds assms(1) have y: "sys_appends y = 0" "sys_stops y = []" "st_trace (sys_store y) = base"
      "st_in_flight (sys_store y) = 0"
    by (simp_all add: facade_inv_def Let_def)
  have "closed_so_far ops cl [Closing (close_steps ops cl) None] []"
    unfolding closed_so_far_def by (auto intro: exI [of _ 0])
  with stop_proceeds s y show ?thesis by (simp add: facade_inv_def Let_def)
next
  case (stop_cancelled ts us)
  then have "st_run (sys_store y) = STOPPING \<and> ts = [] \<and> us = []"
    using assms(1)
    by (auto simp: facade_inv_def Let_def closed_so_far_at append_eq_Cons_conv split: run_state.splits)
  with stop_cancelled assms(1) show ?thesis by (simp add: facade_inv_def Let_def)
qed (use assms(1) in \<open>auto simp: facade_inv_def Let_def enter_append_iff begin_stop_iff split: run_state.splits\<close>)

lemma inv_reachable:
  "facade_reaches ops cl y z \<Longrightarrow> facade_inv ops cl base y \<Longrightarrow> facade_inv ops cl base z"
  by (induction rule: rtranclp_induct) (auto intro: inv_step)

section \<open>Progress\<close>

text \<open>How many steps of progress are left.\<close>

fun task_size :: "'k stop_task \<Rightarrow> nat" where
  "task_size Draining = 7"
| "task_size (Closing steps first_exc) = Suc (length steps)"

definition steps_left :: "'k system \<Rightarrow> nat" where
  "steps_left y = sys_appends y + sum_list (map task_size (sys_stops y))"

lemma progress_decreases: "progress ops cl y z \<Longrightarrow> steps_left z < steps_left y"
  by (cases rule: progress.cases) (auto simp: steps_left_def close_steps_calls)

lemma append_can_leave: "0 < sys_appends y \<Longrightarrow> \<exists>z. progress ops cl y z"
  using append_leaves [of y] leave_append_iff by blast

text \<open>Nothing of the store is left to do only when the store is closed.\<close>

lemma stuck_closed:
  assumes "facade_inv ops cl base y" "\<And>z. \<not> progress ops cl y z"
    and "sys_stops y \<noteq> [] \<or> st_run (sys_store y) = CLOSED"
  shows "st_run (sys_store y) = CLOSED \<and> sys_appends y = 0 \<and> sys_stops y = [] \<and> st_trace (sys_store y) = base @ CLOSES"
proof -
  have idle: "sys_appends y = 0" using append_can_leave assms(2) by blast
  have not_draining: "sys_stops y \<noteq> [Draining]" if "st_run (sys_store y) = STOPPING"
    using assms(1,2) that idle stop_drained [of y "[]" "[]" ops cl] by (auto simp: facade_inv_def Let_def)
  have closed: "st_run (sys_store y) = CLOSED"
    using assms(1,3) not_draining by (auto simp: facade_inv_def Let_def split: run_state.splits)
  then obtain calls where calls: "st_trace (sys_store y) = base @ calls" "closed_so_far ops cl (sys_stops y) calls"
    using assms(1) by (auto simp: facade_inv_def Let_def)
  have "sys_stops y = []"
  proof (rule ccontr)
    assume "sys_stops y \<noteq> []"
    then obtain steps first_exc where stops: "sys_stops y = [Closing steps first_exc]"
      "set steps \<subseteq> set (close_steps ops cl)"
      using calls(2) that by (auto simp: closed_so_far_def dest: in_set_dropD)
    show False
    proof (cases steps)
      case Nil
      then show False using stop_ends [of y "[]" first_exc "[]" ops cl] stops assms(2) by simp
    next
      case (Cons step rest)
      obtain n c m where step: "step = (n, c, m)" by (cases step)
      have "halts m" using halts_close_steps [of n c m ops cl] stops(2) Cons step by auto
      then obtain failure s' where "close_step step (sys_store y) = (Ok failure, s')"
        using close_step_ends step by blast
      then show False
        using stop_closes [of y "[]" step rest first_exc "[]" failure s' ops cl] stops(1) Cons assms(2) by simp
    qed
  qed
  with closed idle calls show ?thesis by (simp add: closed_so_far_def)
qed

lemma progress_stays:
  assumes "progress ops cl y z" "facade_inv ops cl base y" "sys_stops y \<noteq> [] \<or> st_run (sys_store y) = CLOSED"
  shows "sys_stops z \<noteq> [] \<or> st_run (sys_store z) = CLOSED"
  using assms
proof cases
  case (stop_closes ts step steps first_exc us failure s)
  then show ?thesis by simp
next
  case (stop_ends ts first_exc us)
  then have "st_run (sys_store y) = CLOSED"
    using assms(2) by (auto simp: facade_inv_def Let_def append_eq_Cons_conv split: run_state.splits)
  then show ?thesis using stop_ends by simp
qed (use assms in \<open>auto simp: leave_append_iff\<close>)

section \<open>Properties\<close>

text \<open>
  C14. The drain. In every interleaving of appends, stops and the work of the services, the counter
  is the number of appends in flight; no client is closed while an append is in flight; no
  client is closed twice, and the calls made are a prefix of flush, stop, stop the consumer,
  close the admin client, close the pool.
\<close>

theorem drain_before_close:
  assumes "just_started s" "facade_reaches ops cl (running s) y"
  shows "st_in_flight (sys_store y) = int (sys_appends y) \<and> length (sys_stops y) \<le> 1
     \<and> (\<exists>n. st_trace (sys_store y) = st_trace s @ take n CLOSES
          \<and> (n = 0 \<or> st_run (sys_store y) = CLOSED \<and> sys_appends y = 0))"
proof -
  have "facade_inv ops cl (st_trace s) y" using inv_reachable [OF assms(2) inv_start [OF assms(1)]] .
  moreover have "take 5 CLOSES = CLOSES" by (simp add: CLOSES_def)
  ultimately show ?thesis
    unfolding facade_inv_def Let_def closed_so_far_def
    by (cases "st_run (sys_store y)") (auto intro: exI [of _ 0] exI [of _ 5])
qed

text \<open>A store with an append in flight and a stop that waits for it.\<close>

definition started_store :: "fake store" where
  "started_store =
     \<lparr>st_world = boot fake_start empty_database, st_run = RUNNING, st_in_flight = 0, st_drained = False,
      st_open = snd all_opened, st_trace = fst all_opened\<rparr>"

definition draining_system :: "fake system" where
  "draining_system =
     \<lparr>sys_store = started_store\<lparr>st_run := STOPPING, st_in_flight := 1\<rparr>, sys_appends = 1, sys_stops = [Draining]\<rparr>"

lemma draining_reached:
  "just_started started_store" "facade_reaches fake_ops good_clients (running started_store) draining_system"
proof -
  show "just_started started_store" by (simp add: just_started_def started_store_def)
  let ?y = "running started_store\<lparr>sys_store := started_store\<lparr>st_in_flight := 1\<rparr>, sys_appends := 1\<rparr>"
  have "facade_step fake_ops good_clients (running started_store) ?y"
    using append_enters [of "running started_store" "started_store\<lparr>st_in_flight := 1\<rparr>" fake_ops good_clients]
    by (simp add: enter_append_iff running_def started_store_def)
  moreover have "facade_step fake_ops good_clients ?y draining_system"
    using stop_waits [of ?y "started_store\<lparr>st_run := STOPPING, st_in_flight := 1\<rparr>" fake_ops good_clients]
    by (simp add: begin_stop_iff running_def started_store_def draining_system_def)
  ultimately show "facade_reaches fake_ops good_clients (running started_store) draining_system"
    by (meson converse_rtranclp_into_rtranclp r_into_rtranclp)
qed

lemma drain_before_close_witness:
  "st_in_flight (sys_store draining_system) = int (sys_appends draining_system) \<and> length (sys_stops draining_system) \<le> 1
     \<and> (\<exists>n. st_trace (sys_store draining_system) = st_trace started_store @ take n CLOSES
          \<and> (n = 0 \<or> st_run (sys_store draining_system) = CLOSED \<and> sys_appends draining_system = 0))"
  by (rule drain_before_close [OF draining_reached])

text \<open>
  C15. A stop finishes. Once a stop call waits or closes, the appends in flight can leave and the
  close sequence can go on: every run of such steps is no longer than \<open>steps_left\<close>, and a run
  that cannot go on has closed the store, with no append left and all five close calls made,
  whatever failed on the way.
\<close>

theorem stop_finishes:
  assumes "just_started s" "facade_reaches ops cl (running s) y"
    and "sys_stops y \<noteq> [] \<or> st_run (sys_store y) = CLOSED" "(progress ops cl ^^ n) y z"
  shows "n \<le> steps_left y \<and> ((\<forall>z'. \<not> progress ops cl z z') \<longrightarrow>
     st_run (sys_store z) = CLOSED \<and> sys_appends z = 0 \<and> sys_stops z = []
     \<and> st_trace (sys_store z) = st_trace s @ CLOSES)"
proof -
  have inv: "facade_inv ops cl (st_trace s) y" using inv_reachable [OF assms(2) inv_start [OF assms(1)]] .
  have "n + steps_left z \<le> steps_left y \<and> facade_inv ops cl (st_trace s) z
      \<and> (sys_stops z \<noteq> [] \<or> st_run (sys_store z) = CLOSED)"
    using assms(4)
  proof (induction n arbitrary: z)
    case 0
    then show ?case using inv assms(3) by simp
  next
    case (Suc n)
    then obtain x where x: "(progress ops cl ^^ n) y x" "progress ops cl x z" by auto
    with Suc.IH [OF x(1)] progress_decreases [OF x(2)] inv_progress [OF _ x(2)] progress_stays [OF x(2)]
    show ?case by (auto simp: less_eq_Suc_le)
  qed
  with stuck_closed [of ops cl "st_trace s" z] show ?thesis by auto
qed

lemma progress_ends: "\<exists>n z. (progress ops cl ^^ n) y z \<and> (\<forall>z'. \<not> progress ops cl z z')"
proof (induction "steps_left y" arbitrary: y rule: less_induct)
  case less
  show ?case
  proof (cases "\<exists>x. progress ops cl y x")
    case True
    then obtain x where x: "progress ops cl y x" by blast
    from less [OF progress_decreases [OF x]] obtain n z
      where "(progress ops cl ^^ n) x z" "\<forall>z'. \<not> progress ops cl z z'" by blast
    then show ?thesis using relpowp_Suc_I2 [where P = "progress ops cl", OF x] by blast
  next
    case False
    then show ?thesis using relpowp_0_I by metis
  qed
qed

lemma stop_finishes_witness:
  "\<exists>n z. (progress fake_ops good_clients ^^ n) draining_system z \<and> n \<le> 8 \<and> st_run (sys_store z) = CLOSED
     \<and> st_trace (sys_store z) = fst all_opened @ CLOSES"
proof -
  obtain n z where z: "(progress fake_ops good_clients ^^ n) draining_system z"
      "\<forall>z'. \<not> progress fake_ops good_clients z z'"
    using progress_ends by blast
  have "sys_stops draining_system \<noteq> [] \<or> st_run (sys_store draining_system) = CLOSED"
    by (simp add: draining_system_def)
  moreover have "steps_left draining_system = 8" "st_trace started_store = fst all_opened"
    by (simp_all add: steps_left_def draining_system_def started_store_def)
  ultimately show ?thesis
    using stop_finishes [OF draining_reached _ z(1)] z by fastforce
qed

text \<open>
  C39. A stop that is cancelled while it waits for the drain closes nothing and is not made up for:
  the store stays in \<^verbatim>\<open>STOPPING\<close>, in every later state no client has been closed, every
  later \<^verbatim>\<open>stop\<close> returns at once without closing anything, and every append is refused.
\<close>

theorem abandoned_stop_never_closes:
  assumes "just_started s" "facade_reaches ops cl (running s) y"
    and "st_run (sys_store y) = STOPPING" "sys_stops y = []" "facade_reaches ops cl y z"
  shows "st_run (sys_store z) = STOPPING \<and> sys_stops z = [] \<and> st_trace (sys_store z) = st_trace s
    \<and> stop ops cl (sys_store z) = (Ok (), sys_store z)
    \<and> enter_append (sys_store z) = (Exn LifecycleError, sys_store z)"
proof -
  have trace: "st_trace (sys_store y) = st_trace s"
    using inv_reachable [OF assms(2) inv_start [OF assms(1)]] assms(3) by (simp add: facade_inv_def Let_def)
  have "st_run (sys_store z) = STOPPING \<and> sys_stops z = [] \<and> st_trace (sys_store z) = st_trace s"
    using assms(5)
  proof (induction rule: rtranclp_induct)
    case base
    then show ?case using assms(3,4) trace by simp
  next
    case (step u v)
    from step.hyps(2) step.IH show ?case
      by cases (auto simp: enter_append_iff begin_stop_iff leave_append_iff elim!: progressE)
  qed
  then show ?thesis
    by (auto simp: stop_def begin_stop_def io_simps enter_append_iff)
qed

lemma abandoned_stop_never_closes_witness:
  "st_trace (sys_store (draining_system\<lparr>sys_stops := []\<rparr>)) = fst all_opened
   \<and> stop fake_ops good_clients (sys_store (draining_system\<lparr>sys_stops := []\<rparr>))
      = (Ok (), sys_store (draining_system\<lparr>sys_stops := []\<rparr>))"
proof -
  let ?y = "draining_system\<lparr>sys_stops := []\<rparr>"
  have "facade_step fake_ops good_clients draining_system ?y"
    using stop_cancelled [of draining_system "[]" "[]" fake_ops good_clients] by (simp add: draining_system_def)
  with draining_reached(2) have "facade_reaches fake_ops good_clients (running started_store) ?y" by simp
  from abandoned_stop_never_closes [OF draining_reached(1) this _ _ rtranclp.rtrancl_refl]
  show ?thesis by (simp add: draining_system_def started_store_def)
qed

text \<open>Calls that run alone are sequences of these steps.\<close>

lemma same_store: "sys_store y = s \<Longrightarrow> y\<lparr>sys_store := s\<rparr> = y"
  by (cases y) simp

lemma close_from_steps:
  assumes "close_from steps first_exc s = (Ok g, s')" "sys_store y = s" "sys_stops y = Closing steps first_exc # us"
  shows "(progress ops cl)\<^sup>*\<^sup>* y (y\<lparr>sys_store := s', sys_stops := us\<rparr>)"
  using assms
proof (induction steps arbitrary: first_exc s y)
  case Nil
  then have "y\<lparr>sys_store := s', sys_stops := us\<rparr> = y\<lparr>sys_stops := us\<rparr>" by (simp add: io_ret_def)
  moreover have "progress ops cl y (y\<lparr>sys_stops := us\<rparr>)"
    using stop_ends [of y "[]" first_exc us ops cl] Nil.prems(3) by simp
  ultimately show ?case by auto
next
  case (Cons step steps)
  then obtain failure v where v: "close_step step s = (Ok failure, v)"
      "close_from steps (if first_exc = None then failure else first_exc) v = (Ok g, s')"
    by (auto simp: io_bind_def split: prod.splits res.splits)
  let ?first = "if first_exc = None then failure else first_exc"
  let ?x = "y\<lparr>sys_store := v, sys_stops := Closing steps ?first # us\<rparr>"
  have "progress ops cl y ?x"
    using stop_closes [of y "[]" step steps first_exc us failure v ops cl] Cons.prems(2,3) v(1) by simp
  moreover have "(progress ops cl)\<^sup>*\<^sup>* ?x (?x\<lparr>sys_store := s', sys_stops := us\<rparr>)"
    by (rule Cons.IH [OF v(2)]) simp_all
  ultimately show ?case by simp
qed

lemma close_from_ends:
  "\<forall>(n, c, m) \<in> set steps. halts m \<Longrightarrow> \<exists>g s'. close_from steps first_exc s = (Ok g, s')"
proof (induction steps arbitrary: first_exc s)
  case (Cons step steps)
  obtain n c m where "step = (n, c, m)" by (cases step)
  with close_step_ends [of m n c s] Cons obtain failure v where "close_step step s = (Ok failure, v)" by auto
  with Cons show ?case by (auto simp: io_bind_def)
qed (simp add: io_ret_def)

lemma progress_steps: "(progress ops cl)\<^sup>*\<^sup>* y z \<Longrightarrow> facade_reaches ops cl y z"
  by (induction rule: rtranclp_induct) (auto intro: progresses rtranclp.rtrancl_into_rtrancl)

lemma finish_stop_steps:
  assumes "finish_stop ops cl s = (r, s')" "sys_store y = s\<lparr>st_run := CLOSED\<rparr>"
    and "sys_stops y = Closing (close_steps ops cl) None # us"
  shows "facade_reaches ops cl y (y\<lparr>sys_store := s', sys_stops := us\<rparr>)"
proof -
  obtain g v where g: "close_from (close_steps ops cl) None (s\<lparr>st_run := CLOSED\<rparr>) = (Ok g, v)"
    using close_from_ends [of "close_steps ops cl"] halts_close_steps by blast
  then have "v = s'" using assms(1)
    by (auto simp: finish_stop_def io_simps split: option.splits)
  with close_from_steps [OF g assms(2,3)] show ?thesis by (auto intro: progress_steps)
qed

lemma append_is_steps:
  assumes append: "store_append ops loads dumps cfg source key val s = (r, s')"
    and "r \<noteq> Running" "sys_store y = s"
  shows "facade_reaches ops cl y (y\<lparr>sys_store := s'\<rparr>)"
proof (cases "st_run s = RUNNING")
  case False
  then have "enter_append s = (Exn LifecycleError, s)" by (simp add: enter_append_iff)
  with append have "s' = s" by (simp add: store_append_def io_bind_def)
  then show ?thesis using same_store [OF assms(3)] by simp
next
  case True
  let ?s = "s\<lparr>st_in_flight := st_in_flight s + 1\<rparr>"
  have enter: "enter_append s = (Ok (), ?s)" using True by (simp add: enter_append_iff)
  obtain q w where q: "append_record ops loads dumps (service_settings cfg) source key val (st_world s) = (q, w)"
    by fastforce
  let ?v = "?s\<lparr>st_world := w\<rparr>"
  obtain u where u: "leave_append ?v = (Ok (), u)" using leave_append_iff by blast
  have s': "s' = u" using append enter u q assms(2)
    by (auto simp: store_append_def io_simps in_world_def split: res.splits)
  let ?y = "y\<lparr>sys_store := ?s, sys_appends := sys_appends y + 1\<rparr>"
  have "facade_step ops cl y ?y" using append_enters [of y ?s ops cl] enter assms(3) by simp
  moreover have "facade_step ops cl ?y (?y\<lparr>sys_store := ?v\<rparr>)"
    using service_works [of ops cl ?y w] by simp
  moreover have "facade_step ops cl (?y\<lparr>sys_store := ?v\<rparr>) (y\<lparr>sys_store := s'\<rparr>)"
    using progresses [OF append_leaves [of "?y\<lparr>sys_store := ?v\<rparr>" u ops cl]] u s' by simp
  ultimately show ?thesis by (meson converse_rtranclp_into_rtranclp r_into_rtranclp)
qed

lemma begin_stop_steps:
  assumes "st_run s = RUNNING" "sys_store y = s" "0 < st_in_flight s \<Longrightarrow> st_drained s"
  shows "facade_reaches ops cl y
    (y\<lparr>sys_store := s\<lparr>st_run := CLOSED\<rparr>, sys_stops := Closing (close_steps ops cl) None # sys_stops y\<rparr>)"
proof -
  let ?s = "s\<lparr>st_run := STOPPING\<rparr>"
  have entered: "begin_stop s = (Ok True, ?s)" using assms(1) by (simp add: begin_stop_iff)
  show ?thesis
  proof (cases "0 < st_in_flight s")
    case wait: True
    let ?x = "y\<lparr>sys_store := ?s, sys_stops := Draining # sys_stops y\<rparr>"
    have "facade_step ops cl y ?x" using stop_waits [of y ?s ops cl] entered wait assms(2) by simp
    moreover have "facade_step ops cl ?x (y\<lparr>sys_store := s\<lparr>st_run := CLOSED\<rparr>,
        sys_stops := Closing (close_steps ops cl) None # sys_stops y\<rparr>)"
      using progresses [OF stop_drained [of ?x "[]" "sys_stops y" ops cl]] assms(3) wait by simp
    ultimately show ?thesis by (meson converse_rtranclp_into_rtranclp r_into_rtranclp)
  next
    case False
    then show ?thesis using stop_proceeds [of y ?s ops cl] entered assms(2) by (simp add: r_into_rtranclp)
  qed
qed

lemma stop_is_steps:
  assumes stop: "stop ops cl s = (r, s')" and "r \<noteq> Running" "sys_store y = s"
  shows "facade_reaches ops cl y (y\<lparr>sys_store := s'\<rparr>)"
proof (cases "st_run s = RUNNING")
  case False
  with stop have "s' = s" by (cases "st_run s") (auto simp: stop_def begin_stop_def io_simps)
  then show ?thesis using same_store [OF assms(3)] by simp
next
  case True
  let ?s = "s\<lparr>st_run := STOPPING\<rparr>"
  have "begin_stop s = (Ok True, ?s)" using True by (simp add: begin_stop_iff)
  then have closing: "finish_stop ops cl ?s = (r, s')" "0 < st_in_flight s \<Longrightarrow> st_drained s"
    using stop assms(2) by (auto simp: stop_def io_simps await_drained_def split: if_splits)
  let ?z = "y\<lparr>sys_store := s\<lparr>st_run := CLOSED\<rparr>, sys_stops := Closing (close_steps ops cl) None # sys_stops y\<rparr>"
  have "facade_reaches ops cl ?z (?z\<lparr>sys_store := s', sys_stops := sys_stops y\<rparr>)"
    by (rule finish_stop_steps [OF closing(1)]) simp_all
  with begin_stop_steps [OF True assms(3) closing(2), of ops cl]
  have "facade_reaches ops cl y (?z\<lparr>sys_store := s', sys_stops := sys_stops y\<rparr>)" by (rule rtranclp_trans)
  then show ?thesis by simp
qed

text \<open>
  C25. The code refines the interleaved steps: an \<^verbatim>\<open>append\<close> or a \<^verbatim>\<open>stop\<close> of the facade that returns or
  raises is, from any state of the system, a path of the step relation, and leaves the other
  calls in flight as they are.
\<close>

theorem calls_refine_steps:
  assumes "store_append ops loads dumps cfg source key val s = (r, s') \<or> stop ops cl s = (r, s')"
    and "r \<noteq> Running" "sys_store y = s"
  shows "facade_reaches ops cl y (y\<lparr>sys_store := s'\<rparr>)"
  using assms(1) append_is_steps [OF _ assms(2,3)] stop_is_steps [OF _ assms(2,3)] by blast

lemma calls_refine_steps_witness:
  "facade_reaches fake_ops good_clients (running started_store)
     ((running started_store)\<lparr>sys_store := snd (stop fake_ops good_clients started_store)\<rparr>)"
proof (rule calls_refine_steps)
  show "store_append fake_ops (\<lambda>_. None) (\<lambda>_::unit. Inl TypeError) thread_config sample_tp HostObject
        (PayloadObject ()) started_store = (Ok (), snd (stop fake_ops good_clients started_store))
      \<or> stop fake_ops good_clients started_store = (Ok (), snd (stop fake_ops good_clients started_store))"
    by (simp add: stop_def begin_stop_def await_drained_def finish_stop_def close_steps_def close_step_def use_def
        trace_def in_world_def io_simps call_def aclose_def good_clients_def started_store_def)
qed (simp_all add: running_def)

end
