(* ===== verification/Store_History.thy ===== *)
theory Store_History imports
  Store_Start
begin

text \<open>
  Histories of a store: any sequence of public calls, each with whatever outcome, and of
  crashes, after which a new process opens the database that was committed. The
  properties are about what no history can do to the rows.
\<close>

section \<open>Histories\<close>

text \<open>
  A process that ends at any moment, and the next one, before its \<^verbatim>\<open>start\<close>; \<open>reboot\<close> says which
  outside it may find.
\<close>

definition restarted :: "'k \<Rightarrow> 'k store \<Rightarrow> 'k store" where
  "restarted k s = new_store (boot k (committed (st_world s)))"

inductive public_step ::
    "('k \<Rightarrow> 'k \<Rightarrow> bool) \<Rightarrow> 'k ops \<Rightarrow> 'k clients \<Rightarrow> store_config \<Rightarrow> (pystr \<Rightarrow> exn option)
     \<Rightarrow> ('o \<Rightarrow> exn + pystr) \<Rightarrow> (sql_value \<Rightarrow> exn + 'j) \<Rightarrow> 'k store \<Rightarrow> 'k store \<Rightarrow> bool"
  for reboot :: "'k \<Rightarrow> 'k \<Rightarrow> bool" and ops :: "'k ops" and cl :: "'k clients" and cfg :: store_config and loads :: "pystr \<Rightarrow> exn option"
    and dumps :: "'o \<Rightarrow> exn + pystr" and jloads :: "sql_value \<Rightarrow> exn + 'j" where
  starts: "start ops cl cfg s = (r, s') \<Longrightarrow> public_step reboot ops cl cfg loads dumps jloads s s'"
| stops: "stop ops cl s = (r, s') \<Longrightarrow> public_step reboot ops cl cfg loads dumps jloads s s'"
| appends: "store_append ops loads dumps cfg source key val s = (r, s') \<Longrightarrow>
    public_step reboot ops cl cfg loads dumps jloads s s'"
| queries: "store_query ops jloads cfg sql params (into :: ('j, 'o) into_target option) s = (q, s') \<Longrightarrow>
    public_step reboot ops cl cfg loads dumps jloads s s'"
| assigned: "store_assigned fuel ops cl cfg tps s = (r, s') \<Longrightarrow> public_step reboot ops cl cfg loads dumps jloads s s'"
| revoked: "store_revoked ops cfg tps s = (r, s') \<Longrightarrow> public_step reboot ops cl cfg loads dumps jloads s s'"
| restarts: "reboot (w_env (st_world s)) k \<Longrightarrow> public_step reboot ops cl cfg loads dumps jloads s (restarted k s)"

abbreviation history ::
    "('k \<Rightarrow> 'k \<Rightarrow> bool) \<Rightarrow> 'k ops \<Rightarrow> 'k clients \<Rightarrow> store_config \<Rightarrow> (pystr \<Rightarrow> exn option)
     \<Rightarrow> ('o \<Rightarrow> exn + pystr) \<Rightarrow> (sql_value \<Rightarrow> exn + 'j) \<Rightarrow> 'k store \<Rightarrow> 'k store \<Rightarrow> bool" where
  "history reboot ops cl cfg loads dumps jloads \<equiv> (public_step reboot ops cl cfg loads dumps jloads)\<^sup>*\<^sup>*"

section \<open>Well-formed stores\<close>

text \<open>
  Between two calls no transaction is open, message ids are unique, and the clients that are
  open agree with the phase.
\<close>

definition store_wf :: "'k store \<Rightarrow> bool" where
  "store_wf s \<longleftrightarrow> w_saved (st_world s) = None \<and> unique_messages (w_db (st_world s))
     \<and> st_in_flight s = 0
     \<and> (case st_run s of NEW \<Rightarrow> st_open s = [] | _ \<Rightarrow> st_open s = [PoolClient, ProducerClient, AdminClient])"

text \<open>What every public call does to a well-formed store.\<close>

definition advances :: "'k store \<Rightarrow> 'k store \<Rightarrow> bool" where
  "advances s s' \<longleftrightarrow> store_wf s' \<and> rows_added (w_db (st_world s)) (w_db (st_world s'))"

lemma advances_refl: "store_wf s \<Longrightarrow> advances s s"
  by (simp add: advances_def)

text \<open>A change of the world alone.\<close>

lemma advances_world:
  assumes "store_wf s" "settled keeps_unique (st_world s) w'"
  shows "advances s (s\<lparr>st_world := w'\<rparr>)"
  using assms by (auto simp: advances_def store_wf_def settled_def keeps_unique_def split: run_state.splits)

lemma in_world_advances:
  assumes "store_wf s" "keeps (settled keeps_unique) m" "in_world m s = (r, s')"
  shows "advances s s'"
  using assms(3) advances_world [OF assms(1)] keepsD [OF assms(2)]
  by (auto simp: in_world_def split: prod.splits)

lemma guarded_advances:
  assumes "store_wf s" "keeps (settled keeps_unique) m" "io_seq ensure_running (in_world m) s = (r, s')"
  shows "advances s s'"
  using assms(3) in_world_advances [OF assms(1,2)] advances_refl [OF assms(1)]
  by (auto simp: ensure_running_def io_simps split: if_splits prod.splits res.splits)

lemma query_settled: "keeps (settled keeps_unique) (query ops jloads bt sql params into)"
proof -
  have "keeps (settled keeps_unique) (query_rows ops bt sql params)"
  proof (rule keepsI)
    fix w r w' assume "query_rows ops bt sql params w = (r, w')"
    from wpD [OF query_rows_rule this] show "settled keeps_unique w w'"
      by (simp add: settled_def keeps_unique_def)
  qed
  then show ?thesis unfolding query_def
    by (intro unique.settled.keeps_bind) (auto intro!: unique.kept split: option.split)
qed

lemma revoked_settled: "keeps (settled keeps_unique) (on_partitions_revoked ops cfg tps)"
  using standby.kept_revoked [OF subset_refl, of tps ops cfg]
  by (intro keepsI) (auto dest!: keepsD simp: settled_def keeps_unique_def standby_frame_def rows_added_def unique_messages_def)

lemma append_advances:
  assumes "store_wf s" "store_append ops loads dumps cfg source key val s = (r, s')"
  shows "advances s s'"
proof (cases "st_run s = RUNNING")
  case False
  then show ?thesis using assms(2) advances_refl [OF assms(1)]
    by (simp add: store_append_def enter_append_def ensure_running_def io_simps)
next
  case True
  obtain q w where q: "append_record ops loads dumps (service_settings cfg) source key val (st_world s) = (q, w)"
    by fastforce
  have halt: "q \<noteq> Running"
    using wpD [OF append_rule q] assms(1) by (auto simp: store_wf_def)
  have "settled keeps_unique (st_world s) w"
    using keepsD [OF unique.kept_append q] by simp
  from advances_world [OF assms(1) this] show ?thesis
    using assms(2) q halt True
    by (auto simp: store_append_def enter_append_def ensure_running_def leave_append_def in_world_def io_simps
        advances_def store_wf_def split: res.splits if_splits)
qed

text \<open>The close sequence keeps the phase and the clients.\<close>

definition closing_frame :: "'k store \<Rightarrow> 'k store \<Rightarrow> bool" where
  "closing_frame s s' \<longleftrightarrow> settled keeps_unique (st_world s) (st_world s') \<and> st_in_flight s' = st_in_flight s
     \<and> st_open s' = st_open s \<and> st_run s' = st_run s"

interpretation closing: preorder_rel closing_frame
  by unfold_locales (auto simp: closing_frame_def unique.settled.rrefl intro: unique.settled.rtrans)

lemma closing_in_world: "keeps (settled keeps_unique) m \<Longrightarrow> keeps closing_frame (in_world m)"
  by (intro keepsI) (auto simp: in_world_def closing_frame_def dest: keepsD split: prod.splits)

lemma closing_step: "keeps (settled keeps_unique) m \<Longrightarrow> keeps closing_frame (close_step (n, c, m))"
  unfolding close_step_def use_def trace_def prod.case
  by (intro closing.keeps_combinators closing_in_world closing.keeps_modify)
    (auto simp: closing_frame_def unique.settled.rrefl intro!: closing.keeps_combinators closing_in_world unique.kept
      split: sum.split)

lemma closing_from:
  "\<forall>(n, c, m) \<in> set steps. keeps (settled keeps_unique) m \<Longrightarrow> keeps closing_frame (close_from steps first_exc)"
  by (induction steps arbitrary: first_exc) (auto intro!: closing.keeps_combinators closing_step)

lemma close_steps_settled: "\<forall>(n, c, m) \<in> set (close_steps ops cl). keeps (settled keeps_unique) m"
  unfolding close_steps_def aclose_def
  by (auto intro!: unique.kept unique.settled.keeps_modify unique.settled_updates(4))

lemma stop_advances:
  assumes "store_wf s" "stop ops cl s = (r, s')"
  shows "advances s s'"
proof (cases "st_run s = RUNNING")
  case False
  then show ?thesis using assms(2) advances_refl [OF assms(1)]
    by (cases "st_run s") (auto simp: stop_def begin_stop_def io_simps)
next
  case True
  let ?s = "s\<lparr>st_run := CLOSED\<rparr>"
  obtain q v where v: "close_from (close_steps ops cl) None ?s = (q, v)" by fastforce
  have "s' = v" using assms v True
    by (auto simp: stop_def begin_stop_def await_drained_def finish_stop_def store_wf_def io_simps
        split: res.splits option.splits)
  with keepsD [OF closing_from [OF close_steps_settled] v] assms(1) True show ?thesis
    by (auto simp: advances_def closing_frame_def store_wf_def settled_def keeps_unique_def)
qed

lemma start_advances:
  assumes "store_wf s" "start ops cl cfg s = (r, s')"
  shows "advances s s'"
proof (cases "st_run s = NEW")
  case False
  then show ?thesis using assms(2) advances_refl [OF assms(1)] by (simp add: start_def io_simps)
next
  case True
  with assms(1) have "st_open s = []" "w_saved (st_world s) = None" by (simp_all add: store_wf_def)
  from wpD [OF start_rule [OF True this] assms(2)] assms(1) show ?thesis
    by (auto simp: advances_def store_wf_def start_post_def migration_frame_def rows_added_def unique_messages_def
        all_opened_def split: res.splits)
qed

lemma step_advances:
  assumes "store_wf s" "public_step reboot ops cl cfg loads dumps jloads s s'"
  shows "advances s s'"
  using assms(2)
proof cases
  case (queries sql params into q)
  then show ?thesis using guarded_advances [OF assms(1) query_settled] by (simp add: store_query_def)
next
  case (assigned fuel tps r)
  then show ?thesis using guarded_advances [OF assms(1) unique.world.assigned [OF _ TrueI]] by (simp add: store_assigned_def)
next
  case (revoked tps r)
  then show ?thesis using guarded_advances [OF assms(1) revoked_settled] by (simp add: store_revoked_def)
next
  case (restarts k)
  then show ?thesis using assms(1)
    by (auto simp: restarted_def new_store_def advances_def store_wf_def)
qed (use assms(1) in \<open>auto intro: start_advances stop_advances append_advances\<close>)

lemma history_advances:
  "history reboot ops cl cfg loads dumps jloads s s' \<Longrightarrow> store_wf s \<Longrightarrow> advances s s'"
proof (induction rule: rtranclp_induct)
  case base
  then show ?case by (rule advances_refl)
next
  case (step u v)
  then have "advances s u" by simp
  with step_advances [OF _ step.hyps(2)] show ?case
    by (auto simp: advances_def intro: rows_added_trans)
qed

section \<open>Properties\<close>

text \<open>
  C9. A store is well-formed for ever: in every history of public calls, whatever they raise, and
  of crashes, no transaction is left open between two calls, message ids stay unique, the
  clients that are open agree with the phase, and the rows there were are still there,
  unchanged and in their order.
\<close>

theorem history_well_formed:
  assumes "unique_messages d" "history reboot ops cl cfg loads dumps jloads (new_store (boot k d)) s"
  shows "store_wf s \<and> rows_added d (w_db (st_world s))"
proof -
  have "store_wf (new_store (boot k d))"
    using assms(1) by (simp add: store_wf_def new_store_def)
  from history_advances [OF assms(2) this] show ?thesis by (simp add: advances_def new_store_def)
qed

text \<open>The tables after an append of the facade that returned.\<close>

lemma store_append_materialized:
  assumes "store_wf s" "store_append ops loads dumps cfg source key val s = (Ok (), s1)"
  obtains encoded row where "materialized (op_json ops) row (w_db (st_world s)) = Inr (w_db (st_world s1))"
    "acknowledged ops loads dumps (service_settings cfg) source key val (w_env (st_world s)) encoded row"
proof -
  obtain q w where q: "append_record ops loads dumps (service_settings cfg) source key val (st_world s) = (q, w)"
    by fastforce
  then have "q = Ok ()" "st_world s1 = w" using assms(2)
    by (auto simp: store_append_def enter_append_def ensure_running_def leave_append_def in_world_def io_simps
        split: res.splits if_splits)
  with wpD [OF append_rule q] assms(1) that show thesis by (auto simp: store_wf_def)
qed

text \<open>
  C1. An append that returned survives: after any further history, with assignments, revocations,
  failed calls, crashes and restarts, the database has exactly one row with the message id
  the broker acknowledged; unless that id was already in the table, it is the row of the
  append with its payload as SQLite stores it.
\<close>

theorem acknowledged_append_survives:
  assumes "store_wf s" "store_append ops loads dumps cfg source key val s = (Ok (), s1)"
    and "history reboot ops cl cfg loads' dumps' jloads s1 s2"
  shows "\<exists>encoded row r. acknowledged ops loads dumps (service_settings cfg) source key val (w_env (st_world s)) encoded row
     \<and> filter (\<lambda>x. message_id x = message_id row) (db_records (w_db (st_world s2))) = [r]
     \<and> (has_message (db_records (w_db (st_world s))) (message_id row)
        \<or> Some r = map_option (\<lambda>j. row\<lparr>payload := j\<rparr>) (op_json ops (payload row)))"
proof -
  let ?d = "w_db (st_world s)" and ?e = "w_db (st_world s2)"
  obtain encoded row where a: "materialized (op_json ops) row ?d = Inr (w_db (st_world s1))"
      "acknowledged ops loads dumps (service_settings cfg) source key val (w_env (st_world s)) encoded row"
    using store_append_materialized [OF assms(1,2)] .
  obtain j where j: "op_json ops (payload row) = Some j"
    "db_records (w_db (st_world s1)) = (if message_id row \<in> message_ids ?d then db_records ?d else db_records ?d @ [row\<lparr>payload := j\<rparr>])"
    using a(1) by (rule materialized_records)
  then obtain r where r: "r \<in> set (db_records (w_db (st_world s1)))" "message_id r = message_id row"
      "has_message (db_records ?d) (message_id row)
        \<or> Some r = map_option (\<lambda>j. row\<lparr>payload := j\<rparr>) (op_json ops (payload row))"
    by (cases "message_id row \<in> message_ids ?d") (auto simp: message_ids_def has_message_iff [unfolded message_ids_def])
  have e: "rows_added (w_db (st_world s1)) ?e" "unique_messages ?e"
    using history_advances [OF assms(3)] append_advances [OF assms(1,2)]
    by (simp_all add: advances_def store_wf_def)
  then have "r \<in> set (db_records ?e)" using rows_added_set r(1) by blast
  with unique_message_row [OF e(2) this] a(2) r show ?thesis by auto
qed

lemma thread_settings: "service_settings thread_config = test_settings"
  by (simp add: service_settings_def thread_config_def test_settings_def DEFAULT_BATCH_SIZE_def)

definition appending_store :: "fake store" where
  "appending_store =
     \<lparr>st_world = boot appending empty_database, st_run = RUNNING, st_in_flight = 0, st_drained = False,
      st_open = snd all_opened, st_trace = fst all_opened\<rparr>"

lemma appending_store_wf: "store_wf appending_store"
  by (simp add: appending_store_def store_wf_def all_opened_def unique_messages_def empty_database_def)

lemma appending_store_returns:
  "\<exists>s1. store_append fake_ops (\<lambda>_. None) (\<lambda>_::unit. Inl TypeError) thread_config sample_tp
      (HostStr (lit ''k'')) (PayloadStr (lit ''1'')) appending_store = (Ok (), s1)
    \<and> w_db (st_world s1) = empty_database\<lparr>db_records := [sample_row 7], db_checkpoints := [sample_tp \<mapsto> 7]\<rparr>"
proof -
  obtain w' where w': "sample_append (boot appending empty_database) = (Ok (), w')"
      "w_db w' = empty_database\<lparr>db_records := [sample_row 7], db_checkpoints := [sample_tp \<mapsto> 7]\<rparr>"
    using sample_append_returns by blast
  show ?thesis using w' thread_settings
    by (simp add: store_append_def appending_store_def enter_append_def ensure_running_def leave_append_def
        in_world_def io_simps)
qed

lemma history_well_formed_witness:
  "\<exists>s1. store_append fake_ops (\<lambda>_. None) (\<lambda>_::unit. Inl TypeError) thread_config sample_tp
      (HostStr (lit ''k'')) (PayloadStr (lit ''1'')) (new_store (boot appending empty_database)) = (Exn LifecycleError, s1)
    \<and> store_wf (restarted fake_start s1) \<and> rows_added empty_database (w_db (st_world (restarted fake_start s1)))"
proof -
  let ?s = "new_store (boot appending empty_database)"
  have refused: "store_append fake_ops (\<lambda>_. None) (\<lambda>_::unit. Inl TypeError) thread_config sample_tp
      (HostStr (lit ''k'')) (PayloadStr (lit ''1'')) ?s = (Exn LifecycleError, ?s)"
    by (simp add: store_append_def new_store_def enter_append_def ensure_running_def io_simps)
  have "history (\<lambda>_ _. True) fake_ops good_clients thread_config (\<lambda>_. None) (\<lambda>_::unit. Inl TypeError) no_loads ?s (restarted fake_start ?s)"
    using appends [OF refused, of "\<lambda>_ _. True" good_clients no_loads]
      restarts [of "\<lambda>_ _. True" ?s fake_start fake_ops good_clients thread_config "\<lambda>_. None" "\<lambda>_::unit. Inl TypeError" no_loads]
    by (meson converse_rtranclp_into_rtranclp r_into_rtranclp)
  with history_well_formed [OF _ this] refused show ?thesis
    by (simp add: unique_messages_def empty_database_def)
qed

lemma acknowledged_append_survives_witness:
  "\<exists>s1 encoded row r. w_db (st_world s1) = empty_database\<lparr>db_records := [sample_row 7], db_checkpoints := [sample_tp \<mapsto> 7]\<rparr>
     \<and> acknowledged fake_ops (\<lambda>_. None) (\<lambda>_::unit. Inl TypeError) test_settings sample_tp
         (HostStr (lit ''k'')) (PayloadStr (lit ''1'')) appending encoded row
     \<and> filter (\<lambda>x. message_id x = message_id row) (db_records (w_db (st_world (restarted fake_start s1)))) = [r]
     \<and> r = row"
proof -
  obtain s1 where s1: "store_append fake_ops (\<lambda>_. None) (\<lambda>_::unit. Inl TypeError) thread_config sample_tp
      (HostStr (lit ''k'')) (PayloadStr (lit ''1'')) appending_store = (Ok (), s1)"
    "w_db (st_world s1) = empty_database\<lparr>db_records := [sample_row 7], db_checkpoints := [sample_tp \<mapsto> 7]\<rparr>"
    using appending_store_returns by blast
  have "history (\<lambda>_ _. True) fake_ops good_clients thread_config (\<lambda>_. None) (\<lambda>_::unit. Inl TypeError) no_loads s1 (restarted fake_start s1)"
    by (intro r_into_rtranclp restarts TrueI)
  from acknowledged_append_survives [OF appending_store_wf s1(1) this] s1(2)
  show ?thesis
    by (auto simp: appending_store_def has_message_def empty_database_def service_settings_def thread_config_def
        test_settings_def DEFAULT_BATCH_SIZE_def fake_ops_def)
qed

end
