(* ===== verification/Outside_Order.thy ===== *)
theory Outside_Order imports
  Assignment_Steps
begin

text \<open>
  What no call to the outside undoes. An order of the outside's states that every single call
  goes up in (the clock, the records a changelog ever held) is gone up in by statements,
  transactions, checkouts and the whole assignment, whatever their outcome: the connection
  layer and the lifecycle reach the outside through the calls alone.
\<close>

definition moves :: "('k \<Rightarrow> 'k \<Rightarrow> bool) \<Rightarrow> ('k \<Rightarrow> 'a \<times> 'k) \<Rightarrow> bool" where
  "moves E f \<longleftrightarrow> (\<forall>k. E k (snd (f k)))"

locale outside_order =
  fixes ops :: "'k ops" and E :: "'k \<Rightarrow> 'k \<Rightarrow> bool"
  assumes E_refl: "E k k"
    and E_trans: "E a b \<Longrightarrow> E b c \<Longrightarrow> E a c"
    and forward:
      "moves E (op_clock ops)" "moves E (op_sleep ops s)"
      "moves E (op_verdict ops st)" "moves E (op_journal_mode ops)"
      "moves E (op_acquire ops)" "moves E (op_release ops)"
      "moves E (op_new_consumer ops)" "moves E (op_consumer_start ops)"
      "moves E (op_consumer_stop ops)" "moves E (op_assign ops tp)"
      "moves E (op_seek ops tp p)" "moves E (op_seek_to_beginning ops tp)"
      "moves E (op_beginning_offsets ops tp)" "moves E (op_end_offsets ops tp)"
      "moves E (op_list_topics ops)" "moves E (op_create_topics ops t)"
      "moves E (op_describe_configs ops name)" "moves E (op_getmany ops tp n)"
begin

definition moved :: "'k world \<Rightarrow> 'k world \<Rightarrow> bool" where
  "moved w w' \<longleftrightarrow> E (w_env w) (w_env w')"

lemma moved_ask: "moves E f \<Longrightarrow> keeps moved (ask f)"
  by (rule keepsI) (auto simp: ask_def moved_def moves_def split: prod.splits dest: spec, metis snd_conv)

lemma moved_call: "moves E f \<Longrightarrow> keeps moved (call f)"
  by (rule keepsI)
    (auto simp: call_def moved_def moves_def split: prod.splits sum.splits, metis snd_conv, metis snd_conv)

end

sublocale outside_order \<subseteq> preorder_rel moved
  by unfold_locales (auto simp: moved_def intro: E_refl E_trans)

context outside_order
begin

lemma moved_pure:
  "keeps moved (log_event e)" "keeps moved (on_parts f)" "keeps moved (lift_res r)"
  "keeps moved (dict_get m x)" "keeps moved (run_stmt ops s)" "keeps moved (io_modify end_rollback)"
  "keeps moved (io_modify (\<lambda>w. w\<lparr>w_consumer := b\<rparr>))"
  "keeps moved (io_modify (\<lambda>w. w\<lparr>w_query_only := b, w_row_factory := c\<rparr>))"
  "keeps moved (io_modify (\<lambda>w. w\<lparr>w_checked := C w\<rparr>))"
  "keeps moved (io_modify (\<lambda>w. w\<lparr>w_saved := S w, w_query_only := b\<rparr>))"
  by (auto simp: keeps_def moved_def E_refl log_event_def on_parts_def lift_res_def dict_get_def run_stmt_def
      host_stmt_def end_commit_def io_simps split: sum.split option.split stmt.split host_effect.split)

lemmas moved_basics = keeps_combinators keeps_if moved_pure moved_call [OF forward(2)]
  moved_ask [OF forward(1)] moved_ask [OF forward(3)] moved_ask [OF forward(4)] moved_call [OF forward(5)] moved_call [OF forward(6)]

lemma moved_execute: "keeps moved (execute ops s)"
  unfolding execute_def by (intro moved_basics) (auto split: verdict.split intro!: moved_basics)

lemma moved_end: "keeps moved (commit ops)" "keeps moved (rollback ops)"
  unfolding commit_def rollback_def by (intro moved_basics moved_execute)+

lemma moved_run_from: "keeps moved work \<Longrightarrow> keeps moved (run_from ops work deadline n)"
proof (induction "BUSY_RETRY_MAX_ATTEMPTS - n" arbitrary: n)
  case 0
  then show ?case
    by (subst run_from.simps)
      (unfold attempt_txn_def on_error_def, intro moved_basics moved_execute moved_end; simp)
next
  case (Suc m)
  have "keeps moved (run_from ops work deadline (n + 1))"
    using Suc.hyps(1) [of "n + 1"] Suc.hyps(2) Suc.prems by simp
  then show ?case
    by (subst run_from.simps)
      (unfold attempt_txn_def on_error_def, intro moved_basics moved_execute moved_end Suc.prems)
qed

lemma moved_checked_out: "keeps moved body \<Longrightarrow> keeps moved (checked_out ops bt body)"
  unfolding checked_out_def acquire_def release_def open_connection_def on_error_def
  by (intro moved_basics moved_execute moved_end)
    (auto split: acquired.split intro!: moved_basics moved_execute)

lemma moved_txn: "keeps moved work \<Longrightarrow> keeps moved (checked_out ops bt (run_txn ops bt work))"
  unfolding run_txn_def by (intro moved_checked_out moved_basics moved_run_from)

lemma moved_batch_work: "keeps moved (batch_work ops tp rs)"
  unfolding batch_work_def replay_record_def
  by (intro moved_basics moved_execute) (auto split: classified.split intro!: moved_basics moved_execute)

lemma moved_read_checkpoint: "keeps moved (read_checkpoint ops bt tp)"
  unfolding read_checkpoint_def fetch_def
  by (intro moved_basics moved_checked_out moved_execute)

lemma moved_ensure: "keeps moved (ensure_and_verify ops template retention verify tp)"
  unfolding ensure_and_verify_def step_zero_def verify_policy_def create_topic_def
  by (intro moved_basics moved_call forward)
    (auto split: option.split intro!: moved_basics moved_call forward)

end

sublocale outside_order \<subseteq> walk: assignment_steps moved ops UNIV
  by unfold_locales
    (auto simp: execute_in_txn_def
      intro!: moved_ask moved_call forward moved_pure moved_ensure moved_read_checkpoint
        moved_txn moved_batch_work moved_execute)

end
