(* ===== verification/Changelog_Source.thy ===== *)
theory Changelog_Source imports
  Store_History Outside_Order
begin

text \<open>
  The durability contract of the changelog: produce first, write second. Every row of a store
  comes from a record of the changelog of its partition, in every history; so a database
  that is lost is rebuilt from the changelog alone. The contract of the outside is that a
  record the broker acknowledged is in the changelog at the offset it reported, that a
  fetch serves records of the changelog, and that nothing is ever removed from the set of
  records the changelog has held.
\<close>

section \<open>Rows and the records they come from\<close>

definition row_of_record :: "(pystr \<Rightarrow> pystr option) \<Rightarrow> topic_partition \<Rightarrow> consumer_record \<Rightarrow> db_record \<Rightarrow> bool" where
  "row_of_record json tp rec r \<longleftrightarrow>
     (\<exists>mid key body j. classify (cr_key rec) (cr_value rec) (cr_headers rec) = KsqliteRecord mid key body
        \<and> json body = Some j \<and> r = replayed_record tp (cr_offset rec) mid key j)"

text \<open>The rows of \<open>d'\<close> are those of \<open>d\<close> and rows of the records \<open>S\<close>.\<close>

definition rows_from :: "(pystr \<Rightarrow> pystr option) \<Rightarrow> topic_partition \<Rightarrow> consumer_record set \<Rightarrow> database \<Rightarrow> database \<Rightarrow> bool" where
  "rows_from json tp S d d' \<longleftrightarrow>
     (\<forall>r\<in>set (db_records d'). r \<in> set (db_records d) \<or> (\<exists>rec\<in>S. row_of_record json tp rec r))"

lemma rows_from_refl: "rows_from json tp S d d"
  by (simp add: rows_from_def)

lemma rows_from_trans: "rows_from json tp S a b \<Longrightarrow> rows_from json tp S b c \<Longrightarrow> rows_from json tp S a c"
  by (auto simp: rows_from_def)

lemma rows_from_insert:
  assumes "classify (cr_key rec) (cr_value rec) (cr_headers rec) = KsqliteRecord mid key body"
    and "insert_record json (replayed_record tp (cr_offset rec) mid key body) d = Inr d'"
  shows "rows_from json tp {rec} d d'"
  using assms by (auto simp: rows_from_def row_of_record_def insert_record_cases split: option.splits if_splits)

lemma replay_record_rows:
  "txn_work (replay_record ops tp rec) (\<lambda>d _ d'. rows_from (op_json ops) tp {rec} d d')"
proof (cases "classify (cr_key rec) (cr_value rec) (cr_headers rec)")
  case (KsqliteRecord mid key body)
  then show ?thesis
    by (auto simp: replay_record_def intro!: txn_work_mono [OF txn_work_execute] intro: rows_from_insert)
next
  case (ForeignRecord reason)
  then show ?thesis
    by (auto simp: replay_record_def intro!: txn_work_mono [OF txn_work_log] intro: rows_from_refl)
qed (simp add: replay_record_def txn_work_raise)

lemma rows_from_mono: "rows_from json tp S d d' \<Longrightarrow> S \<subseteq> S' \<Longrightarrow> rows_from json tp S' d d'"
  by (fastforce simp: rows_from_def)

lemma replay_records_rows:
  "txn_work (io_for (replay_record ops tp) rs) (\<lambda>d _ d'. rows_from (op_json ops) tp (set rs) d d')"
proof (induction rs)
  case Nil
  show ?case unfolding io_for.simps
    by (rule txn_work_mono [OF txn_work_ret]) (simp add: rows_from_refl)
next
  case (Cons rec rs)
  show ?case unfolding io_for.simps
    by (rule txn_work_mono [OF txn_work_bind [OF replay_record_rows Cons.IH]])
      (auto intro: rows_from_trans rows_from_mono)
qed

lemma batch_rows: "txn_work (batch_work ops tp rs) (\<lambda>d _ d'. rows_from (op_json ops) tp (set rs) d d')"
  unfolding batch_work_def
  by (rule txn_work_mono [OF txn_work_bind [OF replay_records_rows txn_work_execute]])
    (auto simp: rows_from_def)

section \<open>Steps that write no row\<close>

definition rows_kept :: "database \<Rightarrow> database \<Rightarrow> bool" where
  "rows_kept d d' \<longleftrightarrow> db_records d' = db_records d"

interpretation rows: db_relation rows_kept
  by unfold_locales (simp_all add: rows_kept_def)

lemma rows_kept_of:
  "keeps (settled Q) m \<Longrightarrow> (\<And>d d'. Q d d' \<Longrightarrow> rows_kept d d') \<Longrightarrow> keeps (settled rows_kept) m"
  by (rule keepsI) (auto dest!: keepsD simp: settled_def)

lemma rows_kept_migrate: "keeps (settled rows_kept) (checked_out ops bt (migrate ops columns indexes))"
proof (rule keepsI)
  fix w r w' assume run: "checked_out ops bt (migrate ops columns indexes) w = (r, w')"
  show "settled rows_kept w w'"
    using wpD [OF checked_out_migrate run] by (auto simp: settled_def rows_kept_def migration_frame_def)
qed

section \<open>A changelog service\<close>

text \<open>\<open>ever k ctp\<close>: every record the changelog \<open>ctp\<close> has held up to the state \<open>k\<close> of the outside.\<close>

definition log_grows ::
    "('k \<Rightarrow> topic_partition \<Rightarrow> consumer_record set) \<Rightarrow> ('k \<Rightarrow> bool) \<Rightarrow> 'k \<Rightarrow> 'k \<Rightarrow> bool" where
  "log_grows ever good k k' \<longleftrightarrow> (\<forall>ctp. ever k ctp \<subseteq> ever k' ctp) \<and> (good k \<longrightarrow> good k')"

text \<open>A row is backed when the changelog its partition resolves to has held its record.\<close>

definition row_backed ::
    "'k ops \<Rightarrow> ('k \<Rightarrow> topic_partition \<Rightarrow> consumer_record set) \<Rightarrow> pystr \<Rightarrow> 'k \<Rightarrow> db_record \<Rightarrow> bool" where
  "row_backed ops ever template k r \<longleftrightarrow>
     (\<exists>name. changelog_name (op_format ops) template (row_tp r) = Inr name
        \<and> (\<exists>rec\<in>ever k \<lparr>tp_topic = name, tp_partition = 0\<rparr>. row_of_record (op_json ops) (row_tp r) rec r))"

locale changelog_service = outside_order ops "log_grows ever good"
  for ops :: "'k ops" and ever :: "'k \<Rightarrow> topic_partition \<Rightarrow> consumer_record set" and good :: "'k \<Rightarrow> bool" +
  fixes cl :: "'k clients"
  assumes producer: "moves (log_grows ever good) (op_uuid7 ops)"
      "moves (log_grows ever good) (op_send_and_wait ops topic part er)"
    and clients: "moves (log_grows ever good) (cl_open_pool cl)" "moves (log_grows ever good) (cl_pool_close cl)"
      "moves (log_grows ever good) (cl_new_producer cl kw)" "moves (log_grows ever good) (cl_producer_start cl)"
      "moves (log_grows ever good) (cl_producer_flush cl)" "moves (log_grows ever good) (cl_producer_stop cl)"
      "moves (log_grows ever good) (cl_new_admin cl kw)" "moves (log_grows ever good) (cl_admin_start cl)"
      "moves (log_grows ever good) (cl_admin_close cl)" "moves (log_grows ever good) (cl_new_consumer cl kw)"
    and minted: "good k \<Longrightarrow> uuid_ok (fst (op_uuid7 ops k))"
    and sent: "good k \<Longrightarrow> op_send_and_wait ops topic part er k = (Inr n, k') \<Longrightarrow> 0 \<le> n \<Longrightarrow>
      changelog_record er n \<in> ever k' \<lparr>tp_topic = topic, tp_partition = part\<rparr>"
    and served: "good k \<Longrightarrow> op_getmany ops ctp max_records k = (Inr m, k') \<Longrightarrow> m ctp = Some rs \<Longrightarrow>
      set rs \<subseteq> ever k' ctp"
begin

abbreviation backed :: "pystr \<Rightarrow> 'k \<Rightarrow> db_record \<Rightarrow> bool" where
  "backed \<equiv> row_backed ops ever"

definition all_backed :: "pystr \<Rightarrow> 'k world \<Rightarrow> bool" where
  "all_backed template w \<longleftrightarrow> w_saved w = None \<and> (\<forall>r\<in>set (db_records (w_db w)). backed template (w_env w) r)"

text \<open>The relation between two moments: nothing is lost of the changelog, and backed rows stay so.\<close>

definition sourced :: "pystr \<Rightarrow> 'k world \<Rightarrow> 'k world \<Rightarrow> bool" where
  "sourced template w w' \<longleftrightarrow> moved w w'
     \<and> (good (w_env w) \<longrightarrow> all_backed template w \<longrightarrow> all_backed template w')"

lemma moved_good: "moved w w' \<Longrightarrow> good (w_env w) \<Longrightarrow> good (w_env w')"
  by (simp add: moved_def log_grows_def)

lemma backed_moved: "moved w w' \<Longrightarrow> backed template (w_env w) r \<Longrightarrow> backed template (w_env w') r"
  unfolding row_backed_def moved_def log_grows_def by blast

end

sublocale changelog_service \<subseteq> source: preorder_rel "sourced template" for template
  by unfold_locales (auto simp: sourced_def rrefl intro: rtrans dest: moved_good)

context changelog_service
begin

text \<open>Steps that write no row.\<close>

lemma sourced_kept:
  assumes "keeps moved m" "keeps (settled rows_kept) m"
  shows "keeps (sourced template) m"
proof (rule keepsI)
  fix w r w' assume run: "m w = (r, w')"
  show "sourced template w w'"
    using keepsD [OF assms(1) run] keepsD [OF assms(2) run]
    by (auto simp: sourced_def all_backed_def settled_def rows_kept_def intro: backed_moved)
qed

lemma sourced_call: "moves (log_grows ever good) f \<Longrightarrow> keeps (sourced template) (call f)"
  by (rule sourced_kept [OF moved_call rows.steps(2)])

lemma sourced_ask: "moves (log_grows ever good) f \<Longrightarrow> keeps (sourced template) (ask f)"
  by (rule sourced_kept [OF moved_ask rows.steps(1)])

lemma sourced_pure:
  "keeps (sourced template) (log_event e)" "keeps (sourced template) (on_parts f)"
  "keeps (sourced template) (lift_res x)" "keeps (sourced template) (dict_get m y)"
  "keeps (sourced template) (io_modify (\<lambda>w. w\<lparr>w_consumer := b\<rparr>))"
  by (rule sourced_kept [OF moved_pure(1) rows.steps(3)] sourced_kept [OF moved_pure(2) rows.steps(4)]
      sourced_kept [OF moved_pure(3) rows.steps(5)] sourced_kept [OF moved_pure(4) rows.steps(6)]
      sourced_kept [OF moved_pure(7) rows.settled.keeps_modify [OF rows.settled_updates(4)]])+

lemma sourced_txn:
  assumes "keeps moved work" "txn_work work E" "\<And>d x d'. E d x d' \<Longrightarrow> rows_kept d d'"
  shows "keeps (sourced template) (checked_out ops bt (run_txn ops bt work))"
  by (rule sourced_kept [OF moved_txn [OF assms(1)] rows.txn [OF assms(2)]]) (rule assms(3))

lemma sourced_statement:
  assumes "plain_stmt s" "\<And>d d'. stmt_effect (op_json ops) (op_ddl ops) s d = Inr d' \<Longrightarrow> rows_kept d d'"
  shows "keeps (sourced template) (execute_in_txn ops bt s)"
  unfolding execute_in_txn_def
  by (rule sourced_txn [OF moved_execute txn_work_execute]) (use assms in auto)

lemma sourced_read_checkpoint: "keeps (sourced template) (read_checkpoint ops bt tp)"
  by (rule sourced_kept [OF moved_read_checkpoint]) (unfold read_checkpoint_def, intro rows.kept rows.read, simp)

lemma sourced_ensure: "keeps (sourced template) (ensure_and_verify ops t retention verify tp)"
  by (rule sourced_kept [OF moved_ensure], rule keepsI)
    (auto dest!: keepsD [OF broker_ensure] simp: broker_only_def intro: rows.settled_same_tables)

section \<open>Replayed batches\<close>

lemma batch_backed:
  assumes "good (w_env w)" "all_backed template w" "changelog_name (op_format ops) template tp = Inr name"
    and "set rs \<subseteq> ever (w_env w) \<lparr>tp_topic = name, tp_partition = 0\<rparr>"
    and run: "checked_out ops bt (run_txn ops bt (batch_work ops tp rs)) w = (r, w')"
  shows "all_backed template w'"
proof -
  have "w_saved w = None" using assms(2) by (simp add: all_backed_def)
  from wpD [OF checked_out_txn_rule [OF batch_rows this] run]
  have w': "w_saved w' = None" "rows_from (op_json ops) tp (set rs) (w_db w) (w_db w')"
    by (auto simp: rows_from_refl split: res.splits)
  have m: "moved w w'" using keepsD [OF moved_txn [OF moved_batch_work] run] .
  show ?thesis unfolding all_backed_def
  proof (intro conjI ballI w'(1))
    fix r assume "r \<in> set (db_records (w_db w'))"
    with w'(2) consider "r \<in> set (db_records (w_db w))" | rec where "rec \<in> set rs" "row_of_record (op_json ops) tp rec r"
      by (auto simp: rows_from_def)
    then show "backed template (w_env w') r"
    proof cases
      case 1
      then show ?thesis using assms(2) m by (auto simp: all_backed_def intro: backed_moved)
    next
      case 2
      then have "row_tp r = tp" by (auto simp: row_of_record_def)
      moreover have "rec \<in> ever (w_env w') \<lparr>tp_topic = name, tp_partition = 0\<rparr>"
        using 2(1) assms(4) m by (auto simp: moved_def log_grows_def)
      ultimately show ?thesis using 2(2) assms(3) by (auto simp: row_backed_def)
    qed
  qed
qed

lemma sourced_fetched:
  assumes name: "changelog_name (op_format ops) template tp = Inr name"
    and cont: "\<And>e. keeps (sourced template) (failed e)" "keeps (sourced template) none"
      "\<And>rs. keeps (sourced template) (rest rs)"
  shows "keeps (sourced template) (fetch_step ops bt tp \<lparr>tp_topic = name, tp_partition = 0\<rparr> n failed none rest)"
proof (rule keepsI)
  let ?ctp = "\<lparr>tp_topic = name, tp_partition = 0\<rparr>"
  fix w r w' assume run: "fetch_step ops bt tp ?ctp n failed none rest w = (r, w')"
  obtain q k where k: "op_getmany ops ?ctp n (w_env w) = (q, k)" by fastforce
  let ?w = "w\<lparr>w_env := k\<rparr>"
  have "call (op_getmany ops ?ctp n) w = (case q of Inl e \<Rightarrow> (Exn e, ?w) | Inr m \<Rightarrow> (Ok m, ?w))"
    by (simp add: call_def k)
  then have step: "sourced template w ?w"
    using keepsD [OF sourced_call [OF forward(18)]] by (cases q) auto
  show "sourced template w w'"
  proof (cases q)
    case (Inl e)
    with run k have "failed e ?w = (r, w')" by (simp add: fetch_step_def io_simps call_def)
    with step keepsD [OF cont(1)] show ?thesis by (blast intro: source.rtrans)
  next
    case (Inr m)
    consider "m ?ctp = None \<or> m ?ctp = Some []" | rs where "m ?ctp = Some rs" "rs \<noteq> []"
      by (cases "m ?ctp") auto
    then show ?thesis
    proof cases
      case 1
      with run k Inr have "none ?w = (r, w')" by (auto simp: fetch_step_def io_simps call_def)
      with step keepsD [OF cont(2)] show ?thesis by (blast intro: source.rtrans)
    next
      case (2 rs)
      let ?batch = "checked_out ops bt (run_txn ops bt (batch_work ops tp rs))"
      obtain p u where p: "?batch ?w = (p, u)" by fastforce
      have mu: "moved ?w u" using keepsD [OF moved_txn [OF moved_batch_work] p] .
      have "sourced template w u" unfolding sourced_def
      proof (intro conjI impI)
        show "moved w u" using step mu by (auto simp: sourced_def intro: rtrans)
        assume g: "good (w_env w)" "all_backed template w"
        have "set rs \<subseteq> ever (w_env ?w) ?ctp" using served [OF g(1) k [unfolded Inr] 2(1)] by simp
        moreover have "good (w_env ?w)" "all_backed template ?w"
          using step g by (auto simp: sourced_def dest: moved_good)
        ultimately show "all_backed template u" using batch_backed [OF _ _ name _ p] by blast
      qed
      moreover have "sourced template u w'"
        using run k Inr 2 p keepsD [OF cont(3)]
        by (auto simp: fetch_step_def io_simps call_def source.rrefl split: res.splits)
      ultimately show ?thesis by (rule source.rtrans)
    qed
  qed
qed

end

sublocale changelog_service \<subseteq> source: fetching_steps "sourced template" ops UNIV
    "\<lambda>cfg. cfg_template cfg = template" "\<lambda>tp name. changelog_name (op_format ops) template tp = Inr name"
  for template
  by unfold_locales
    (auto intro!: sourced_ask sourced_call forward sourced_pure sourced_ensure sourced_read_checkpoint sourced_fetched
      sourced_statement simp: rows_kept_def checkpoint_clamp_def owned_insert_def)

context changelog_service
begin

section \<open>Appends\<close>

lemma moved_store:
  "keeps moved (io_seq (checked_out ops bt (run_txn ops bt (materialize ops source n mid k encoded))) (on_parts f))"
  unfolding materialize_def apply_materialization_def
  by (intro moved_basics moved_txn moved_execute)

lemma moved_produce: "keeps moved (produce ops source topic encoded)"
  unfolding produce_def by (intro moved_basics moved_call producer)

lemma moved_append: "keeps moved (append_record ops loads dumps cfg source key val)"
  unfolding append_record_def new_message_id_def
  by (intro keeps_bind keeps_when keeps_gets moved_pure moved_ask producer moved_produce moved_store)

text \<open>An append whose inputs are accepted reaches the send, and goes on from there.\<close>

lemma append_passes_send:
  assumes "acknowledged ops loads dumps cfg source key val (w_env w) encoded row"
    and run: "append_record ops loads dumps cfg source key val w = (r, w')"
  shows "\<exists>topic k. changelog_name (op_format ops) (cfg_template cfg) source = Inr topic
    \<and> op_send_and_wait ops topic 0 encoded (snd (op_uuid7 ops (w_env w))) = (Inr (changelog_offset row), k)
    \<and> log_grows ever good k (w_env w')"
proof -
  obtain mid env where uuid: "op_uuid7 ops (w_env w) = (mid, env)" by fastforce
  obtain key' topic k where a: "validate_entity_key key = Inr key'"
      "encode loads dumps key' val mid = Inr encoded"
      "changelog_name (op_format ops) (cfg_template cfg) source = Inr topic"
      "op_send_and_wait ops topic 0 encoded env = (Inr (changelog_offset row), k)" "0 \<le> changelog_offset row"
    using assms(1) by (auto simp: acknowledged_def uuid) (metis prod.collapse)
  define Q where "Q = (\<lambda>(q :: unit res) (v :: 'k world). log_grows ever good k (w_env v))"
  have go: "wp (io_bind (produce ops source topic encoded) (\<lambda>n.
      io_seq (checked_out ops bt (run_txn ops bt (materialize ops source n mid key' encoded)))
        (on_parts (\<lambda>m. record_applied m source n)))) Q v" if v: "w_env v = env" for bt v
  proof (rule wp_bind_ok)
    show "wp (produce ops source topic encoded) (\<lambda>r u. r = Ok (changelog_offset row) \<and> w_env u = k) v"
      using a(5) by (simp add: produce_def v a(4))
  next
    fix u :: "'k world" assume u: "w_env u = k"
    show "wp (io_seq (checked_out ops bt (run_txn ops bt (materialize ops source (changelog_offset row) mid key' encoded)))
        (on_parts (\<lambda>m. record_applied m source (changelog_offset row)))) Q u"
      by (rule wp_mono [OF keeps_wp [OF moved_store]]) (use u in \<open>simp add: moved_def Q_def\<close>)
  qed
  have "wp (append_record ops loads dumps cfg source key val) Q w"
    unfolding append_record_def new_message_id_def
    by (simp add: a uuid go wp_bind [of "lift_res _"] wp_bind [of "io_gets _"] wp_bind [of "io_when _ _"]
        wp_bind [of "ask _"] del: wp_bind)
  from wpD [OF this run] a(3,4) show ?thesis by (auto simp: Q_def uuid)
qed

lemma sourced_append:
  assumes "cfg_template cfg = template"
  shows "keeps (sourced template) (append_record ops loads dumps cfg source key val)"
proof (rule keepsI)
  fix w r w' assume run: "append_record ops loads dumps cfg source key val w = (r, w')"
  have m: "moved w w'" by (rule keepsD [OF moved_append run])
  have "all_backed template w'" if g: "good (w_env w)" "all_backed template w"
  proof -
    have saved: "w_saved w = None" using g(2) by (simp add: all_backed_def)
    note rule = wpD [OF append_rule [OF saved] run]
    then have "w_saved w' = None" by (simp split: res.splits)
    moreover have "backed template (w_env w') x" if x: "x \<in> set (db_records (w_db w'))" for x
    proof (cases "x \<in> set (db_records (w_db w))")
      case True
      then show ?thesis using g(2) m by (auto simp: all_backed_def intro: backed_moved)
    next
      case False
      then have "w_db w' \<noteq> w_db w" using x by auto
      with rule obtain encoded row where
        a: "acknowledged ops loads dumps cfg source key val (w_env w) encoded row"
        and d: "materialized (op_json ops) row (w_db w) = Inr (w_db w')"
        by (auto split: res.splits)
      obtain j where j: "op_json ops (payload row) = Some j" "x = row\<lparr>payload := j\<rparr>"
        using d x False by (auto elim!: materialized_records split: if_splits)
      obtain topic k where s: "changelog_name (op_format ops) (cfg_template cfg) source = Inr topic"
          "op_send_and_wait ops topic 0 encoded (snd (op_uuid7 ops (w_env w))) = (Inr (changelog_offset row), k)"
          "log_grows ever good k (w_env w')"
        using append_passes_send [OF a run] by blast
      have "good (snd (op_uuid7 ops (w_env w)))"
        using producer(1) g(1) by (simp add: moves_def log_grows_def)
      moreover have "0 \<le> changelog_offset row" using a by (auto simp: acknowledged_def)
      ultimately have "changelog_record encoded (changelog_offset row) \<in> ever k \<lparr>tp_topic = topic, tp_partition = 0\<rparr>"
        by (rule sent [OF _ s(2)])
      then have rec: "changelog_record encoded (changelog_offset row) \<in> ever (w_env w') \<lparr>tp_topic = topic, tp_partition = 0\<rparr>"
        using s(3) unfolding log_grows_def by blast
      note c = acknowledged_classified [OF a minted [OF g(1)]]
      have "row_of_record (op_json ops) source (changelog_record encoded (changelog_offset row)) x"
        unfolding row_of_record_def using c(1) j
        by (simp add: changelog_record_def) (subst c(2), simp)
      moreover have "row_tp x = source" using j(2) by (simp, subst c(2), simp)
      ultimately show ?thesis using rec s(1) assms by (auto simp: row_backed_def)
    qed
    ultimately show ?thesis by (simp add: all_backed_def)
  qed
  with m show "sourced template w w'" by (simp add: sourced_def)
qed

section \<open>Queries, revocations and the migration\<close>

lemma moved_fetch: "keeps moved (fetch ops st f)"
  unfolding fetch_def by (intro moved_basics moved_execute)

lemma moved_query_rows: "keeps moved (query_rows ops bt sql params)"
  unfolding query_rows_def query_only_def host_fetch_def
  by (intro moved_checked_out keeps_bind keeps_finally keeps_catch keeps_raise keeps_ret keeps_modify
      moved_execute moved_fetch) (simp_all add: moved_def E_refl)

lemma sourced_query: "keeps (sourced template) (query ops jloads bt sql params into)"
proof -
  have "keeps (settled rows_kept) (query_rows ops bt sql params)"
  proof (rule keepsI)
    fix w r w' assume "query_rows ops bt sql params w = (r, w')"
    from wpD [OF query_rows_rule this] show "settled rows_kept w w'" by (simp add: settled_def rows_kept_def)
  qed
  note sourced_kept [OF moved_query_rows this]
  then show ?thesis unfolding query_def
    by (intro source.keeps_bind) (auto intro!: source.keeps_combinators sourced_pure split: option.split)
qed

lemma sourced_revoked: "keeps (sourced template) (on_partitions_revoked ops cfg tps)"
proof -
  have "keeps (sourced template) (revoke_one ops cfg tp)" for tp
    unfolding revoke_one_def
    by (intro source.keeps_combinators keeps_if sourced_statement sourced_pure) (auto simp: rows_kept_def owned_delete_def)
  then show ?thesis unfolding on_partitions_revoked_def by (intro source.keeps_for)
qed

lemma moved_schema:
  "keeps moved (execute_migration_ddl ops t)" "keeps moved (existing_index_shape ops n)"
  unfolding execute_migration_ddl_def existing_index_shape_def
  by (intro moved_basics moved_execute moved_fetch, intro keeps_bind moved_fetch)
    (auto intro!: moved_basics moved_fetch split: option.split)

lemma moved_migrate: "keeps moved (migrate ops columns indexes)"
  unfolding migrate_def create_base_schema_def reconcile_columns_def reconcile_column_def reconcile_indexes_def
    reconcile_index_def
  by (intro moved_basics moved_execute moved_fetch moved_schema)
    (auto intro!: moved_basics moved_execute moved_fetch moved_schema split: option.split)

lemma sourced_migrate: "keeps (sourced template) (checked_out ops bt (migrate ops columns indexes))"
  by (rule sourced_kept [OF moved_checked_out [OF moved_migrate] rows_kept_migrate])

section \<open>Public calls and histories\<close>

definition store_sourced :: "pystr \<Rightarrow> 'k store \<Rightarrow> 'k store \<Rightarrow> bool" where
  "store_sourced template s s' \<longleftrightarrow> sourced template (st_world s) (st_world s')"

end

sublocale changelog_service \<subseteq> facade: preorder_rel "store_sourced template" for template
  by unfold_locales (auto simp: store_sourced_def source.rrefl intro: source.rtrans)

context changelog_service
begin

lemma facade_world: "keeps (sourced template) m \<Longrightarrow> keeps (store_sourced template) (in_world m)"
  by (rule keepsI) (auto simp: in_world_def store_sourced_def dest: keepsD split: prod.splits)

lemma facade_field: "(\<And>s. st_world (f s) = st_world s) \<Longrightarrow> keeps (store_sourced template) (io_modify f)"
  by (rule facade.keeps_modify) (simp add: store_sourced_def source.rrefl)

lemma facade_use: "keeps (sourced template) m \<Longrightarrow> keeps (store_sourced template) (use c m)"
  unfolding use_def trace_def by (intro facade.keeps_combinators facade_field facade_world) simp_all

lemmas facade_basics = facade.keeps_combinators keeps_if facade_use facade_world facade_field

lemma facade_ensure: "keeps (store_sourced template) ensure_running"
  unfolding ensure_running_def by (intro facade_basics)

lemma compose_sourced: "sourced template w (w\<lparr>w_parts := m, w_checked := c, w_consumer := b\<rparr>)"
  by (simp add: sourced_def moved_def all_backed_def E_refl)

lemma facade_start: "keeps (store_sourced template) (start ops cl cfg)"
proof -
  have rollback: "keeps (store_sourced template) (rollback_start cl)"
    unfolding rollback_start_def rollback_step_def rollback_steps_def
    by (intro facade_basics keeps_for_members [OF facade.preorder_rel_axioms])
      (auto intro!: facade_basics sourced_call clients sourced_pure split: if_splits)
  have compose: "keeps (store_sourced template) (io_modify compose_services)"
    by (rule facade.keeps_modify) (simp add: store_sourced_def compose_services_def compose_sourced)
  show ?thesis
    unfolding start_def open_clients_def opened_def started_def
    by (intro compose facade_basics sourced_pure sourced_call clients sourced_migrate rollback) simp_all
qed

lemma facade_stop: "keeps (store_sourced template) (stop ops cl)"
proof -
  have aclose: "keeps (sourced template) (aclose ops)"
    unfolding aclose_def by (intro source.keeps_combinators sourced_call forward sourced_pure)
  have one: "keeps (store_sourced template) (close_step step)" if "step \<in> set (close_steps ops cl)" for step
    using that unfolding close_steps_def close_step_def
    by (auto intro!: facade_basics sourced_call clients sourced_pure aclose split: sum.split)
  have from_steps: "keeps (store_sourced template) (close_from steps e)" if "set steps \<subseteq> set (close_steps ops cl)" for steps e
    using that by (induction steps arbitrary: e) (auto intro!: facade_basics one)
  show ?thesis
    unfolding stop_def begin_stop_def await_drained_def finish_stop_def
    by (intro facade_basics from_steps subset_refl) (auto intro!: facade_basics split: option.split)
qed

lemma sourced_assigned:
  "cfg_template cfg = template \<Longrightarrow> keeps (sourced template) (on_partitions_assigned fuel ops cfg tps)"
  by (rule source.assigned) simp_all

lemma service: "changelog_service (service_ops ops cl cfg) ever good cl"
  by (unfold_locales, simp_all add: service_ops_def E_refl forward producer clients minted sent served)
    (blast intro: E_trans)

lemma service_sourced: "changelog_service.sourced (service_ops ops cl cfg) ever good template = sourced template"
  unfolding changelog_service.sourced_def [OF service] changelog_service.all_backed_def [OF service]
    row_backed_def outside_order.moved_def [OF changelog_service.axioms(1) [OF service]]
    sourced_def all_backed_def row_backed_def moved_def
  by (simp add: service_ops_def)

lemma facade_append:
  "sc_template cfg = template \<Longrightarrow> keeps (store_sourced template) (store_append ops loads dumps cfg source key val)"
  unfolding store_append_def enter_append_def leave_append_def
  by (intro facade_basics facade_ensure sourced_append) (simp_all add: service_settings_def)

lemma facade_assigned:
  assumes "sc_template cfg = template"
  shows "keeps (store_sourced template) (store_assigned fuel ops cl cfg tps)"
proof -
  have "keeps (sourced template) (on_partitions_assigned fuel (service_ops ops cl cfg) (service_settings cfg) tps)"
    using changelog_service.sourced_assigned [OF service, of "service_settings cfg" template cfg fuel tps] assms
    by (simp add: service_sourced service_settings_def)
  then show ?thesis unfolding store_assigned_def by (intro facade_basics facade_ensure)
qed

lemma facade_step:
  assumes "public_step (log_grows ever good) ops cl cfg loads dumps jloads s s'" "w_saved (st_world s) = None"
    "sc_template cfg = template"
  shows "store_sourced template s s'"
  using assms(1)
proof cases
  case (queries sql params into q)
  have "keeps (store_sourced template) (store_query ops jloads cfg sql params into)"
    unfolding store_query_def by (intro facade_basics facade_ensure sourced_query)
  from keepsD [OF this queries] show ?thesis .
next
  case (revoked tps r)
  have "keeps (store_sourced template) (store_revoked ops cfg tps)"
    unfolding store_revoked_def by (intro facade_basics facade_ensure sourced_revoked)
  from keepsD [OF this revoked] show ?thesis .
next
  case (restarts k)
  then have "moved (st_world s) (st_world s')"
    by (simp add: restarted_def new_store_def moved_def)
  with restarts assms(2) show ?thesis
    by (auto simp: store_sourced_def sourced_def all_backed_def restarted_def new_store_def dest: backed_moved)
next
  case (appends source key val r)
  with keepsD [OF facade_append [OF assms(3)]] show ?thesis by blast
next
  case (assigned fuel tps r)
  with keepsD [OF facade_assigned [OF assms(3)]] show ?thesis by blast
qed (use keepsD [OF facade_start] keepsD [OF facade_stop] in blast)+

lemma facade_history:
  assumes "history (log_grows ever good) ops cl cfg loads dumps jloads s s'" "store_wf s" "sc_template cfg = template"
  shows "store_sourced template s s'"
  using assms(1)
proof (induction rule: rtranclp_induct)
  case base
  show ?case by (rule facade.rrefl)
next
  case (step u v)
  have "w_saved (st_world u) = None"
    using history_advances [OF step.hyps(1) assms(2)] by (simp add: advances_def store_wf_def)
  with step show ?case by (blast intro: facade.rtrans facade_step [OF _ _ assms(3)])
qed

lemma history_backed:
  assumes "history (log_grows ever good) ops cl cfg loads dumps jloads s0 s" "store_wf s0" "good (w_env (st_world s0))"
    and "\<forall>r\<in>set (db_records (w_db (st_world s0))). backed (sc_template cfg) (w_env (st_world s0)) r"
  shows "\<forall>r\<in>set (db_records (w_db (st_world s))). backed (sc_template cfg) (w_env (st_world s)) r"
  using facade_history [OF assms(1,2) refl] assms(2-)
  by (auto simp: store_sourced_def sourced_def all_backed_def store_wf_def)

end

end
