(* ===== verification/Durability.thy ===== *)
theory Durability imports
  Changelog_Source Replay_Correctness
begin

text \<open>
  Durability, end to end: where the rows come from, and what is left of them when a database is
  lost. The broker of the tests provides the contract of a changelog service.
\<close>

section \<open>The broker of the tests\<close>

text \<open>
  Its log is only appended to by its own calls. It reports the offset the record has, unless a
  test forces one; the forced offset of a broker that did not acknowledge is negative. The
  identifiers it is asked for are minted, as the library's are, in the layout of a UUID.
\<close>

definition minting_ops :: "fake ops" where
  "minting_ops = fake_ops\<lparr>op_uuid7 := \<lambda>k. (sample_uuid, k)\<rparr>"

definition honest_offsets :: "fake \<Rightarrow> bool" where
  "honest_offsets k \<longleftrightarrow> (case fk_force_offset k of None \<Rightarrow> True | Some n \<Rightarrow> n < 0)"

definition fake_ever :: "fake \<Rightarrow> topic_partition \<Rightarrow> consumer_record set" where
  "fake_ever k ctp = set (kafka_records k ctp)"

lemma fake_grows_unchanged:
  "fk_logs k' = fk_logs k \<Longrightarrow> fk_force_offset k' = fk_force_offset k \<Longrightarrow> log_grows fake_ever honest_offsets k k'"
  by (simp add: log_grows_def fake_ever_def kafka_records_def honest_offsets_def)

lemma moves_unchanged:
  "(\<And>k. fk_logs (snd (f k)) = fk_logs k \<and> fk_force_offset (snd (f k)) = fk_force_offset k) \<Longrightarrow>
   moves (log_grows fake_ever honest_offsets) f"
  by (simp add: moves_def fake_grows_unchanged)

lemma fake_append_grows: "log_grows fake_ever honest_offsets k (snd (kafka_append k ctp key val hs))"
  by (auto simp: log_grows_def fake_ever_def kafka_append_def kafka_records_def honest_offsets_def Let_def)

lemma fake_append_holds:
  "kafka_append k ctp key val hs = (n, k') \<Longrightarrow>
   \<lparr>cr_offset = n, cr_key = key, cr_value = val, cr_headers = hs\<rparr> \<in> fake_ever k' ctp"
  by (auto simp: fake_ever_def kafka_append_def kafka_records_def Let_def)

lemma log_grows_trans: "log_grows ever good a b \<Longrightarrow> log_grows ever good b c \<Longrightarrow> log_grows ever good a c"
  unfolding log_grows_def by blast

lemma fake_send_grows: "moves (log_grows fake_ever honest_offsets) (fake_send_and_wait topic part er)"
  unfolding moves_def
proof
  fix k
  note one = fake_append_grows
  have two: "log_grows fake_ever honest_offsets k (snd (kafka_append (snd (kafka_append k c x y h)) c' x' y' h'))"
    for c x y h c' x' y' h'
    by (rule log_grows_trans [OF one one])
  have "snd (fake_send_and_wait topic part er k) = k
    \<or> (\<exists>c x y h. snd (fake_send_and_wait topic part er k) = snd (kafka_append k c x y h))
    \<or> (\<exists>c x y h. snd (fake_send_and_wait topic part er k) = snd (kafka_append (snd (kafka_append k c x y h)) c x y h))"
    by (auto simp: fake_send_and_wait_def Let_def split: option.split prod.split) (metis snd_conv)+
  then show "log_grows fake_ever honest_offsets k (snd (fake_send_and_wait topic part er k))"
    using one two fake_grows_unchanged [of k k] by metis
qed

lemma fake_sent:
  assumes "honest_offsets k" "fake_send_and_wait topic part er k = (Inr n, k')" "0 \<le> n"
  shows "changelog_record er n \<in> fake_ever k' \<lparr>tp_topic = topic, tp_partition = part\<rparr>"
proof -
  have same: "fk_force_offset (snd (kafka_append k c x y h)) = fk_force_offset k" for k c x y h
    by (simp add: kafka_append_def Let_def)
  have none: "fk_force_offset k = None \<or> (\<exists>m<0. fk_force_offset k = Some m)"
    using assms(1) by (auto simp: honest_offsets_def split: option.splits)
  then show ?thesis using assms(2,3)
    by (auto simp: fake_send_and_wait_def changelog_record_def Let_def
        split: option.splits prod.splits if_splits intro: fake_append_holds dest: arg_cong [of _ _ "fk_force_offset \<circ> snd"])
qed

lemma fake_served:
  assumes "fake_getmany ctp n k = (Inr m, k')" "m ctp = Some rs"
  shows "set rs \<subseteq> fake_ever k' ctp"
proof -
  have fetched: "set rs \<subseteq> fake_ever k' ctp" if "fake_fetch ctp n u = (Inr m, k')" for u
    using that assms(2)
    by (auto simp: fake_fetch_def fake_ever_def Let_def split: if_splits dest!: in_set_takeD)
  show ?thesis
    using assms fetched by (auto simp: fake_getmany_def Let_def split: option.splits prod.splits if_splits)
qed

lemma moves_refl: "(\<And>k. snd (f k) = k) \<Longrightarrow> moves (log_grows fake_ever honest_offsets) f"
  by (simp add: moves_unchanged)

lemma fake_calls_move:
  "moves (log_grows fake_ever honest_offsets) (fake_verdict s)"
  "moves (log_grows fake_ever honest_offsets) (fake_seek tp n)"
  "moves (log_grows fake_ever honest_offsets) (fake_seek_to_beginning tp)"
  "moves (log_grows fake_ever honest_offsets) (fake_create_topics t)"
  "moves (log_grows fake_ever honest_offsets) (fake_describe_configs name)"
  "moves (log_grows fake_ever honest_offsets) (fake_getmany tp m)"
  by (rule moves_unchanged;
      simp add: fake_verdict_def fake_seek_def fake_seek_to_beginning_def fake_create_topics_def
        fake_describe_configs_def fake_getmany_def fake_fetch_def Let_def split: list.split option.split prod.split)+

interpretation produced: changelog_service minting_ops fake_ever honest_offsets good_clients
proof (unfold_locales, goal_cases)
  case 1 show ?case by (rule fake_grows_unchanged) simp_all
next
  case 2 then show ?case by (rule log_grows_trans)
next
  case (22 topic part er) show ?case by (simp add: minting_ops_def fake_ops_def fake_send_grows)
next
  case 33 show ?case by (simp add: minting_ops_def canonical_uuid_ok [OF sample_uuid_canonical])
next
  case 34 then show ?case by (auto simp: minting_ops_def fake_ops_def intro: fake_sent)
next
  case 35 then show ?case by (auto simp: minting_ops_def fake_ops_def dest: fake_served)
qed (simp_all add: minting_ops_def fake_ops_def good_clients_def fake_calls_move moves_unchanged)

text \<open>The same broker is a quiet one for a replay.\<close>

lemma minting_broker:
  "log_broker minting_ops ctp limit (calm_fake ctp limit)
     (\<lambda>k. kafka_records k ctp) (\<lambda>k. kafka_log_start k ctp) (\<lambda>k. kafka_log_end k ctp)
     (\<lambda>k. fake_position k ctp) fake_patience"
  using quiet.log_broker_axioms [of ctp limit] unfolding log_broker_def minting_ops_def by simp

section \<open>Where the rows come from\<close>

text \<open>
  C2. Produce first, write second, across every history: any sequence of public calls (starts and
  stops, appends, queries, rebalances with whatever outcome) and crashes of the process leaves
  only rows whose record the changelog of their partition has held, at the offset, with the
  message id, the key and the body of the row. The changelog service promises that a record it
  acknowledged is in the log at the offset it reported, and that it serves records of the log.
\<close>

theorem rows_come_from_changelog:
  assumes service: "changelog_service ops ever good cl"
    and first: "store_wf s0" "good (w_env (st_world s0))"
      "\<forall>r\<in>set (db_records (w_db (st_world s0))). row_backed ops ever (sc_template cfg) (w_env (st_world s0)) r"
    and run: "history (log_grows ever good) ops cl cfg loads dumps jloads s0 s"
  shows "\<forall>r\<in>set (db_records (w_db (st_world s))). row_backed ops ever (sc_template cfg) (w_env (st_world s)) r"
  by (rule changelog_service.history_backed [OF service run first])

text \<open>An append to the broker of the tests, and where it leaves the broker.\<close>

definition appended_log :: "fake \<Rightarrow> bool" where
  "appended_log k \<longleftrightarrow>
     fk_logs k = [\<lparr>tp_topic = lit ''m.p0.changelog'', tp_partition = 0\<rparr> \<mapsto> [sample_change 7]]
     \<and> fk_next_offsets k = [\<lparr>tp_topic = lit ''m.p0.changelog'', tp_partition = 0\<rparr> \<mapsto> 8]
     \<and> fk_log_starts k = Map.empty \<and> fk_verdicts k = [] \<and> fk_fail_at_call k = None \<and> fk_clock k = 0
     \<and> \<not> fk_spurious_empty k \<and> fk_force_offset k = None"

lemma minted_append_returns:
  "\<exists>w'. append_record minting_ops (\<lambda>_. None) (\<lambda>_::unit. Inl TypeError) test_settings sample_tp
     (HostStr (lit ''k'')) (PayloadStr (lit ''1'')) (boot appending empty_database) = (Ok (), w')
     \<and> db_records (w_db w') = [sample_row 7] \<and> w_saved w' = None \<and> appended_log (w_env w')"
proof -
  have d: "utf8_decode [49] = Inr (lit ''1'')"
    by (rule utf8_decode_encode) (simp add: utf8_encode_def lit_def scalar_value_def utf8_encode_one_def)
  show ?thesis
    by (simp add: append_record_def sample_key sample_topic sample_encode appending_def new_message_id_def lift_res_def ask_def call_def
        fake_answers minting_ops_def produce_def io_simps fake_send_and_wait_def kafka_append_def kafka_log_end_def Let_def
        log_event_def checked_out_def acquire_def rollback_def execute_def run_stmt_def in_transaction_def
        fake_verdict_def run_txn_def run_from.simps attempt_txn_def on_error_def materialize_def d
        apply_materialization_def release_def commit_def end_commit_def on_parts_def committed_def
        insert_record_def checkpoint_upsert_def sample_row_def has_message_def status_of_def
        appended_log_def kafka_records_def sample_change_def)
qed

lemma minted_store_returns:
  "\<exists>s1. store_append minting_ops (\<lambda>_. None) (\<lambda>_::unit. Inl TypeError) thread_config sample_tp
      (HostStr (lit ''k'')) (PayloadStr (lit ''1'')) appending_store = (Ok (), s1)
    \<and> db_records (w_db (st_world s1)) = [sample_row 7] \<and> w_saved (st_world s1) = None \<and> appended_log (w_env (st_world s1))"
proof -
  show ?thesis using minted_append_returns thread_settings
    by (auto simp: store_append_def appending_store_def enter_append_def ensure_running_def leave_append_def
        in_world_def io_simps)
qed

text \<open>The same store after the process that appended has ended.\<close>

lemma minted_history:
  "\<exists>s k. history (log_grows fake_ever honest_offsets) minting_ops good_clients thread_config (\<lambda>_. None)
      (\<lambda>_::unit. Inl TypeError) no_loads appending_store s
    \<and> w_env (st_world s) = k \<and> db_records (w_db (st_world s)) = [sample_row 7] \<and> appended_log k"
proof -
  obtain s1 where s1: "store_append minting_ops (\<lambda>_. None) (\<lambda>_::unit. Inl TypeError) thread_config sample_tp
      (HostStr (lit ''k'')) (PayloadStr (lit ''1'')) appending_store = (Ok (), s1)"
    "db_records (w_db (st_world s1)) = [sample_row 7]" "w_saved (st_world s1) = None" "appended_log (w_env (st_world s1))"
    using minted_store_returns by blast
  let ?k = "w_env (st_world s1)"
  let ?step = "public_step (log_grows fake_ever honest_offsets) minting_ops good_clients thread_config (\<lambda>_. None)
      (\<lambda>_::unit. Inl TypeError) no_loads"
  have "?step appending_store s1" by (rule appends [OF s1(1)])
  moreover have "?step s1 (restarted ?k s1)" by (rule restarts) (rule fake_grows_unchanged [OF refl refl])
  ultimately have "?step\<^sup>*\<^sup>* appending_store (restarted ?k s1)" by (meson r_into_rtranclp rtranclp_trans)
  with s1 show ?thesis
    by (intro exI [of _ "restarted ?k s1"]) (simp add: restarted_def new_store_def committed_def)
qed

lemma appending_honest: "honest_offsets (w_env (st_world appending_store))"
  by (simp add: honest_offsets_def appending_store_def appending_def)

lemma appending_backed:
  "\<forall>r\<in>set (db_records (w_db (st_world appending_store))).
     row_backed minting_ops fake_ever (sc_template thread_config) (w_env (st_world appending_store)) r"
  by (simp add: appending_store_def)

lemma rows_come_from_changelog_witness:
  "\<exists>s :: fake store. db_records (w_db (st_world s)) = [sample_row 7]
     \<and> row_backed minting_ops fake_ever (sc_template thread_config) (w_env (st_world s)) (sample_row 7)"
proof -
  obtain s where s: "history (log_grows fake_ever honest_offsets) minting_ops good_clients thread_config (\<lambda>_. None)
      (\<lambda>_::unit. Inl TypeError) no_loads appending_store s" "db_records (w_db (st_world s)) = [sample_row 7]"
    using minted_history by blast
  from rows_come_from_changelog [OF produced.changelog_service_axioms appending_store_wf appending_honest
      appending_backed s(1)] s(2)
  have "row_backed minting_ops fake_ever (sc_template thread_config) (w_env (st_world s)) (sample_row 7)" by simp
  with s(2) show ?thesis by blast
qed

section \<open>A lost database\<close>

text \<open>The records of a log that carry the same message id carry the same message.\<close>

definition same_messages :: "consumer_record list \<Rightarrow> bool" where
  "same_messages rs \<longleftrightarrow> (\<forall>a\<in>set rs. \<forall>b\<in>set rs. \<forall>mid key body key' body'.
     classify (cr_key a) (cr_value a) (cr_headers a) = KsqliteRecord mid key body \<longrightarrow>
     classify (cr_key b) (cr_value b) (cr_headers b) = KsqliteRecord mid key' body' \<longrightarrow> key' = key \<and> body' = body)"

lemma same_messages_Cons: "same_messages (r # rs) \<Longrightarrow> same_messages rs"
  unfolding same_messages_def by (meson list.set_intros(2))

lemma replayed_rows_added: "replayed json tp rs d = Inr d' \<Longrightarrow> rows_added d d'"
  by (induction rs arbitrary: d)
    (auto split: classified.splits sum.splits dest: insert_record_invariants(1) intro: rows_added_trans)

lemma replay_restores_row:
  assumes "replayed json tp rs d = Inr d1" "rec \<in> set rs" "row_of_record json tp rec r"
    and "sorted_wrt (<) (map cr_offset rs)" "same_messages rs" "message_id r \<notin> message_ids d"
  shows "\<exists>n\<le>cr_offset rec. r\<lparr>changelog_offset := n\<rparr> \<in> set (db_records d1)"
  using assms
proof (induction rs arbitrary: d)
  case (Cons x rs)
  obtain mid key body j where rec: "classify (cr_key rec) (cr_value rec) (cr_headers rec) = KsqliteRecord mid key body"
      "json body = Some j" "r = replayed_record tp (cr_offset rec) mid key j"
    using Cons.prems(3) by (auto simp: row_of_record_def)
  show ?case
  proof (cases "classify (cr_key x) (cr_value x) (cr_headers x)")
    case (KsqliteRecord mid' key' body')
    then obtain d' where d': "insert_record json (replayed_record tp (cr_offset x) mid' key' body') d = Inr d'"
        "replayed json tp rs d' = Inr d1"
      using Cons.prems(1) by (auto split: sum.splits)
    show ?thesis
    proof (cases "mid' = mid")
      case True
      have "key' = key" "body' = body"
        using Cons.prems(2,5) rec(1) KsqliteRecord True unfolding same_messages_def by (metis list.set_intros(1))+
      with d'(1) rec True Cons.prems(6) have "r\<lparr>changelog_offset := cr_offset x\<rparr> \<in> set (db_records d')"
        by (auto simp: insert_record_cases replayed_record_def split: option.splits if_splits)
      moreover have "cr_offset x \<le> cr_offset rec" using Cons.prems(2,4) by auto
      ultimately show ?thesis using rows_added_set [OF replayed_rows_added [OF d'(2)]] by blast
    next
      case False
      have "rec \<in> set rs" using Cons.prems(2) rec(1) KsqliteRecord False by auto
      moreover have "message_id r \<notin> message_ids d'"
        using d'(1) rec(3) False Cons.prems(6)
        by (auto simp: insert_record_cases replayed_record_def message_ids_def split: option.splits if_splits)
      ultimately show ?thesis
        using Cons.IH [OF d'(2) _ Cons.prems(3)] Cons.prems(4) same_messages_Cons [OF Cons.prems(5)] by simp
    qed
  next
    case (ForeignRecord why)
    then have "rec \<in> set rs" using Cons.prems(2) rec(1) by auto
    then show ?thesis
      using Cons.IH [of d] Cons.prems ForeignRecord same_messages_Cons [OF Cons.prems(5)] by simp
  next
    case (UnknownVersionRecord raw v)
    then show ?thesis using Cons.prems(1) by simp
  qed
qed simp

text \<open>
  C3. A lost database is rebuilt from the changelog alone. Take any history of a store and any row
  it holds for a partition, and lose the database: if the log still holds every record it ever
  held, the outside is quiet and the log replays, the assignment of that partition to a new
  process on an empty database returns, and the row is there, visible to queries, with its
  message id, key and payload; only its offset may be the earlier one of a copy that the
  producer sent twice.
\<close>

theorem lost_database_rebuilt:
  assumes service: "changelog_service ops ever good cl"
    and first: "store_wf s0" "good (w_env (st_world s0))"
      "\<forall>r\<in>set (db_records (w_db (st_world s0))). row_backed ops ever (sc_template cfg) (w_env (st_world s0)) r"
    and run: "history (log_grows ever good) ops cl cfg loads dumps jloads s0 s"
    and row: "r \<in> set (db_records (w_db (st_world s)))" "row_tp r = tp"
    and name: "changelog_name (op_format ops) (sc_template cfg) tp = Inr name" "ctp = \<lparr>tp_topic = name, tp_partition = 0\<rparr>"
    and broker: "log_broker ops ctp limit steady contents log_start leo pos patience"
    and whole: "k = w_env (st_world s)" "steady k" "ever k ctp \<subseteq> set (contents k)" "same_messages (contents k)"
    and lost: "db_records d = []" "db_checkpoints d tp = None"
    and settings: "limit \<le> deadline" "0 < cfg_batch_size settings" "length (contents k) + patience k \<le> fuel"
    and replay: "replayed (op_json ops) tp (contents k) d = Inr d1"
  shows "wp (rehydrate_one fuel ops settings tp name deadline) (\<lambda>q w'. q = Ok ()
    \<and> (\<exists>n\<le>changelog_offset r. r\<lparr>changelog_offset := n\<rparr> \<in> set (records_view (w_db w')))) (boot k d)"
proof -
  have "row_backed ops ever (sc_template cfg) k r"
    using changelog_service.history_backed [OF service run first] row(1) whole(1) by blast
  then obtain rec where rec: "rec \<in> set (contents k)" "row_of_record (op_json ops) tp rec r"
    using row(2) name whole(3) by (auto simp: row_backed_def)
  note facts = log_broker.settled_good_def [OF broker] log_broker.to_replay_def [OF broker]
  have sorted: "sorted_wrt (<) (map cr_offset (contents k))"
    using log_broker.log_shape [OF broker whole(2)] by blast
  have "cr_offset rec = changelog_offset r" using rec(2) by (auto simp: row_of_record_def replayed_record_def)
  then obtain n where n: "n \<le> changelog_offset r" "r\<lparr>changelog_offset := n\<rparr> \<in> set (db_records d1)"
    using replay_restores_row [OF replay rec sorted whole(4)] lost(1) by (auto simp: message_ids_def)
  have some: "contents k \<noteq> []" using rec(1) by auto
  show ?thesis
    by (rule wp_mono [OF log_broker.rehydrate_calm [OF broker _ settings(1,2) name(2), unfolded facts]])
      (use whole(2) some replay settings(3) n row(2) in
        \<open>auto simp: unapplied_def lost(2) records_view_def owned_insert_def checkpoint_upsert_def row_tp_def\<close>)
qed

lemma sample_topic_name:
  "changelog_name (op_format minting_ops) (sc_template thread_config) sample_tp = Inr (lit ''m.p0.changelog'')"
  using sample_topic by (simp add: minting_ops_def thread_config_def test_settings_def)

lemma lost_database_rebuilt_witness:
  "\<exists>k. wp (rehydrate_one 1 minting_ops test_settings sample_tp (lit ''m.p0.changelog'') 1) (\<lambda>q w'. q = Ok ()
    \<and> (\<exists>n\<le>changelog_offset (sample_row 7). (sample_row 7)\<lparr>changelog_offset := n\<rparr> \<in> set (records_view (w_db w'))))
    (boot k empty_database)"
proof -
  obtain s k where s: "history (log_grows fake_ever honest_offsets) minting_ops good_clients thread_config (\<lambda>_. None)
      (\<lambda>_::unit. Inl TypeError) no_loads appending_store s" "k = w_env (st_world s)"
      "db_records (w_db (st_world s)) = [sample_row 7]" "appended_log k"
    using minted_history by blast
  let ?ctp = "\<lparr>tp_topic = lit ''m.p0.changelog'', tp_partition = 0\<rparr>"
  have k: "kafka_records k ?ctp = [sample_change 7]" "kafka_log_start k ?ctp = 0" "kafka_log_end k ?ctp = 8"
      "fake_patience k = 0" "calm_fake ?ctp 1 k"
    using s(4) by (simp_all add: appended_log_def kafka_records_def kafka_log_start_def kafka_log_end_def
        fake_patience_def calm_fake_def sample_offsets)
  have row: "sample_row 7 \<in> set (db_records (w_db (st_world s)))" "row_tp (sample_row 7) = sample_tp"
    using s(3) by (simp_all add: sample_row_def replayed_record_def row_tp_def)
  have once: "same_messages (kafka_records k ?ctp)" by (simp add: k(1) same_messages_def)
  have replay: "replayed (op_json minting_ops) sample_tp (kafka_records k ?ctp) empty_database
      = Inr (empty_database\<lparr>db_records := [sample_row 7]\<rparr>)"
    by (simp add: k(1) minting_ops_def sample_change_def sample_classified sample_row_def insert_record_def
        replayed_record_def has_message_def)
  show ?thesis
    by (rule exI, rule lost_database_rebuilt [OF produced.changelog_service_axioms appending_store_wf appending_honest
          appending_backed s(1) row sample_topic_name refl minting_broker s(2) k(5) _ once _ _ _ _ _ replay])
      (simp_all add: fake_ever_def k test_settings_def)
qed

end
