(* ===== verification/Append_Visibility.thy ===== *)
theory Append_Visibility imports
  Store_History
begin

text \<open>
  Reading one's writes: what a query returns right after an append of the same store, for a
  partition the store owns and for one it does not.
\<close>

lemma store_query_rows:
  assumes "store_wf s" "store_query ops jloads cfg sql params None s = (Ok (Inl rows), s')"
  shows "rows = op_host_rows ops sql params (w_db (st_world s))"
proof -
  obtain v where "query_rows ops (sc_busy_timeout cfg) sql params (st_world s) = (Ok rows, v)"
    using assms(2)
    by (auto simp: store_query_def ensure_running_def in_world_def query_def io_simps
        split: res.splits prod.splits if_splits)
  with wpD [OF query_rows_rule this] assms(1) show ?thesis by (auto simp: store_wf_def)
qed

lemma acknowledged_source:
  "acknowledged ops loads dumps cfg source key val env encoded row \<Longrightarrow> row_tp row = source"
  by (auto simp: acknowledged_def row_tp_def replayed_record_def)

text \<open>The view after an append: one row more, if the store owns the partition and the id is new.\<close>

lemma materialized_view:
  assumes "materialized json row d = Inr d'"
  obtains j where "json (payload row) = Some j"
    "records_view d' = records_view d
      @ (if row_tp row \<in> db_owned d \<and> message_id row \<notin> message_ids d then [row\<lparr>payload := j\<rparr>] else [])"
proof -
  obtain j where j: "json (payload row) = Some j"
    "db_records d' = (if message_id row \<in> message_ids d then db_records d else db_records d @ [row\<lparr>payload := j\<rparr>])"
    using assms by (rule materialized_records)
  moreover have "db_owned d' = db_owned d"
    using assms insert_record_invariants(4) by (fastforce simp: materialized_def split: sum.splits)
  ultimately show thesis by (intro that [of j]) (simp_all add: records_view_def row_tp_def)
qed

text \<open>
  C21. Read your writes. A query over the view \<^verbatim>\<open>records\<close> that follows an append which returned sees
  what was visible before the append and, when the store owns the partition, the row of the
  append with its payload as SQLite stores it. An append to a partition that is not revealed
  changes no answer.
\<close>

theorem append_then_query:
  assumes view: "\<And>d d'. records_view d = records_view d' \<Longrightarrow>
      op_host_rows ops sql params d = op_host_rows ops sql params d'"
    and "store_wf s" "store_append ops loads dumps cfg source key val s = (Ok (), s1)"
    and "store_query ops jloads cfg sql params None s1 = (Ok (Inl rows), s2)"
  shows "\<exists>encoded row j. acknowledged ops loads dumps (service_settings cfg) source key val (w_env (st_world s)) encoded row
     \<and> op_json ops (payload row) = Some j
     \<and> rows = op_host_rows ops sql params ((w_db (st_world s))\<lparr>db_records := records_view (w_db (st_world s))
         @ (if source \<in> db_owned (w_db (st_world s)) \<and> message_id row \<notin> message_ids (w_db (st_world s))
            then [row\<lparr>payload := j\<rparr>] else [])\<rparr>)"
proof -
  let ?d = "w_db (st_world s)"
  obtain encoded row where a: "materialized (op_json ops) row ?d = Inr (w_db (st_world s1))"
    "acknowledged ops loads dumps (service_settings cfg) source key val (w_env (st_world s)) encoded row"
    using store_append_materialized [OF assms(2,3)] .
  note tp = acknowledged_source [OF a(2)]
  obtain j where j: "op_json ops (payload row) = Some j"
    "records_view (w_db (st_world s1)) = records_view ?d
      @ (if source \<in> db_owned ?d \<and> message_id row \<notin> message_ids ?d then [row\<lparr>payload := j\<rparr>] else [])"
    using materialized_view [OF a(1)] tp by metis
  have "store_wf s1" using append_advances [OF assms(2,3)] by (simp add: advances_def)
  from store_query_rows [OF this assms(4)] have "rows = op_host_rows ops sql params (w_db (st_world s1))" .
  also have "\<dots> = op_host_rows ops sql params (?d\<lparr>db_records := records_view ?d
      @ (if source \<in> db_owned ?d \<and> message_id row \<notin> message_ids ?d then [row\<lparr>payload := j\<rparr>] else [])\<rparr>)"
    by (rule view) (use j(2) tp in \<open>simp add: records_view_def row_tp_def\<close>)
  finally show ?thesis using a(2) j(1) by blast
qed

text \<open>A store that owns the partition it appends to.\<close>

definition owning_store :: "fake store" where
  "owning_store = appending_store\<lparr>st_world := boot appending (empty_database\<lparr>db_owned := {sample_tp}\<rparr>)\<rparr>"

lemma owning_store_wf: "store_wf owning_store"
  using appending_store_wf by (simp add: owning_store_def appending_store_def store_wf_def unique_messages_def)

lemma owning_store_appends:
  "\<exists>s1. store_append fake_ops (\<lambda>_. None) (\<lambda>_::unit. Inl TypeError) thread_config sample_tp
      (HostStr (lit ''k'')) (PayloadStr (lit ''1'')) owning_store = (Ok (), s1)
    \<and> st_run s1 = RUNNING \<and> records_view (w_db (st_world s1)) = [sample_row 7] \<and> w_saved (st_world s1) = None
    \<and> fk_verdicts (w_env (st_world s1)) = [] \<and> fk_stale (w_env (st_world s1)) = (False, False)"
proof -
  have d: "utf8_decode [49] = Inr (lit ''1'')"
    by (rule utf8_decode_encode) (simp add: utf8_encode_def lit_def scalar_value_def utf8_encode_one_def)
  show ?thesis
    by (simp add: owning_store_def appending_store_def store_append_def enter_append_def ensure_running_def
        leave_append_def in_world_def thread_settings
        append_record_def sample_key sample_topic sample_encode appending_def new_message_id_def lift_res_def ask_def call_def
        fake_answers produce_def io_simps fake_send_and_wait_def kafka_append_def kafka_log_end_def Let_def
        log_event_def checked_out_def acquire_def rollback_def execute_def run_stmt_def in_transaction_def
        fake_verdict_def run_txn_def run_from.simps attempt_txn_def on_error_def materialize_def d
        apply_materialization_def release_def commit_def end_commit_def on_parts_def committed_def
        insert_record_def checkpoint_upsert_def sample_row_def has_message_def status_of_def records_view_def
        row_tp_def replayed_record_def)
qed

lemma quiet_query:
  assumes "w_saved w = None" "fk_verdicts (w_env w) = []" "fk_stale (w_env w) = (False, False)"
  shows "\<exists>w'. query fake_ops no_loads bt sql [] (None :: (unit, unit) into_target option) w
    = (Ok (Inl (map (\<lambda>r. [(lit ''payload'', SqlText (payload r))]) (records_view (w_db w)))), w')"
  using assms
  by (simp add: query_def query_rows_def checked_out_def acquire_def release_def host_fetch_def fetch_def query_only_def
      execute_def ask_def call_def run_stmt_def host_stmt_def in_transaction_def io_simps end_rollback_def
      committed_def fake_ops_def fake_verdict_def Let_def)

lemma append_then_query_witness:
  "\<exists>encoded row j. acknowledged fake_ops (\<lambda>_. None) (\<lambda>_::unit. Inl TypeError) test_settings sample_tp
         (HostStr (lit ''k'')) (PayloadStr (lit ''1'')) appending encoded row
     \<and> op_json fake_ops (payload row) = Some j
     \<and> [[(lit ''payload'', SqlText (payload (sample_row 7)))]]
         = op_host_rows fake_ops (lit ''SELECT payload FROM records'') [] (empty_database\<lparr>db_owned := {sample_tp},
             db_records := (if message_id row \<notin> message_ids empty_database then [row\<lparr>payload := j\<rparr>] else [])\<rparr>)"
proof -
  let ?sql = "lit ''SELECT payload FROM records''"
  obtain s1 where s1: "store_append fake_ops (\<lambda>_. None) (\<lambda>_::unit. Inl TypeError) thread_config sample_tp
      (HostStr (lit ''k'')) (PayloadStr (lit ''1'')) owning_store = (Ok (), s1)"
    "st_run s1 = RUNNING" "records_view (w_db (st_world s1)) = [sample_row 7]" "w_saved (st_world s1) = None"
    "fk_verdicts (w_env (st_world s1)) = []" "fk_stale (w_env (st_world s1)) = (False, False)"
    using owning_store_appends by blast
  obtain s2 where s2: "store_query fake_ops no_loads thread_config ?sql [] (None :: (unit, unit) into_target option) s1
      = (Ok (Inl [[(lit ''payload'', SqlText (payload (sample_row 7)))]]), s2)"
    using quiet_query [OF s1(4-6), of "sc_busy_timeout thread_config" ?sql] s1(2,3)
    by (auto simp: store_query_def ensure_running_def in_world_def io_simps)
  have view: "op_host_rows fake_ops ?sql [] d = op_host_rows fake_ops ?sql [] d'" if "records_view d = records_view d'" for d d'
    using that by (simp add: fake_ops_def)
  from append_then_query [OF view owning_store_wf s1(1) s2] show ?thesis
    by (simp add: thread_settings owning_store_def appending_store_def records_view_def message_ids_def)
qed

end
