(* ===== verification/Store_Phases.thy ===== *)
theory Store_Phases imports
  Store_History
begin

text \<open>
  The phases of a store, NEW, RUNNING, STOPPING, CLOSED, in their order: the calls of one process
  never go back, and a closed store is never changed again.
\<close>

section \<open>The order of the phases\<close>

fun phase_number :: "run_state \<Rightarrow> nat" where
  "phase_number NEW = 0"
| "phase_number RUNNING = 1"
| "phase_number STOPPING = 2"
| "phase_number CLOSED = 3"

instantiation run_state :: linorder
begin

definition less_eq_run_state :: "run_state \<Rightarrow> run_state \<Rightarrow> bool" where
  "p \<le> q \<longleftrightarrow> phase_number p \<le> phase_number q"

definition less_run_state :: "run_state \<Rightarrow> run_state \<Rightarrow> bool" where
  "p < q \<longleftrightarrow> phase_number p < phase_number q"

instance
proof
  fix p q :: run_state
  show "p \<le> q \<Longrightarrow> q \<le> p \<Longrightarrow> p = q" by (cases p; cases q) (simp_all add: less_eq_run_state_def)
qed (auto simp: less_eq_run_state_def less_run_state_def)

end

lemma phase_bounds [simp]: "NEW \<le> p" "p \<le> CLOSED"
  by (cases p; simp add: less_eq_run_state_def)+

lemma phase_steps [simp]: "RUNNING \<le> STOPPING" "\<not> RUNNING \<le> NEW" "\<not> CLOSED \<le> STOPPING"
  by (simp_all add: less_eq_run_state_def)

section \<open>What one call does to the phase\<close>

definition phase_advances :: "'k store \<Rightarrow> 'k store \<Rightarrow> bool" where
  "phase_advances s s' \<longleftrightarrow> st_run s \<le> st_run s' \<and> (st_run s = CLOSED \<longrightarrow> s' = s)"

lemma phase_advances_trans: "phase_advances a b \<Longrightarrow> phase_advances b c \<Longrightarrow> phase_advances a c"
  by (auto simp: phase_advances_def)

definition same_run :: "'k store \<Rightarrow> 'k store \<Rightarrow> bool" where
  "same_run s s' \<longleftrightarrow> st_run s' = st_run s"

interpretation same_run: preorder_rel same_run
  by unfold_locales (simp_all add: same_run_def)

lemma same_run_world: "keeps same_run (in_world m)"
  by (rule keepsI) (auto simp: in_world_def same_run_def split: prod.splits)

lemma same_run_field: "(\<And>s. st_run (f s) = st_run s) \<Longrightarrow> keeps same_run (io_modify f)"
  by (rule same_run.keeps_modify) (simp add: same_run_def)

lemma same_run_use: "keeps same_run (use c m)"
  unfolding use_def trace_def by (intro same_run.keeps_combinators same_run_world same_run_field) simp

lemmas same_run_basics = same_run.keeps_combinators keeps_if same_run_world same_run_use same_run_field

lemma same_run_close: "keeps same_run (close_from steps e)"
proof (induction steps arbitrary: e)
  case (Cons step steps)
  have "keeps same_run (close_step step)"
    unfolding close_step_def by (auto intro!: same_run_basics split: prod.split sum.split)
  with Cons show ?case by (auto intro!: same_run_basics)
qed (simp add: same_run.keeps_ret)

lemma same_run_open: "keeps same_run (open_clients ops cl cfg)"
  unfolding open_clients_def opened_def started_def by (intro same_run_basics) simp_all

lemma same_run_rollback: "keeps same_run (rollback_start cl)"
  unfolding rollback_start_def rollback_step_def
  by (intro same_run_basics same_run.keeps_for) (auto intro!: same_run_basics split: prod.split)

lemma phase_of_start:
  assumes "start ops cl cfg s = (r, s')"
  shows "phase_advances s s'"
proof (cases "st_run s = NEW")
  case True
  then show ?thesis by (simp add: phase_advances_def)
next
  case False
  with assms show ?thesis by (simp add: start_def io_simps phase_advances_def)
qed

lemma finish_stop_closed:
  assumes "finish_stop ops cl s = (r, s')"
  shows "st_run s' = CLOSED"
proof -
  let ?rest = "io_bind (close_from (close_steps ops cl) None)
    (\<lambda>first_exc. case first_exc of None \<Rightarrow> io_ret () | Some e \<Rightarrow> io_raise e)"
  have "keeps same_run ?rest"
    by (intro same_run.keeps_bind same_run_close) (auto intro!: same_run_basics split: option.split)
  moreover have "?rest (s\<lparr>st_run := CLOSED\<rparr>) = (r, s')"
    using assms
    by (simp add: finish_stop_def io_modify_def io_bind_def [where m = "\<lambda>s. (Ok (), s\<lparr>st_run := CLOSED\<rparr>)"])
  ultimately have "same_run (s\<lparr>st_run := CLOSED\<rparr>) s'" by (rule keepsD)
  then show ?thesis by (simp add: same_run_def)
qed

lemma phase_of_stop:
  assumes "stop ops cl s = (r, s')"
  shows "phase_advances s s'"
proof (cases "st_run s = RUNNING")
  case False
  with assms show ?thesis
    by (cases "st_run s") (auto simp: stop_def begin_stop_def io_simps phase_advances_def)
next
  case True
  let ?s = "s\<lparr>st_run := STOPPING\<rparr>"
  have "s' = ?s \<or> finish_stop ops cl ?s = (r, s')"
    using assms True by (auto simp: stop_def begin_stop_def await_drained_def io_simps split: if_splits)
  then have "s' = ?s \<or> st_run s' = CLOSED" using finish_stop_closed by blast
  with True show ?thesis by (auto simp: phase_advances_def)
qed

lemma phase_of_guarded:
  assumes "io_seq ensure_running m s = (r, s')" "keeps same_run m"
  shows "phase_advances s s'"
proof (cases "st_run s = RUNNING")
  case True
  then have "ensure_running s = (Ok (), s)" by (simp add: ensure_running_def io_simps)
  then have "m s = (r, s')" using assms(1) by (simp add: io_bind_def)
  from keepsD [OF assms(2) this] True show ?thesis by (simp add: same_run_def phase_advances_def)
next
  case False
  then have "ensure_running s = (Exn LifecycleError, s)" by (simp add: ensure_running_def io_simps)
  then have "s' = s" using assms(1) by (simp add: io_bind_def)
  then show ?thesis by (simp add: phase_advances_def)
qed

lemma phase_of_append:
  assumes "store_append ops loads dumps cfg source key val s = (r, s')"
  shows "phase_advances s s'"
proof -
  have leave: "keeps same_run leave_append"
    unfolding leave_append_def by (intro same_run_basics) simp_all
  let ?m = "io_seq (io_modify (\<lambda>s. s\<lparr>st_in_flight := st_in_flight s + 1\<rparr>))
      (io_finally (in_world (append_record ops loads dumps (service_settings cfg) source key val)) leave_append)"
  have m: "keeps same_run ?m" by (intro same_run_basics leave) simp
  have "store_append ops loads dumps cfg source key val = io_seq ensure_running ?m"
    by (simp add: store_append_def enter_append_def io_bind_assoc)
  then have "io_seq ensure_running ?m s = (r, s')" using assms by simp
  then show ?thesis using m by (rule phase_of_guarded)
qed

section \<open>One process\<close>

lemma phase_of_call:
  assumes "public_step (\<lambda>_ _. False) ops cl cfg loads dumps jloads s s'"
  shows "phase_advances s s'"
  using assms
proof cases
  case (starts r)
  then show ?thesis by (rule phase_of_start)
next
  case (stops r)
  then show ?thesis by (rule phase_of_stop)
next
  case (appends source key val r)
  then show ?thesis by (rule phase_of_append)
next
  case (queries sql params into q)
  then show ?thesis unfolding store_query_def by (rule phase_of_guarded) (rule same_run_world)
next
  case (assigned fuel tps r)
  then show ?thesis unfolding store_assigned_def by (rule phase_of_guarded) (rule same_run_world)
next
  case (revoked tps r)
  then show ?thesis unfolding store_revoked_def by (rule phase_of_guarded) (rule same_run_world)
qed simp

text \<open>
  C36. The phase of a store only advances, NEW, RUNNING, STOPPING, CLOSED, whatever a process calls, one
  call after the other, and whatever the calls raise; and a store that was closed stays
  exactly as it is: it cannot be started again, and every later call leaves its tables, its
  partitions and its clients alone.
\<close>

theorem phase_only_advances:
  assumes "history (\<lambda>_ _. False) ops cl cfg loads dumps jloads s s'"
  shows "st_run s \<le> st_run s' \<and> (st_run s = CLOSED \<longrightarrow> s' = s)"
proof -
  have "phase_advances s s'" using assms
  proof (induction rule: rtranclp_induct)
    case base
    show ?case by (simp add: phase_advances_def)
  next
    case (step u v)
    from step.IH phase_of_call [OF step.hyps(2)] show ?case by (rule phase_advances_trans)
  qed
  then show ?thesis by (simp add: phase_advances_def)
qed

definition closed_store :: "fake store" where
  "closed_store = appending_store\<lparr>st_run := CLOSED\<rparr>"

lemma phase_only_advances_witness:
  "case start fake_ops good_clients thread_config closed_store of (r, s) \<Rightarrow> r = Exn LifecycleError \<and> s = closed_store"
proof -
  obtain r s where run: "start fake_ops good_clients thread_config closed_store = (r, s)" by fastforce
  have "history (\<lambda>_ _. False) fake_ops good_clients thread_config (\<lambda>_. None) (\<lambda>_::unit. Inl TypeError) no_loads closed_store s"
    by (rule r_into_rtranclp, rule starts [OF run])
  from phase_only_advances [OF this] have "s = closed_store" by (simp add: closed_store_def)
  moreover have "r = Exn LifecycleError" using run by (simp add: start_def io_simps closed_store_def)
  ultimately show ?thesis using run by simp
qed

end
