(* ===== verification/Start_Overlap.thy ===== *)
theory Start_Overlap imports
  Store_Phases
begin

text \<open>
  Calls of \<^verbatim>\<open>start\<close> that overlap. \<^verbatim>\<open>start\<close> reads the phase before its first \<^verbatim>\<open>await\<close> and writes it
  after its last one, with the clients in local variables in between. Here it is split at those
  \<^verbatim>\<open>await\<close>s, so that the host may call it again, or call anything else, while it runs.
\<close>

section \<open>The parts of a start\<close>

definition begin_start :: "'k ops \<Rightarrow> 'k clients \<Rightarrow> store_config \<Rightarrow> ('k, unit) sact" where
  "begin_start ops cl cfg =
     io_bind (io_gets st_run) (\<lambda>phase.
       if phase \<noteq> NEW then io_raise LifecycleError
       else
         io_seq (in_world (lift_res (validate_config (op_format ops) cfg)))
           (in_world (lift_res (check_sqlite_version (cl_sqlite_version cl)))))"

text \<open>The body of the \<^verbatim>\<open>try\<close>, cut where it awaits; the migration, which writes, is one step.\<close>

definition opening_steps :: "'k ops \<Rightarrow> 'k clients \<Rightarrow> store_config \<Rightarrow> ('k, unit) sact list" where
  "opening_steps ops cl cfg =
     [opened PoolClient OpenPool (call (cl_open_pool cl)),
      io_catch
        (in_world (checked_out ops (sc_busy_timeout cfg)
          (migrate ops (sc_generated_columns cfg) (sc_indexes cfg))))
        (\<lambda>e. io_raise (migration_error e)),
      opened ProducerClient NewProducer
        (call (cl_new_producer cl (merged_producer_kwargs (sc_bootstrap_servers cfg) (sc_producer_config cfg)))),
      started StartProducer (call (cl_producer_start cl)),
      opened AdminClient NewAdmin
        (call (cl_new_admin cl
          (admin_security_kwargs (cl_admin_params cl) (sc_bootstrap_servers cfg) (sc_consumer_config cfg)))),
      started StartAdmin (call (cl_admin_start cl))]"

lemma opening_steps_length: "length (opening_steps ops cl cfg) = 6"
  by (simp add: opening_steps_def)

lemma open_clients_steps: "open_clients ops cl cfg = io_for (\<lambda>step. step) (opening_steps ops cl cfg)"
  by (simp add: open_clients_def opening_steps_def)

lemma start_in_parts:
  "start ops cl cfg =
     io_seq (begin_start ops cl cfg)
       (io_seq (io_catch (open_clients ops cl cfg) (\<lambda>e. io_seq (rollback_start cl) (io_raise e)))
         (io_modify compose_services))"
  unfolding start_def begin_start_def io_bind_assoc
  by (rule arg_cong [where f = "io_bind (io_gets st_run)"]) (auto simp: io_bind_assoc)

text \<open>
  A step of one call works on the local variables of that call: its list of clients takes the
  place of the attributes, which are put back.
\<close>

definition with_locals :: "client list \<Rightarrow> ('k, unit) sact \<Rightarrow> 'k store \<Rightarrow> unit res \<times> client list \<times> 'k store" where
  "with_locals own m s =
     (case m (s\<lparr>st_open := own\<rparr>) of (r, s') \<Rightarrow> (r, st_open s', s'\<lparr>st_open := st_open s\<rparr>))"

section \<open>Interleaved starts\<close>

text \<open>
  A store, its starts in flight with their clients and the number of opening steps behind them,
  the attributes that a returning start has overwritten, and how many starts have returned.
\<close>

record 'k starting =
  sg_store :: "'k store"
  sg_starts :: "(client list \<times> nat) list"
  sg_lost :: "client list list"
  sg_returned :: nat

definition same_attributes :: "'k store \<Rightarrow> 'k store \<Rightarrow> bool" where
  "same_attributes s s' \<longleftrightarrow> st_open s' = st_open s"

text \<open>
  With \<open>exclusive\<close> the host calls \<^verbatim>\<open>start\<close> only while no other call of it runs. A returning
  start assigns the attributes: the clients they held before are reachable no more.
\<close>

inductive start_step :: "bool \<Rightarrow> 'k ops \<Rightarrow> 'k clients \<Rightarrow> store_config \<Rightarrow> 'k starting \<Rightarrow> 'k starting \<Rightarrow> bool"
  for exclusive :: bool and ops :: "'k ops" and cl :: "'k clients" and cfg :: store_config where
  enters:
    "begin_start ops cl cfg (sg_store y) = (Ok (), s) \<Longrightarrow> exclusive \<longrightarrow> sg_starts y = [] \<Longrightarrow>
     start_step exclusive ops cl cfg y (y\<lparr>sg_store := s, sg_starts := sg_starts y @ [([], 0)]\<rparr>)"
| refused:
    "begin_start ops cl cfg (sg_store y) = (Exn e, s) \<Longrightarrow>
     start_step exclusive ops cl cfg y (y\<lparr>sg_store := s\<rparr>)"
| opens:
    "sg_starts y = ts @ (own, n) # us \<Longrightarrow> n < length (opening_steps ops cl cfg) \<Longrightarrow>
     with_locals own (opening_steps ops cl cfg ! n) (sg_store y) = (Ok (), own', s) \<Longrightarrow>
     start_step exclusive ops cl cfg y (y\<lparr>sg_store := s, sg_starts := ts @ (own', Suc n) # us\<rparr>)"
| rolls_back:
    "sg_starts y = ts @ (own, n) # us \<Longrightarrow> n < length (opening_steps ops cl cfg) \<Longrightarrow>
     with_locals own (opening_steps ops cl cfg ! n) (sg_store y) = (Exn e, own', s) \<Longrightarrow>
     with_locals own' (rollback_start cl) s = (r, own'', s') \<Longrightarrow>
     start_step exclusive ops cl cfg y (y\<lparr>sg_store := s', sg_starts := ts @ us\<rparr>)"
| composes:
    "sg_starts y = ts @ (own, length (opening_steps ops cl cfg)) # us \<Longrightarrow>
     start_step exclusive ops cl cfg y
       (y\<lparr>sg_store := compose_services ((sg_store y)\<lparr>st_open := own\<rparr>), sg_starts := ts @ us,
          sg_lost := (if st_open (sg_store y) = [] then [] else [st_open (sg_store y)]) @ sg_lost y,
          sg_returned := Suc (sg_returned y)\<rparr>)"
| stops: "stop ops cl (sg_store y) = (r, s) \<Longrightarrow> start_step exclusive ops cl cfg y (y\<lparr>sg_store := s\<rparr>)"
| other_calls:
    "keeps same_run (m :: ('k, unit) sact) \<Longrightarrow> keeps same_attributes m \<Longrightarrow> m (sg_store y) = (r, s) \<Longrightarrow>
     start_step exclusive ops cl cfg y (y\<lparr>sg_store := s\<rparr>)"

definition unstarted :: "'k world \<Rightarrow> 'k starting" where
  "unstarted w = \<lparr>sg_store = new_store w, sg_starts = [], sg_lost = [], sg_returned = 0\<rparr>"

section \<open>What each part does to the clients and the phase\<close>

interpretation same_attributes: preorder_rel same_attributes
  by unfold_locales (simp_all add: same_attributes_def)

lemma same_attributes_world: "keeps same_attributes (in_world m)"
  by (rule keepsI) (auto simp: in_world_def same_attributes_def split: prod.splits)

lemma same_attributes_field: "(\<And>s. st_open (f s) = st_open s) \<Longrightarrow> keeps same_attributes (io_modify f)"
  by (rule same_attributes.keeps_modify) (simp add: same_attributes_def)

lemma same_attributes_use: "keeps same_attributes (use c m)"
  unfolding use_def trace_def
  by (intro same_attributes.keeps_combinators same_attributes_world same_attributes_field) simp

lemmas same_attributes_basics =
  same_attributes.keeps_combinators keeps_if same_attributes_world same_attributes_use same_attributes_field

lemma same_attributes_close: "keeps same_attributes (close_from steps e)"
proof (induction steps arbitrary: e)
  case (Cons step steps)
  have "keeps same_attributes (close_step step)"
    unfolding close_step_def by (auto intro!: same_attributes_basics split: prod.split sum.split)
  with Cons show ?case by (auto intro!: same_attributes_basics)
qed (simp add: same_attributes.keeps_ret)

lemma same_attributes_stop: "keeps same_attributes (stop ops cl)"
  unfolding stop_def begin_stop_def await_drained_def finish_stop_def
  by (intro same_attributes_basics same_attributes_close) (auto intro!: same_attributes_basics split: option.split)

lemma stop_new:
  assumes "stop ops cl s = (r, s')"
  shows "st_run s' = NEW \<longleftrightarrow> st_run s = NEW"
proof (cases "st_run s = NEW")
  case True
  with assms show ?thesis by (simp add: stop_def begin_stop_def io_simps)
next
  case False
  moreover have "st_run s \<le> st_run s'" using phase_of_stop [OF assms] by (simp add: phase_advances_def)
  ultimately show ?thesis by (cases "st_run s"; cases "st_run s'") (simp_all add: less_eq_run_state_def)
qed

lemma begin_start_guard:
  assumes "begin_start ops cl cfg s = (r, s')"
  shows "s' = s" "r = Ok () \<Longrightarrow> st_run s = NEW"
  using assms
  by (auto simp: begin_start_def lift_res_def in_world_def io_simps split: if_splits sum.splits)

text \<open>The clients constructed by the first \<open>n\<close> steps.\<close>

definition constructed :: "nat \<Rightarrow> client list" where
  "constructed n =
     (if 1 \<le> n then [PoolClient] else []) @ (if 3 \<le> n then [ProducerClient] else [])
     @ (if 5 \<le> n then [AdminClient] else [])"

lemma opened_clients: "wp (opened c t m) (\<lambda>r v. r = Ok () \<longrightarrow> st_open v = st_open s @ [c]) s"
proof -
  have "wp (use t m) (\<lambda>r v. st_open v = st_open s) s"
    by (rule wp_mono [OF keeps_wp [OF same_attributes_use]]) (simp add: same_attributes_def)
  then show ?thesis unfolding opened_def wp_bind
    by (rule wp_mono) (auto split: res.split)
qed

lemma opening_step_clients:
  assumes "n < length (opening_steps ops cl cfg)" "(opening_steps ops cl cfg ! n) s = (Ok (), s')" "st_open s = constructed n"
  shows "st_open s' = constructed (Suc n)"
proof -
  have same: "keeps same_attributes (started t m)" for t and m :: "('a, unit) act"
    unfolding started_def by (intro same_attributes_basics)
  have opened: "opened c t m s = (Ok (), s') \<Longrightarrow> st_open s' = st_open s @ [c]" for c t and m :: "('a, unit) act"
    using wpD [OF opened_clients] by blast
  have migrated: "io_catch (in_world m) (\<lambda>e. io_raise (migration_error e)) s = (Ok (), s') \<Longrightarrow> st_open s' = st_open s"
    for m :: "('a, unit) act"
    using keepsD [OF same_attributes.keeps_catch [OF same_attributes_world same_attributes.keeps_raise]]
    by (auto simp: same_attributes_def)
  have started: "started t m s = (Ok (), s') \<Longrightarrow> st_open s' = st_open s" for t and m :: "('a, unit) act"
    using keepsD [OF same] by (auto simp: same_attributes_def)
  have "n \<in> {0, 1, 2, 3, 4, 5}" using assms(1) by (auto simp: opening_steps_def)
  with assms(2,3) show ?thesis
    by (auto simp: opening_steps_def constructed_def dest!: opened migrated started)
qed

lemma opening_step_run: "n < length (opening_steps ops cl cfg) \<Longrightarrow> keeps same_run (opening_steps ops cl cfg ! n)"
  by (auto simp: opening_steps_def less_Suc_eq opened_def started_def intro!: same_run_basics)

lemma with_locals_attributes:
  "with_locals own m s = (r, own', s') \<Longrightarrow> st_open s' = st_open s"
  "with_locals own m s = (r, own', s') \<Longrightarrow> keeps same_run m \<Longrightarrow> st_run s' = st_run s"
  by (auto simp: with_locals_def same_run_def split: prod.splits dest: keepsD)

section \<open>Abandoned clients\<close>

definition starting_inv :: "bool \<Rightarrow> 'k starting \<Rightarrow> bool" where
  "starting_inv exclusive y \<longleftrightarrow>
     (\<forall>(own, n) \<in> set (sg_starts y). own = constructed n)
     \<and> st_open (sg_store y) = (if sg_returned y = 0 then [] else constructed 6)
     \<and> sg_lost y = replicate (sg_returned y - 1) (constructed 6)
     \<and> (exclusive \<longrightarrow> (st_run (sg_store y) = NEW \<longleftrightarrow> sg_returned y = 0)
          \<and> length (sg_starts y) \<le> 1 \<and> (sg_starts y \<noteq> [] \<longrightarrow> sg_returned y = 0) \<and> sg_returned y \<le> 1)"

lemma starting_inv_store:
  assumes "starting_inv e y" "st_open s = st_open (sg_store y)" "st_run s = NEW \<longleftrightarrow> st_run (sg_store y) = NEW"
  shows "starting_inv e (y\<lparr>sg_store := s\<rparr>)"
  using assms by (simp add: starting_inv_def)

lemma starting_inv_step:
  assumes "start_step exclusive ops cl cfg y z" "starting_inv exclusive y"
  shows "starting_inv exclusive z"
  using assms(1)
proof cases
  case (enters s)
  with begin_start_guard [OF enters(2)] assms(2) show ?thesis
    by (auto simp: starting_inv_def constructed_def)
next
  case (refused e s)
  with begin_start_guard(1) [OF refused(2)] assms(2) show ?thesis by simp
next
  case (opens ts own n us own' s)
  have "(opening_steps ops cl cfg ! n) ((sg_store y)\<lparr>st_open := own\<rparr>) = (Ok (), s\<lparr>st_open := own'\<rparr>)"
    using opens(4) by (auto simp: with_locals_def split: prod.splits)
  from opening_step_clients [OF opens(3) this] have "own' = constructed (Suc n)"
    using assms(2) opens(2) by (simp add: starting_inv_def)
  moreover note with_locals_attributes(1) [OF opens(4)] with_locals_attributes(2) [OF opens(4) opening_step_run [OF opens(3)]]
  ultimately show ?thesis using assms(2) opens(1,2) by (auto simp: starting_inv_def)
next
  case (rolls_back ts own n us e own' s r own'' s')
  note with_locals_attributes(1) [OF rolls_back(4)] with_locals_attributes(1) [OF rolls_back(5)]
    with_locals_attributes(2) [OF rolls_back(4) opening_step_run [OF rolls_back(3)]]
    with_locals_attributes(2) [OF rolls_back(5) same_run_rollback]
  then show ?thesis using assms(2) rolls_back(1,2) by (auto simp: starting_inv_def)
next
  case (composes ts own us)
  let ?n = "sg_returned y"
  have inv: "\<forall>(own, n) \<in> set (sg_starts y). own = constructed n"
    "st_open (sg_store y) = (if ?n = 0 then [] else constructed 6)" "sg_lost y = replicate (?n - 1) (constructed 6)"
    "exclusive \<Longrightarrow> length (sg_starts y) \<le> 1 \<and> (sg_starts y \<noteq> [] \<longrightarrow> ?n = 0)"
    using assms(2) by (auto simp: starting_inv_def)
  have own: "own = constructed 6" using inv(1) composes(2) by (simp add: opening_steps_length)
  have "(if st_open (sg_store y) = [] then [] else [st_open (sg_store y)]) @ sg_lost y = replicate ?n (constructed 6)"
    using inv(2,3) by (cases ?n) (simp_all add: constructed_def)
  moreover have "exclusive \<Longrightarrow> ts @ us = [] \<and> ?n = 0" using inv(4) composes(2) by simp
  moreover have "\<forall>(own, n) \<in> set (ts @ us). own = constructed n" using inv(1) composes(2) by auto
  ultimately show ?thesis
    unfolding composes(1) starting_inv_def compose_services_def own by auto
next
  case (stops r s)
  with starting_inv_store [OF assms(2) _ stop_new [OF stops(2)]] keepsD [OF same_attributes_stop stops(2)] show ?thesis
    by (simp add: same_attributes_def)
next
  case (other_calls m r s)
  with starting_inv_store [OF assms(2)] keepsD [OF other_calls(2,4)] keepsD [OF other_calls(3,4)] show ?thesis
    by (simp add: same_attributes_def same_run_def)
qed


section \<open>One start is a path\<close>

text \<open>The opening of one call, with the other calls that are in flight standing still.\<close>

lemma opening_path:
  fixes ops cl cfg exclusive
  defines "steps \<equiv> opening_steps ops cl cfg" and "path \<equiv> (start_step exclusive ops cl cfg)\<^sup>*\<^sup>*"
  assumes "io_for (\<lambda>step. step) (drop n steps) (s\<lparr>st_open := own\<rparr>) = (r, v)" "n \<le> length steps"
    and "sg_store y = s" "sg_starts y = ts @ (own, n) # us"
  shows "(r = Ok () \<longrightarrow> path y (y\<lparr>sg_store := v\<lparr>st_open := st_open s\<rparr>, sg_starts := ts @ (st_open v, length steps) # us\<rparr>))
     \<and> (\<forall>e. r = Exn e \<longrightarrow> (\<exists>u own' n'. path y (y\<lparr>sg_store := u, sg_starts := ts @ (own', n') # us\<rparr>) \<and> n' < length steps
          \<and> with_locals own' (steps ! n') u = (Exn e, st_open v, v\<lparr>st_open := st_open s\<rparr>)))"
  using assms(3-6)
proof (induction "length steps - n" arbitrary: n s own y)
  case 0
  then have "v = s\<lparr>st_open := own\<rparr>" "r = Ok ()" "n = length steps" by (simp_all add: io_simps)
  moreover have "y\<lparr>sg_store := s, sg_starts := ts @ (own, n) # us\<rparr> = y"
    using "0.prems"(3,4) by (cases y) simp
  ultimately show ?case by (simp add: path_def)
next
  case (Suc k)
  then have n: "n < length steps" "drop n steps = steps ! n # drop (Suc n) steps" "k = length steps - Suc n"
    by (simp_all add: Cons_nth_drop_Suc)
  obtain q u where u: "(steps ! n) (s\<lparr>st_open := own\<rparr>) = (q, u)" by fastforce
  let ?u = "u\<lparr>st_open := st_open s\<rparr>"
  have locals: "with_locals own (steps ! n) (sg_store y) = (q, st_open u, ?u)"
    using u Suc.prems(3) by (simp add: with_locals_def)
  show ?case
  proof (cases q)
    case (Ok x)
    let ?y = "y\<lparr>sg_store := ?u, sg_starts := ts @ (st_open u, Suc n) # us\<rparr>"
    have one: "start_step exclusive ops cl cfg y ?y"
      using Suc.prems(4) n(1) locals Ok unfolding steps_def by (intro opens) simp_all
    have "io_for (\<lambda>step. step) (drop (Suc n) steps) (?u\<lparr>st_open := st_open u\<rparr>) = (r, v)"
      using Suc.prems(1) n(2) u Ok by (simp add: io_bind_def)
    note IH = Suc.hyps(1) [OF n(3) this, of ?y]
    moreover have "path y z" if "path ?y z" for z
      using one that unfolding path_def by (rule converse_rtranclp_into_rtranclp)
    ultimately show ?thesis using n(1) by fastforce
  next
    case (Exn e)
    then have "r = Exn e" "v = u" using Suc.prems(1) n(2) u by (auto simp: io_bind_def)
    moreover have "path y (y\<lparr>sg_store := s, sg_starts := ts @ (own, n) # us\<rparr>)"
      using Suc.prems(3,4) by (cases y) (simp add: path_def)
    ultimately show ?thesis using n(1) locals Exn Suc.prems(3) by auto
  next
    case Running
    then have "r = Running" using Suc.prems(1) n(2) u by (auto simp: io_bind_def)
    then show ?thesis by simp
  qed
qed

lemma start_in_flight_returns:
  assumes "open_clients ops cl cfg (s\<lparr>st_open := []\<rparr>) = (Ok (), v)" "sg_store y = s" "sg_starts y = ts @ ([], 0) # us"
  shows "(start_step exclusive ops cl cfg)\<^sup>*\<^sup>* y
     (y\<lparr>sg_store := compose_services v, sg_starts := ts @ us,
        sg_lost := (if st_open s = [] then [] else [st_open s]) @ sg_lost y, sg_returned := Suc (sg_returned y)\<rparr>)"
proof -
  let ?y = "y\<lparr>sg_store := v\<lparr>st_open := st_open s\<rparr>,
     sg_starts := ts @ (st_open v, length (opening_steps ops cl cfg)) # us\<rparr>"
  have "(start_step exclusive ops cl cfg)\<^sup>*\<^sup>* y ?y"
    using opening_path [where n = 0 and own = "[]", OF _ _ assms(2,3)] assms(1) by (simp add: open_clients_steps)
  moreover have "start_step exclusive ops cl cfg ?y
     (?y\<lparr>sg_store := compose_services ((sg_store ?y)\<lparr>st_open := st_open v\<rparr>), sg_starts := ts @ us,
        sg_lost := (if st_open (sg_store ?y) = [] then [] else [st_open (sg_store ?y)]) @ sg_lost ?y,
        sg_returned := Suc (sg_returned ?y)\<rparr>)"
    by (rule composes) simp
  ultimately show ?thesis
    by (cases "st_open s = []") (simp_all add: rtranclp.rtrancl_into_rtrancl)
qed

lemma start_in_flight_raises:
  assumes "open_clients ops cl cfg s = (Exn e, v)" "rollback_start cl v = (q, x)" "st_open s = []"
    and "sg_store y = s" "sg_starts y = ts @ ([], 0) # us"
  shows "(start_step exclusive ops cl cfg)\<^sup>*\<^sup>* y (y\<lparr>sg_store := x, sg_starts := ts @ us\<rparr>)"
proof -
  let ?path = "(start_step exclusive ops cl cfg)\<^sup>*\<^sup>*"
  have s: "s\<lparr>st_open := []\<rparr> = s" using assms(3) by (cases s) simp
  obtain w own n where w: "?path y (y\<lparr>sg_store := w, sg_starts := ts @ (own, n) # us\<rparr>)" "n < length (opening_steps ops cl cfg)"
      "with_locals own (opening_steps ops cl cfg ! n) w = (Exn e, st_open v, v\<lparr>st_open := st_open s\<rparr>)"
    using opening_path [where n = 0 and own = "[]", OF _ _ assms(4,5)] assms(1) s
    by (simp add: open_clients_steps) blast
  have "st_open x = []" using wpD [OF rollback_rule_start assms(2)] by simp
  then have "with_locals (st_open v) (rollback_start cl) (v\<lparr>st_open := st_open s\<rparr>) = (q, [], x)"
    using assms(2,3) by (cases x) (simp add: with_locals_def)
  from rolls_back [of "y\<lparr>sg_store := w, sg_starts := ts @ (own, n) # us\<rparr>" ts own n us, OF _ w(2) _ this] w(3)
  have "start_step exclusive ops cl cfg (y\<lparr>sg_store := w, sg_starts := ts @ (own, n) # us\<rparr>) (y\<lparr>sg_store := x, sg_starts := ts @ us\<rparr>)"
    by simp
  with w(1) show ?thesis by (rule rtranclp.rtrancl_into_rtrancl)
qed

text \<open>A call of \<^verbatim>\<open>start\<close> that runs alone takes a store where the parts take it.\<close>

lemma start_is_path:
  assumes "start ops cl cfg s = (r, s')" "r \<noteq> Running" "st_open s = []" "sg_store y = s" "sg_starts y = []"
  shows "(start_step exclusive ops cl cfg)\<^sup>*\<^sup>* y
     (y\<lparr>sg_store := s', sg_returned := (if r = Ok () then Suc (sg_returned y) else sg_returned y)\<rparr>)"
proof -
  let ?step = "start_step exclusive ops cl cfg"
  obtain q u where begun: "begin_start ops cl cfg s = (q, u)" by fastforce
  have u: "u = s" "s\<lparr>st_open := []\<rparr> = s" using begin_start_guard(1) [OF begun] assms(3) by (cases s, simp)+
  have y: "y\<lparr>sg_store := v, sg_returned := sg_returned y\<rparr> = y\<lparr>sg_store := v\<rparr>"
    "y\<lparr>sg_store := v, sg_starts := []\<rparr> = y\<lparr>sg_store := v\<rparr>"
    "y\<lparr>sg_store := v, sg_starts := [], sg_returned := n\<rparr> = y\<lparr>sg_store := v, sg_returned := n\<rparr>" for v n
    using assms(5) by (cases y, simp)+
  have "q \<noteq> Running"
    using begun by (auto simp: begin_start_def lift_res_def in_world_def io_simps split: if_splits sum.splits)
  then consider e where "q = Exn e" | "q = Ok ()" by (cases q) auto
  then show ?thesis
  proof cases
    case 1
    then have "r = Exn e" "s' = s" using assms(1) begun u by (simp_all add: start_in_parts io_bind_def)
    moreover have "?step y (y\<lparr>sg_store := s\<rparr>)"
      using refused [of ops cl cfg y e u exclusive] begun 1 u assms(4) by simp
    ultimately show ?thesis by (simp add: y r_into_rtranclp)
  next
    case 2
    let ?y = "y\<lparr>sg_store := s, sg_starts := [] @ ([], 0) # []\<rparr>"
    have entered: "?step y ?y" using enters [of ops cl cfg y u exclusive] begun 2 u assms(4,5) by simp
    obtain p v where opened: "open_clients ops cl cfg s = (p, v)" by fastforce
    have rest: "io_seq (io_catch (open_clients ops cl cfg) (\<lambda>e. io_seq (rollback_start cl) (io_raise e)))
        (io_modify compose_services) s = (r, s')"
      using assms(1) begun 2 u by (simp add: start_in_parts io_bind_def)
    show ?thesis
    proof (cases p)
      case (Ok x)
      then have "r = Ok ()" "s' = compose_services v" using opened rest by (auto simp: io_simps)
      moreover have "?step\<^sup>*\<^sup>* ?y (?y\<lparr>sg_store := compose_services v, sg_starts := [] @ [],
          sg_lost := (if st_open s = [] then [] else [st_open s]) @ sg_lost ?y, sg_returned := Suc (sg_returned ?y)\<rparr>)"
        by (rule start_in_flight_returns) (use opened Ok u in simp_all)
      ultimately show ?thesis using converse_rtranclp_into_rtranclp [of ?step, OF entered] assms(3) y by simp
    next
      case (Exn e)
      obtain q x where x: "rollback_start cl v = (q, x)" by fastforce
      with opened Exn rest wpD [OF rollback_rule_start x] have "r = Exn e" "s' = x" by (auto simp: io_simps)
      moreover have "?step\<^sup>*\<^sup>* ?y (?y\<lparr>sg_store := x, sg_starts := [] @ []\<rparr>)"
        by (rule start_in_flight_raises [OF _ x assms(3)]) (use opened Exn in simp_all)
      ultimately show ?thesis using converse_rtranclp_into_rtranclp [of ?step, OF entered] y by simp
    qed (use opened rest assms(2) in \<open>auto simp: io_simps\<close>)
  qed
qed

section \<open>Two starts at once\<close>

text \<open>Calls that all succeed, with a pool that hands out clean connections.\<close>

definition steady_ops :: "fake ops" where
  "steady_ops = sqlite_ops\<lparr>op_acquire := \<lambda>k. (Inr (Idle False False), k)\<rparr>"

lemma steady_engine: "ddl_engine (op_ddl steady_ops)" "obliging steady_ops"
  using sqlite_ops_engine by (simp_all add: steady_ops_def obliging_def)

definition thread_schema :: "fake store \<Rightarrow> bool" where
  "thread_schema s \<longleftrightarrow> w_saved (st_world s) = None
     \<and> (\<exists>c. db_catalog (w_db (st_world s)) = Some c \<and> conforms [thread_column] [thread_index] c)"

lemma steady_open:
  assumes "thread_schema s" "st_open s = []"
  obtains v where "open_clients steady_ops good_clients thread_config s = (Ok (), v)" "thread_schema v"
    "st_trace v = st_trace s @ [OpenPool, NewProducer, StartProducer, NewAdmin, StartAdmin]" "same_phase s v"
    "st_open v = [PoolClient, ProducerClient, AdminClient]"
proof -
  have cfg: "sc_generated_columns thread_config = [thread_column]" "sc_indexes thread_config = [thread_index]"
    by (simp_all add: thread_config_def)
  obtain c where c: "db_catalog (w_db (st_world s)) = Some c" "conforms [thread_column] [thread_index] c"
    using assms(1) by (auto simp: thread_schema_def)
  let ?go = "\<lambda>w. fst (checked_out steady_ops (sc_busy_timeout thread_config) (migrate steady_ops [thread_column] [thread_index]) w)"
  have go: "?go w = Ok ()" if "w_db w = w_db (st_world s)" "w_saved w = None" for w
    by (rule checked_out_yields [OF yields_migrate [OF steady_engine(2) c] that, of _ False])
      (simp_all add: steady_ops_def sqlite_ops_def fake_ops_def)
  have "fst (open_clients steady_ops good_clients thread_config s) = Ok ()"
    using go [of "st_world s"] assms(1)
    by (auto simp: thread_schema_def io_simps open_clients_def opened_def started_def use_def trace_def call_def in_world_def
        good_clients_def cfg split: prod.split)
  then obtain v where v: "open_clients steady_ops good_clients thread_config s = (Ok (), v)" by (metis prod.collapse)
  have "opening_post steady_ops thread_config s (Ok ()) v"
    using assms by (intro wpD [OF opening_rule v]) (simp_all add: thread_schema_def)
  then show thesis using that [OF v] steady_engine(1) thread_config_valid
    by (auto simp: opening_post_def all_opened_def thread_schema_def cfg)
qed

text \<open>The close sequence of such a store is made on one set of clients.\<close>

lemma steady_stop:
  assumes "st_run s = RUNNING" "st_in_flight s = 0" "\<not> w_consumer (st_world s)"
  shows "\<exists>v. stop steady_ops good_clients s = (Ok (), v) \<and> st_run v = CLOSED
     \<and> st_trace v = st_trace s @ [FlushProducer, StopProducer, StopConsumer, CloseAdmin, ClosePool]"
  using assms
  by (simp add: stop_def begin_stop_def await_drained_def finish_stop_def close_steps_def close_step_def use_def trace_def
      in_world_def call_def aclose_def good_clients_def io_simps)

lemma two_starts_entered:
  fixes y :: "fake starting"
  assumes "sg_starts y = []" "st_run (sg_store y) = NEW"
  shows "(start_step False steady_ops good_clients thread_config)\<^sup>*\<^sup>* y (y\<lparr>sg_starts := [([], 0), ([], 0)]\<rparr>)"
proof -
  let ?step = "start_step False steady_ops good_clients thread_config"
  let ?one = "y\<lparr>sg_starts := [([], 0)]\<rparr>"
  have "begin_start steady_ops good_clients thread_config (sg_store y) = (Ok (), sg_store y)"
    using assms(2)
    by (simp add: begin_start_def thread_config_valid in_world_def lift_res_def io_simps
        check_sqlite_version_def SQLITE_VERSION_FLOOR_def good_clients_def)
  moreover have same: "y\<lparr>sg_store := sg_store y, sg_starts := x\<rparr> = y\<lparr>sg_starts := x\<rparr>" for x by (cases y) simp
  ultimately have "?step y ?one" "?step ?one (y\<lparr>sg_starts := [([], 0), ([], 0)]\<rparr>)"
    using enters [of steady_ops good_clients thread_config y "sg_store y" False] assms(1)
      enters [of steady_ops good_clients thread_config ?one "sg_store y" False]
    by (simp_all add: same)
  then show ?thesis by (meson rtranclp.rtrancl_into_rtrancl rtranclp.rtrancl_refl)
qed


end
