(* ===== verification/Concurrent_Appends.thy ===== *)
theory Concurrent_Appends imports
  Store_History
  "HOL-Library.Multiset"
begin

text \<open>
  Appends of one store under concurrency. The event loop switches between calls at their
  \<^verbatim>\<open>await\<close>s, so an append comes in three parts: up to the acknowledged produce, the transaction,
  and the write-back to the partition machine. Between two parts of one append any number of
  parts of others may run, and any work of the other services. A transaction is one part
  although it awaits its statements: \<^verbatim>\<open>BEGIN IMMEDIATE\<close> admits one writer at a time, so two
  transactions of the same database never overlap, and what else the store does while one is
  open neither sees nor changes its tables.
\<close>

section \<open>The parts of an append\<close>

text \<open>What an append holds in its local variables once the broker has acknowledged.\<close>

record produced =
  pr_source :: topic_partition
  pr_offset :: int
  pr_message_id :: pystr
  pr_key :: pystr
  pr_encoded :: encoded_record

definition produce_part ::
    "'k ops \<Rightarrow> (pystr \<Rightarrow> exn option) \<Rightarrow> ('o \<Rightarrow> exn + pystr) \<Rightarrow> settings
     \<Rightarrow> topic_partition \<Rightarrow> host_value \<Rightarrow> 'o payload \<Rightarrow> ('k, produced) act" where
  "produce_part ops loads dumps cfg source key val =
     io_bind (lift_res (validate_entity_key key)) (\<lambda>k.
     io_bind (io_gets (\<lambda>w. status_of (w_parts w) source)) (\<lambda>status.
     io_seq (io_when (status \<noteq> Some READY) (log_event (AppendToNonReady source)))
     (io_bind (new_message_id ops) (\<lambda>mid.
     io_bind (lift_res (encode loads dumps k val mid)) (\<lambda>encoded.
     io_bind (lift_res (changelog_name (op_format ops) (cfg_template cfg) source)) (\<lambda>topic.
     io_bind (produce ops source topic encoded) (\<lambda>offset.
     io_ret \<lparr>pr_source = source, pr_offset = offset, pr_message_id = mid, pr_key = k, pr_encoded = encoded\<rparr>)))))))"

definition store_part :: "'k ops \<Rightarrow> settings \<Rightarrow> produced \<Rightarrow> ('k, unit) act" where
  "store_part ops cfg p =
     checked_out ops (cfg_busy_timeout cfg)
       (run_txn ops (cfg_busy_timeout cfg)
         (materialize ops (pr_source p) (pr_offset p) (pr_message_id p) (pr_key p) (pr_encoded p)))"

definition write_back_part :: "produced \<Rightarrow> ('k, unit) act" where
  "write_back_part p = on_parts (\<lambda>m. record_applied m (pr_source p) (pr_offset p))"

lemma append_in_parts:
  "append_record ops loads dumps cfg source key val =
     io_bind (produce_part ops loads dumps cfg source key val)
       (\<lambda>p. io_seq (store_part ops cfg p) (write_back_part p))"
  by (simp add: append_record_def produce_part_def store_part_def write_back_part_def io_bind_assoc io_bind_ret)

section \<open>Interleaved appends\<close>

datatype append_task = Produced produced | Stored produced

record 'k writers =
  wr_world :: "'k world"
  wr_tasks :: "append_task list"
  wr_done :: "produced list"

text \<open>The parts that finish an append, then all steps.\<close>

inductive finish_step :: "'k ops \<Rightarrow> settings \<Rightarrow> 'k writers \<Rightarrow> 'k writers \<Rightarrow> bool"
  for ops :: "'k ops" and cfg :: settings where
  stores:
    "wr_tasks y = ts @ Produced p # us \<Longrightarrow> store_part ops cfg p (wr_world y) = (Ok (), w) \<Longrightarrow>
     finish_step ops cfg y (y\<lparr>wr_world := w, wr_tasks := ts @ Stored p # us\<rparr>)"
| writes_back:
    "wr_tasks y = ts @ Stored p # us \<Longrightarrow> write_back_part p (wr_world y) = (Ok (), w) \<Longrightarrow>
     finish_step ops cfg y (y\<lparr>wr_world := w, wr_tasks := ts @ us, wr_done := p # wr_done y\<rparr>)"

inductive append_step ::
    "'k ops \<Rightarrow> (pystr \<Rightarrow> exn option) \<Rightarrow> ('o \<Rightarrow> exn + pystr) \<Rightarrow> settings \<Rightarrow> 'k writers \<Rightarrow> 'k writers \<Rightarrow> bool"
  for ops :: "'k ops" and loads :: "pystr \<Rightarrow> exn option" and dumps :: "'o \<Rightarrow> exn + pystr" and cfg :: settings where
  produces:
    "produce_part ops loads dumps cfg source key val (wr_world y) = (Ok p, w) \<Longrightarrow>
     append_step ops loads dumps cfg y (y\<lparr>wr_world := w, wr_tasks := wr_tasks y @ [Produced p]\<rparr>)"
| raises:
    "produce_part ops loads dumps cfg source key val (wr_world y) = (Exn e, w) \<Longrightarrow>
     append_step ops loads dumps cfg y (y\<lparr>wr_world := w\<rparr>)"
| finishes: "finish_step ops cfg y z \<Longrightarrow> append_step ops loads dumps cfg y z"
| store_raises:
    "wr_tasks y = ts @ Produced p # us \<Longrightarrow> store_part ops cfg p (wr_world y) = (Exn e, w) \<Longrightarrow>
     append_step ops loads dumps cfg y (y\<lparr>wr_world := w, wr_tasks := ts @ us\<rparr>)"
| other_work:
    "keeps (settled keeps_unique) (m :: ('k, unit) act) \<Longrightarrow> m (wr_world y) = (r, w) \<Longrightarrow>
     append_step ops loads dumps cfg y (y\<lparr>wr_world := w\<rparr>)"

text \<open>The other services are such work: the rebalance hooks, whole or batch by batch.\<close>

lemma services_are_other_work:
  "keeps (settled keeps_unique) (on_partitions_assigned fuel ops cfg tps)"
  "keeps (settled keeps_unique) (on_partitions_revoked ops cfg tps)"
  "keeps (settled keeps_unique) (materialize_batch ops (cfg_busy_timeout cfg) tp rs)"
  by (rule unique.world.assigned [OF subset_UNIV TrueI] revoked_settled unique.kept_batch [OF UNIV_I])+

definition writing :: "'k world \<Rightarrow> 'k writers" where
  "writing w = \<lparr>wr_world = w, wr_tasks = [], wr_done = []\<rparr>"

section \<open>What each part does\<close>

text \<open>The row of an append, with its payload as SQLite stores it.\<close>

definition stored_row :: "(pystr \<Rightarrow> pystr option) \<Rightarrow> produced \<Rightarrow> db_record option" where
  "stored_row json p =
     (case utf8_decode (er_value (pr_encoded p)) of
        Inl e \<Rightarrow> None
      | Inr body \<Rightarrow> map_option (replayed_record (pr_source p) (pr_offset p) (pr_message_id p) (pr_key p)) (json body))"

lemma stored_row_fields:
  "stored_row json p = Some r \<Longrightarrow> message_id r = pr_message_id p \<and> row_tp r = pr_source p"
  by (auto simp: stored_row_def split: sum.splits)

lemma store_part_rule:
  assumes "w_saved w = None" "store_part ops cfg p w = (Ok (), w')"
  obtains r where "stored_row (op_json ops) p = Some r" "w_saved w' = None" "w_parts w' = w_parts w"
    "db_records (w_db w') = db_records (w_db w) @ (if pr_message_id p \<in> message_ids (w_db w) then [] else [r])"
    "db_checkpoints (w_db w') = (db_checkpoints (w_db w))
       (pr_source p \<mapsto> advanced (db_checkpoints (w_db w) (pr_source p)) (pr_offset p))"
    "db_owned (w_db w') = db_owned (w_db w)"
proof -
  let ?row = "\<lambda>body. replayed_record (pr_source p) (pr_offset p) (pr_message_id p) (pr_key p) body"
  have "wp (store_part ops cfg p) (\<lambda>r w'. w_parts w' = w_parts w) w"
    unfolding store_part_def
    by (rule wp_mono [OF keeps_wp [OF keeps_checked_out [OF keeps_run_txn [OF keeps_materialize]]]])
      (simp add: same_memory_def)
  from wpD [OF this assms(2)] have parts: "w_parts w' = w_parts w" .
  obtain body where b: "w_saved w' = None" "utf8_decode (er_value (pr_encoded p)) = Inr body"
      "materialized (op_json ops) (?row body) (w_db w) = Inr (w_db w')"
    using wpD [OF checked_out_txn_rule [OF txn_work_materialize assms(1)] assms(2) [unfolded store_part_def]] by auto
  obtain d where d: "insert_record (op_json ops) (?row body) (w_db w) = Inr d"
      "w_db w' = checkpoint_upsert d (pr_source p) (pr_offset p)"
    using b(3) by (auto simp: materialized_def split: sum.splits)
  obtain j where j: "op_json ops body = Some j"
      "db_records d = db_records (w_db w) @ (if pr_message_id p \<in> message_ids (w_db w) then [] else [?row j])"
    using d(1) by (auto simp: insert_record_cases split: option.splits if_splits)
  show thesis
    by (rule that [of "?row j"])
      (use b parts d(2) j insert_record_invariants [OF d(1)] in
        \<open>auto simp: stored_row_def checkpoints.look_advance\<close>)
qed

lemma write_back_rule: "write_back_part p w = (r, w') \<longleftrightarrow> r = Ok () \<and>
    w' = w\<lparr>w_parts := record_applied (w_parts w) (pr_source p) (pr_offset p)\<rparr>"
  by (auto simp: write_back_part_def on_parts_def io_simps)

lemma produce_part_kept: "keeps (settled keeps_unique) (produce_part ops loads dumps cfg source key val)"
  unfolding produce_part_def produce_def new_message_id_def
  by (intro unique.kept) 

lemma store_part_kept: "keeps (settled keeps_unique) (store_part ops cfg p)"
  unfolding store_part_def
  by (rule unique.txn [OF txn_work_materialize]) (auto intro: unique.R_materialized)

section \<open>No append is lost\<close>

definition writers_inv :: "'k writers \<Rightarrow> bool" where
  "writers_inv y \<longleftrightarrow> w_saved (wr_world y) = None \<and> unique_messages (w_db (wr_world y))
     \<and> (\<forall>p. p \<in> set (wr_done y) \<or> Stored p \<in> set (wr_tasks y) \<longrightarrow> pr_message_id p \<in> message_ids (w_db (wr_world y)))"

lemma writers_inv_world:
  assumes "writers_inv y" "settled keeps_unique (wr_world y) w"
    "set (wr_done z) \<subseteq> set (wr_done y)" "\<And>p. Stored p \<in> set (wr_tasks z) \<Longrightarrow> Stored p \<in> set (wr_tasks y)" "wr_world z = w"
  shows "writers_inv z"
proof -
  have w: "w_saved w = None" "unique_messages (w_db w)" "message_ids (w_db (wr_world y)) \<subseteq> message_ids (w_db w)"
    using assms(1,2) rows_added_set
    by (auto simp: writers_inv_def settled_def keeps_unique_def message_ids_def)
  with assms show ?thesis unfolding writers_inv_def by blast
qed

lemma writers_inv_finish:
  assumes "finish_step ops cfg y z" "writers_inv y"
  shows "writers_inv z"
  using assms(1)
proof cases
  case (stores ts p us w)
  have saved: "w_saved (wr_world y) = None" using assms(2) by (simp add: writers_inv_def)
  obtain r where r: "stored_row (op_json ops) p = Some r"
      "db_records (w_db w) = db_records (w_db (wr_world y)) @ (if pr_message_id p \<in> message_ids (w_db (wr_world y)) then [] else [r])"
    using store_part_rule [OF saved stores(3)] .
  then have "pr_message_id p \<in> message_ids (w_db w)"
    using stored_row_fields [OF r(1)] by (auto simp: message_ids_def split: if_splits)
  moreover have "writers_inv (y\<lparr>wr_world := w, wr_tasks := ts @ us\<rparr>)"
    by (rule writers_inv_world [OF assms(2) keepsD [OF store_part_kept stores(3)]]) (auto simp: stores(2))
  ultimately show ?thesis unfolding stores(1) by (auto simp: writers_inv_def)
next
  case (writes_back ts p us w)
  with assms(2) show ?thesis by (auto simp: writers_inv_def write_back_rule)
qed

lemma writers_inv_step:
  assumes "append_step ops loads dumps cfg y z" "writers_inv y"
  shows "writers_inv z"
  using assms(1)
proof cases
  case (produces source key val p w)
  then show ?thesis
    by (intro writers_inv_world [OF assms(2) keepsD [OF produce_part_kept produces(2)]]) auto
next
  case (raises source key val e w)
  then show ?thesis
    by (intro writers_inv_world [OF assms(2) keepsD [OF produce_part_kept raises(2)]]) auto
next
  case finishes
  then show ?thesis using assms(2) by (rule writers_inv_finish)
next
  case (store_raises ts p us e w)
  then show ?thesis
    by (intro writers_inv_world [OF assms(2) keepsD [OF store_part_kept store_raises(3)]]) auto
next
  case (other_work m r w)
  then show ?thesis by (intro writers_inv_world [OF assms(2) keepsD [OF other_work(2,3)]]) auto
qed

text \<open>
  C12. No acknowledged append is lost to concurrency. However the parts of any number of appends
  and the work of the other services interleave, and whatever of it fails, every append whose
  transaction committed has exactly one row with its message id, from then on.
\<close>

theorem concurrent_appends_kept:
  assumes "w_saved w = None" "unique_messages (w_db w)"
    and "(append_step ops loads dumps cfg)\<^sup>*\<^sup>* (writing w) y"
    and "p \<in> set (wr_done y) \<or> Stored p \<in> set (wr_tasks y)"
  shows "\<exists>r. filter (\<lambda>x. message_id x = pr_message_id p) (db_records (w_db (wr_world y))) = [r]"
proof -
  have "writers_inv y" using assms(3)
  proof (induction rule: rtranclp_induct)
    case base
    show ?case using assms(1,2) by (simp add: writers_inv_def writing_def)
  qed (rule writers_inv_step)
  then obtain r where "r \<in> set (db_records (w_db (wr_world y)))" "message_id r = pr_message_id p"
    "unique_messages (w_db (wr_world y))"
    using assms(4) by (auto simp: writers_inv_def message_ids_def)
  then show ?thesis using unique_message_row by metis
qed

section \<open>The order does not matter\<close>

definition task_produced :: "append_task \<Rightarrow> produced list" where
  "task_produced t = (case t of Produced p \<Rightarrow> [p] | Stored p \<Rightarrow> [])"

definition task_of :: "append_task \<Rightarrow> produced" where
  "task_of t = (case t of Produced p \<Rightarrow> p | Stored p \<Rightarrow> p)"

text \<open>The appends that have still to be stored, and those that have still to be written back.\<close>

definition to_store :: "'k writers \<Rightarrow> produced list" where
  "to_store y = concat (map task_produced (wr_tasks y))"

definition to_write_back :: "'k writers \<Rightarrow> produced list" where
  "to_write_back y = map task_of (wr_tasks y)"

definition new_rows :: "(pystr \<Rightarrow> pystr option) \<Rightarrow> pystr set \<Rightarrow> produced list \<Rightarrow> db_record multiset" where
  "new_rows json known ps = mset (map (\<lambda>p. the (stored_row json p)) (filter (\<lambda>p. pr_message_id p \<notin> known) ps))"

definition raised_to :: "topic_partition \<Rightarrow> produced list \<Rightarrow> int option \<Rightarrow> int option" where
  "raised_to tp ps c = fold (\<lambda>p c. if pr_source p = tp then Some (advanced c (pr_offset p)) else c) ps c"

lemma raised_to_moved: "raised_to tp (ps @ p # qs) c = raised_to tp (ps @ qs) (raised_to tp [p] c)"
proof -
  let ?f = "\<lambda>p c. if pr_source p = tp then Some (advanced c (pr_offset p)) else c"
  have "?f p \<circ> ?f q = ?f q \<circ> ?f p" for p q
    by (auto simp: fun_eq_iff advanced_def max.left_commute max.commute split: option.split)
  then have "fold ?f (ps @ p # qs) = fold ?f (p # ps @ qs)"
    by (intro fold_multiset_equiv) simp_all
  then show ?thesis by (simp add: raised_to_def)
qed

lemma raised_to_cong: "(\<And>k. f k = g k) \<Longrightarrow> raised_to tp ps (f tp) = raised_to tp ps (g tp)"
  by simp

lemma new_rows_known: "i \<notin> pr_message_id ` set ps \<Longrightarrow> new_rows json (insert i K) ps = new_rows json K ps"
  unfolding new_rows_def by (rule arg_cong [where f = mset], rule arg_cong [where f = "map _"], rule filter_cong) auto

text \<open>What the finishing steps leave, as a value of the state they start from.\<close>

definition rows_at_end :: "(pystr \<Rightarrow> pystr option) \<Rightarrow> 'k writers \<Rightarrow> db_record multiset" where
  "rows_at_end json y = mset (db_records (w_db (wr_world y)))
     + new_rows json (message_ids (w_db (wr_world y))) (to_store y)"

definition checkpoint_at_end :: "'k writers \<Rightarrow> topic_partition \<Rightarrow> int option" where
  "checkpoint_at_end y tp = raised_to tp (to_store y) (db_checkpoints (w_db (wr_world y)) tp)"

definition memory_at_end :: "'k writers \<Rightarrow> topic_partition \<Rightarrow> int option" where
  "memory_at_end y tp = raised_to tp (to_write_back y) (checkpoint_of (w_parts (wr_world y)) tp)"

definition same_end :: "(pystr \<Rightarrow> pystr option) \<Rightarrow> 'k writers \<Rightarrow> 'k writers \<Rightarrow> bool" where
  "same_end json y z \<longleftrightarrow> rows_at_end json z = rows_at_end json y \<and> checkpoint_at_end z = checkpoint_at_end y
     \<and> memory_at_end z = memory_at_end y \<and> db_owned (w_db (wr_world z)) = db_owned (w_db (wr_world y))"

definition finishing :: "'k writers \<Rightarrow> bool" where
  "finishing y \<longleftrightarrow> w_saved (wr_world y) = None \<and> distinct (map pr_message_id (to_store y))"

lemma finish_step_end:
  assumes "finish_step ops cfg y z" "finishing y"
  shows "same_end (op_json ops) y z \<and> finishing z"
  using assms(1)
proof cases
  case (stores ts p us w)
  let ?d = "w_db (wr_world y)" and ?ps = "concat (map task_produced ts)" and ?qs = "concat (map task_produced us)"
  have saved: "w_saved (wr_world y) = None" using assms(2) by (simp add: finishing_def)
  obtain r where r: "stored_row (op_json ops) p = Some r" "w_saved w = None" "w_parts w = w_parts (wr_world y)"
    "db_records (w_db w) = db_records ?d @ (if pr_message_id p \<in> message_ids ?d then [] else [r])"
    "db_checkpoints (w_db w) = (db_checkpoints ?d)(pr_source p \<mapsto> advanced (db_checkpoints ?d (pr_source p)) (pr_offset p))"
    "db_owned (w_db w) = db_owned ?d"
    using store_part_rule [OF saved stores(3)] .
  have y: "to_store y = ?ps @ p # ?qs" and z: "to_store z = ?ps @ ?qs" "to_write_back z = to_write_back y"
    by (simp_all add: stores to_store_def to_write_back_def task_produced_def task_of_def)
  have wz: "wr_world z = w" by (simp add: stores(1))
  have fresh: "pr_message_id p \<notin> pr_message_id ` set (?ps @ ?qs)" "finishing z"
    using assms(2) r(2) z(1) y by (auto simp: finishing_def stores(1))
  have ids: "message_ids (w_db w) = insert (pr_message_id p) (message_ids ?d)"
    using r(4) stored_row_fields [OF r(1)] by (auto simp: message_ids_def split: if_splits)
  have "rows_at_end (op_json ops) z = rows_at_end (op_json ops) y"
    unfolding rows_at_end_def z(1) y wz ids new_rows_known [OF fresh(1)]
    by (simp add: r(1,4) new_rows_def)
  moreover have "checkpoint_at_end z = checkpoint_at_end y"
    by (rule ext) (simp add: checkpoint_at_end_def z(1) y raised_to_moved, simp add: stores(1) r(5) raised_to_def)
  moreover have "memory_at_end z = memory_at_end y"
    by (rule ext) (simp only: memory_at_end_def z(2) wz r(3))
  ultimately show ?thesis using fresh(2) r(6) wz by (simp add: same_end_def)
next
  case (writes_back ts p us w)
  have w: "w = (wr_world y)\<lparr>w_parts := record_applied (w_parts (wr_world y)) (pr_source p) (pr_offset p)\<rparr>"
    using writes_back(3) by (simp add: write_back_rule)
  have y: "to_write_back y = map task_of ts @ p # map task_of us" and z: "to_write_back z = map task_of ts @ map task_of us"
      "to_store z = to_store y"
    by (simp_all add: writes_back to_store_def to_write_back_def task_produced_def task_of_def)
  have "memory_at_end z = memory_at_end y"
    by (rule ext) (simp add: memory_at_end_def z(1) y raised_to_moved, simp add: writes_back(1) w raised_to_def)
  then show ?thesis using assms(2) z(2)
    by (simp add: same_end_def rows_at_end_def checkpoint_at_end_def finishing_def writes_back(1) w fun_eq_iff)
qed

text \<open>
  C13. The order in which concurrent appends reach SQLite does not matter. However the transactions
  and the write-backs of appends with different message ids interleave, once they all have
  returned the tables hold the old rows and the row of every append that was not stored yet,
  and both checkpoints of every partition, the stored and the live one, have risen to the
  greatest offset among its appends: a value of the state before, whatever the order was.
\<close>

theorem append_order_irrelevant:
  assumes "w_saved (wr_world y) = None" "distinct (map pr_message_id (to_store y))"
    and "(finish_step ops cfg)\<^sup>*\<^sup>* y z" "wr_tasks z = []"
  shows "mset (db_records (w_db (wr_world z))) = mset (db_records (w_db (wr_world y)))
         + new_rows (op_json ops) (message_ids (w_db (wr_world y))) (to_store y)
     \<and> db_checkpoints (w_db (wr_world z)) tp = raised_to tp (to_store y) (db_checkpoints (w_db (wr_world y)) tp)
     \<and> checkpoint_of (w_parts (wr_world z)) tp = raised_to tp (to_write_back y) (checkpoint_of (w_parts (wr_world y)) tp)
     \<and> db_owned (w_db (wr_world z)) = db_owned (w_db (wr_world y))"
proof -
  have "same_end (op_json ops) y z \<and> finishing z" using assms(3)
  proof (induction rule: rtranclp_induct)
    case base
    show ?case using assms(1,2) by (simp add: same_end_def finishing_def)
  next
    case (step u v)
    with finish_step_end [OF step.hyps(2)] show ?case by (auto simp: same_end_def)
  qed
  with assms(4) show ?thesis
    by (auto simp: same_end_def rows_at_end_def checkpoint_at_end_def memory_at_end_def to_store_def
        to_write_back_def new_rows_def raised_to_def fun_eq_iff)
qed

section \<open>Two appends to the broker of the tests\<close>

definition earlier :: produced where
  "earlier = \<lparr>pr_source = sample_tp, pr_offset = 7, pr_message_id = sample_uuid, pr_key = lit ''k'',
     pr_encoded = \<lparr>er_key = [107], er_value = [49], er_headers = []\<rparr>\<rparr>"

definition later :: produced where
  "later = earlier\<lparr>pr_offset := 8, pr_message_id := 49 # tl sample_uuid\<rparr>"

definition two_appends :: "fake writers" where
  "two_appends = (writing (boot fake_start empty_database))\<lparr>wr_tasks := [Produced earlier, Produced later]\<rparr>"

text \<open>A store part runs as long as the script of the database is empty.\<close>

definition unscripted :: "fake world \<Rightarrow> bool" where
  "unscripted w \<longleftrightarrow> w_saved w = None \<and> fk_verdicts (w_env w) = [] \<and> fk_stale (w_env w) = (False, False)"

lemma store_part_unscripted:
  assumes "unscripted w" "p = earlier \<or> p = later"
  shows "\<exists>w'. store_part fake_ops test_settings p w = (Ok (), w') \<and> unscripted w'"
proof -
  have d: "utf8_decode [49] = Inr (lit ''1'')"
    by (rule utf8_decode_encode) (simp add: utf8_encode_def lit_def scalar_value_def utf8_encode_one_def)
  show ?thesis using assms
    by (auto simp: unscripted_def earlier_def later_def store_part_def lift_res_def ask_def call_def fake_answers io_simps Let_def
        log_event_def checked_out_def acquire_def rollback_def execute_def run_stmt_def in_transaction_def
        fake_verdict_def run_txn_def run_from.simps attempt_txn_def on_error_def materialize_def d
        apply_materialization_def release_def commit_def end_commit_def on_parts_def committed_def
        insert_record_def)
qed

lemma two_appends_end:
  assumes "{p, q} = {earlier, later}" "{ts, us} = {[], [Produced q]}"
    and "wr_tasks two_appends = ts @ Produced p # us"
  shows "\<exists>z. (finish_step fake_ops test_settings)\<^sup>*\<^sup>* two_appends z \<and> wr_tasks z = [] \<and> wr_done z = [q, p]"
proof -
  let ?to = "finish_step fake_ops test_settings"
  have pq: "p = earlier \<or> p = later" "q = earlier \<or> q = later" using assms(1) by auto
  have "unscripted (wr_world two_appends)"
    by (simp add: two_appends_def writing_def unscripted_def)
  then obtain v where v: "store_part fake_ops test_settings p (wr_world two_appends) = (Ok (), v)" "unscripted v"
    using store_part_unscripted pq(1) by blast
  let ?a = "two_appends\<lparr>wr_world := v, wr_tasks := ts @ Stored p # us\<rparr>"
  let ?v = "v\<lparr>w_parts := record_applied (w_parts v) (pr_source p) (pr_offset p)\<rparr>"
  let ?b = "?a\<lparr>wr_world := ?v, wr_tasks := [Produced q], wr_done := [p]\<rparr>"
  have a: "?to two_appends ?a" by (rule stores [OF assms(3) v(1)])
  have "?to ?a (?a\<lparr>wr_world := ?v, wr_tasks := ts @ us, wr_done := p # wr_done ?a\<rparr>)"
    by (rule writes_back) (simp_all add: write_back_rule)
  moreover have "ts @ us = [Produced q]" using assms(2) by (auto simp: doubleton_eq_iff)
  ultimately have b: "?to ?a ?b" by (simp add: two_appends_def writing_def)
  obtain x where x: "store_part fake_ops test_settings q ?v = (Ok (), x)"
    using store_part_unscripted [of ?v q] v(2) pq(2) by (auto simp: unscripted_def)
  let ?c = "?b\<lparr>wr_world := x, wr_tasks := [Stored q]\<rparr>"
  have c: "?to ?b ?c" using stores [of ?b "[]" q "[]"] x by simp
  have d: "?to ?c (?c\<lparr>wr_world := x\<lparr>w_parts := record_applied (w_parts x) (pr_source q) (pr_offset q)\<rparr>,
      wr_tasks := [], wr_done := [q, p]\<rparr>)"
    using writes_back [of ?c "[]" q "[]"] by (simp add: write_back_rule)
  have "?to\<^sup>*\<^sup>* two_appends (?c\<lparr>wr_world := x\<lparr>w_parts := record_applied (w_parts x) (pr_source q) (pr_offset q)\<rparr>,
      wr_tasks := [], wr_done := [q, p]\<rparr>)"
    using a b c d by (meson rtranclp.rtrancl_into_rtrancl rtranclp.rtrancl_refl)
  then show ?thesis by - (rule exI, intro conjI, assumption, simp_all)
qed

lemma append_order_irrelevant_witness:
  "\<exists>(z :: fake writers) (z' :: fake writers). wr_done z = [later, earlier] \<and> wr_done z' = [earlier, later]
     \<and> mset (db_records (w_db (wr_world z))) = mset (db_records (w_db (wr_world z')))
     \<and> db_checkpoints (w_db (wr_world z)) sample_tp = Some 8 \<and> db_checkpoints (w_db (wr_world z')) sample_tp = Some 8"
proof -
  have tasks: "wr_tasks two_appends = [Produced earlier, Produced later]" by (simp add: two_appends_def)
  have "\<exists>z. (finish_step fake_ops test_settings)\<^sup>*\<^sup>* two_appends z \<and> wr_tasks z = [] \<and> wr_done z = [later, earlier]"
    by (rule two_appends_end [where ts = "[]" and us = "[Produced later]"]) (simp_all add: tasks)
  then obtain z where z: "(finish_step fake_ops test_settings)\<^sup>*\<^sup>* two_appends z" "wr_tasks z = []" "wr_done z = [later, earlier]"
    by blast
  have "\<exists>z. (finish_step fake_ops test_settings)\<^sup>*\<^sup>* two_appends z \<and> wr_tasks z = [] \<and> wr_done z = [earlier, later]"
    by (rule two_appends_end [where ts = "[Produced earlier]" and us = "[]"]) (auto simp: tasks)
  then obtain z' where z': "(finish_step fake_ops test_settings)\<^sup>*\<^sup>* two_appends z'" "wr_tasks z' = []" "wr_done z' = [earlier, later]"
    by blast
  have start: "w_saved (wr_world two_appends) = None" "distinct (map pr_message_id (to_store two_appends))"
    "raised_to sample_tp (to_store two_appends) (db_checkpoints (w_db (wr_world two_appends)) sample_tp) = Some 8"
    by (simp_all add: two_appends_def writing_def to_store_def task_produced_def later_def earlier_def sample_uuid_def
        lit_def raised_to_def)
  from append_order_irrelevant [OF start(1,2) z(1,2), of sample_tp] append_order_irrelevant [OF start(1,2) z'(1,2), of sample_tp]
    start(3) z(3) z'(3)
  show ?thesis by - (rule exI [of _ z], rule exI [of _ z'], simp)
qed

lemma concurrent_appends_kept_witness:
  "\<exists>y p r. p \<in> set (wr_done (y :: fake writers)) \<and> filter (\<lambda>x. message_id x = pr_message_id p) (db_records (w_db (wr_world y))) = [r]"
proof -
  obtain w where w: "sample_append (boot appending empty_database) = (Ok (), w)" using sample_append_returns by blast
  obtain p u where p: "produce_part fake_ops (\<lambda>_. None) (\<lambda>_::unit. Inl TypeError) test_settings sample_tp
      (HostStr (lit ''k'')) (PayloadStr (lit ''1'')) (boot appending empty_database) = (Ok p, u)"
      "io_seq (store_part fake_ops test_settings p) (write_back_part p) u = (Ok (), w)"
    using w unfolding append_in_parts by (auto simp: io_bind_def split: prod.splits res.splits)
  then obtain v where v: "store_part fake_ops test_settings p u = (Ok (), v)" "write_back_part p v = (Ok (), w)"
    by (auto simp: io_bind_def split: prod.splits res.splits)
  let ?y = "writing (boot appending empty_database)"
  let ?a = "?y\<lparr>wr_world := u, wr_tasks := [Produced p]\<rparr>"
  let ?b = "?a\<lparr>wr_world := v, wr_tasks := [Stored p]\<rparr>"
  let ?c = "?b\<lparr>wr_world := w, wr_tasks := [], wr_done := [p]\<rparr>"
  let ?to = "append_step fake_ops (\<lambda>_. None) (\<lambda>_::unit. Inl TypeError) test_settings"
  have "?to ?y ?a" using produces [of fake_ops "\<lambda>_. None" "\<lambda>_::unit. Inl TypeError" test_settings _ _ _ ?y p u] p(1)
    by (simp add: writing_def)
  moreover have "?to ?a ?b" using finishes [OF stores [of ?a "[]" p "[]" fake_ops test_settings v]] v(1) by simp
  moreover have "?to ?b ?c" using finishes [OF writes_back [of ?b "[]" p "[]" w fake_ops test_settings]] v(2)
    by (simp add: writing_def)
  ultimately have path: "?to\<^sup>*\<^sup>* ?y ?c" by (meson rtranclp.rtrancl_into_rtrancl rtranclp.rtrancl_refl)
  from concurrent_appends_kept [OF _ _ this, of p] show ?thesis
    by - (rule exI [of _ ?c], rule exI [of _ p], simp add: unique_messages_def)
qed

end
