(* ===== verification/Replay_Truncation.thy ===== *)
theory Replay_Truncation imports
  Replay_Correctness
begin

text \<open>
  A changelog that no longer holds what a checkpoint points at: retention removed its head,
  or its end went back. The broker answers the fetch with \<^verbatim>\<open>OffsetOutOfRangeError\<close>, the
  replay starts again at the earliest offset, and the clamps of
  \<^verbatim>\<open>_apply_post_reset_clamps\<close> repair the checkpoint. The contract of such a broker extends the
  contract of the quiet one. The last part is the changelog that retains nothing at all, read
  without a checkpoint.
\<close>

section \<open>A broker that reports positions out of range\<close>

locale truncating_broker = log_broker ops ctp limit good contents log_start leo pos patience
  for ops :: "'k ops" and ctp limit good contents log_start leo pos patience +
  assumes out_of_range: "good k \<Longrightarrow> pos k < log_start k \<or> leo k < pos k \<Longrightarrow> 0 < n \<Longrightarrow>
      \<exists>r k'. op_getmany ops ctp n k = (r, k') \<and> same k k' \<and> pos k' = pos k
        \<and> (r = Inl OffsetOutOfRange \<and> patience k' = patience k
           \<or> (\<exists>m. r = Inr m \<and> (m ctp = None \<or> m ctp = Some []) \<and> patience k' < patience k))"
    and beginning_offsets: "good k \<Longrightarrow>
      \<exists>m k'. op_beginning_offsets ops ctp k = (Inr m, k') \<and> m ctp = Some (log_start k)
        \<and> same k k' \<and> pos k' = pos k \<and> patience k' = patience k"
begin

definition after_reset :: "loop_vars \<Rightarrow> int \<Rightarrow> loop_vars" where
  "after_reset v start = v\<lparr>position := start, reset_occurred := True, reset_log_start := start,
     replayed_after_reset := 0\<rparr>"

lemma reset_calm:
  assumes w: "settled_good w"
  shows "wp (reset_to_earliest ops tp ctp c v) (\<lambda>r u. r = Ok (after_reset v (log_start (w_env w)))
    \<and> settled_good u \<and> same_time (w_env w) (w_env u) \<and> pos (w_env u) = log_start (w_env w)
    \<and> w_db u = w_db w \<and> w_parts u = w_parts w) w"
proof -
  have g: "good (w_env w)" "w_saved w = None" using w by (auto simp: settled_good_def)
  obtain m k where k: "op_beginning_offsets ops ctp (w_env w) = (Inr m, k)"
    "m ctp = Some (log_start (w_env w))" "same_time (w_env w) k"
    using beginning_offsets [OF g(1)] by (auto simp: same_time_def)
  obtain k' where k': "op_seek_to_beginning ops ctp k = (Inr (), k')" "same_time k k'" "pos k' = log_start k"
    using seek_to_beginning [OF same_time_good [OF k(3)]] by (auto simp: same_time_def)
  have "same_time (w_env w) k'" "log_start k = log_start (w_env w)" "good k'"
    using k(3) k'(2) same_time_trans same_time_good by (auto simp: same_time_def same_def)
  with g k(1,2) k'(1,3) show ?thesis
    by (simp add: reset_to_earliest_def settled_good_def after_reset_def)
qed

text \<open>An iteration with the consumer out of range: an empty poll, or the reset.\<close>

definition reset_step :: "loop_vars \<Rightarrow> 'k world \<Rightarrow> loop_vars option res \<Rightarrow> 'k world \<Rightarrow> bool" where
  "reset_step v w r u \<longleftrightarrow> settled_good u \<and> same (w_env w) (w_env u) \<and> w_db u = w_db w \<and> w_parts u = w_parts w
     \<and> (r = Ok (Some v) \<and> pos (w_env u) = pos (w_env w) \<and> patience (w_env u) < patience (w_env w)
        \<or> r = Ok (Some (after_reset v (log_start (w_env w)))) \<and> pos (w_env u) = log_start (w_env w)
          \<and> patience (w_env u) = patience (w_env w))"

lemma deadline_step:
  assumes lim: "limit \<le> deadline" and u: "reset_step v w (Ok (Some v')) u"
  shows "wp (check_deadline ops bt tp deadline l v') (reset_step v w) u"
  by (rule wp_mono [OF check_deadline_calm [OF _ lim]])
    (use u in \<open>auto simp: reset_step_def calm_def same_def\<close>)

lemma iteration_out_of_range:
  assumes w: "settled_good w" and lim: "limit \<le> deadline" and size: "0 < cfg_batch_size cfg"
    and out: "pos (w_env w) < log_start (w_env w) \<or> leo (w_env w) < pos (w_env w)"
  shows "wp (iteration ops cfg tp ctp deadline c l v) (reset_step v w) w"
proof -
  have g: "good (w_env w)" "w_saved w = None" using w by (auto simp: settled_good_def)
  obtain r k where fetch: "op_getmany ops ctp (cfg_batch_size cfg) (w_env w) = (r, k)"
    and k: "same (w_env w) k" "pos k = pos (w_env w)"
    and r: "r = Inl OffsetOutOfRange \<and> patience k = patience (w_env w)
      \<or> (\<exists>m. r = Inr m \<and> (m ctp = None \<or> m ctp = Some []) \<and> patience k < patience (w_env w))"
    using out_of_range [OF g(1) out size] by blast
  let ?w = "w\<lparr>w_env := k\<rparr>"
  have sg: "settled_good ?w" using g k(1) by (auto simp: settled_good_def same_def)
  have polled: "wp (check_deadline ops bt tp deadline l v) (reset_step v w) ?w"
    if "patience k < patience (w_env w)" for bt
    by (rule deadline_step [OF lim]) (use that sg k in \<open>simp add: reset_step_def\<close>)
  have reset: "wp (io_bind (reset_to_earliest ops tp ctp c v) (check_deadline ops bt tp deadline l))
      (reset_step v w) ?w" if p: "patience k = patience (w_env w)" for bt
  proof (rule wp_bind_ok [OF reset_calm [OF sg]])
    fix u :: "'k world"
    assume u: "settled_good u \<and> same_time (w_env ?w) (w_env u) \<and> pos (w_env u) = log_start (w_env ?w)
      \<and> w_db u = w_db ?w \<and> w_parts u = w_parts ?w"
    then have "reset_step v w (Ok (Some (after_reset v (log_start (w_env ?w))))) u"
      using k p by (auto simp: reset_step_def same_time_def same_def)
    then show "wp (check_deadline ops bt tp deadline l (after_reset v (log_start (w_env ?w)))) (reset_step v w) u"
      by (rule deadline_step [OF lim])
  qed
  show ?thesis using r polled reset
    by (auto simp: iteration_def Let_def fetch)
qed

text \<open>The loop from a position out of range replays everything the changelog still holds.\<close>

definition reset_done ::
    "topic_partition \<Rightarrow> 'k world \<Rightarrow> database \<Rightarrow> loop_vars option res \<Rightarrow> 'k world \<Rightarrow> bool" where
  "reset_done tp w d1 r u \<longleftrightarrow>
     (\<exists>v. r = Ok (Some v) \<and> reset_occurred v \<and> reset_log_start v = log_start (w_env w)
        \<and> replayed_after_reset v = length (contents (w_env w)))
     \<and> settled_good u \<and> same (w_env w) (w_env u)
     \<and> (if contents (w_env w) = [] then w_db u = w_db w \<and> w_parts u = w_parts w
        else w_db u = checkpoint_upsert d1 tp (leo (w_env w) - 1)
          \<and> checkpoint_of (w_parts u) = checkpoint_of (record_applied (w_parts w) tp (leo (w_env w) - 1))
          \<and> log_end_of (w_parts u) = log_end_of (w_parts w))"

lemma loop_reset:
  assumes u: "reset_step v w (Ok (Some v')) u" "v' = after_reset v (log_start (w_env w))"
      "pos (w_env u) = log_start (w_env w)" "patience (w_env u) = patience (w_env w)"
    and lim: "limit \<le> deadline" and size: "0 < cfg_batch_size cfg"
    and replay: "replayed (op_json ops) tp (contents (w_env w)) (w_db w) = Inr d1"
    and fuel: "length (contents (w_env w)) + patience (w_env w) \<le> fuel"
  shows "wp (replay_loop fuel ops cfg tp ctp deadline c (leo (w_env w)) v') (reset_done tp w d1) u"
proof -
  have s: "settled_good u" "contents (w_env u) = contents (w_env w)" "leo (w_env u) = leo (w_env w)"
    "log_start (w_env u) = log_start (w_env w)" "w_db u = w_db w" "w_parts u = w_parts w"
    using u(1) by (auto simp: reset_step_def same_def)
  have "good (w_env u)" using s(1) by (simp add: settled_good_def)
  note shape = log_shape [OF this, unfolded s]
  have all: "pending (w_env u) = contents (w_env w)"
    using shape by (auto simp: pending_def s u(3) filter_id_conv)
  have ends: "log_start (w_env w) = leo (w_env w) \<longleftrightarrow> contents (w_env w) = []"
    using shape by (cases "contents (w_env w)") auto
  have "wp (replay_loop fuel ops cfg tp ctp deadline c (leo (w_env u)) v') (loop_done tp u d1 v') u"
    by (rule loop_calm [OF s(1) lim size]) (use s all ends shape replay fuel u(2-4) in \<open>auto simp: after_reset_def\<close>)
  then show ?thesis unfolding s(3)
  proof (rule wp_mono, goal_cases)
    case (1 r x)
    have "same (w_env w) (w_env x)" using 1 u(1) by (auto simp: loop_done_def reset_step_def same_def)
    with 1 show ?case by (auto simp: loop_done_def reset_done_def all s u(2) after_reset_def)
  qed
qed

lemma loop_out_of_range:
  assumes "settled_good w" "limit \<le> deadline" "0 < cfg_batch_size cfg"
    "pos (w_env w) < log_start (w_env w) \<or> leo (w_env w) < pos (w_env w)"
    "position v \<noteq> leo (w_env w)"
    "replayed (op_json ops) tp (contents (w_env w)) (w_db w) = Inr d1"
    "length (contents (w_env w)) + patience (w_env w) < fuel"
  shows "wp (replay_loop fuel ops cfg tp ctp deadline c (leo (w_env w)) v) (reset_done tp w d1) w"
  using assms
proof (induction fuel arbitrary: w)
  case (Suc n)
  have "wp (io_bind (iteration ops cfg tp ctp deadline c (leo (w_env w)) v) (\<lambda>next_vars. case next_vars of
      None \<Rightarrow> io_ret None
    | Some v' \<Rightarrow> replay_loop n ops cfg tp ctp deadline c (leo (w_env w)) v')) (reset_done tp w d1) w"
    unfolding wp_bind
  proof (rule wp_mono [OF iteration_out_of_range [OF Suc.prems(1-4)]], goal_cases)
    case (1 r u)
    then have s: "settled_good u" "contents (w_env u) = contents (w_env w)" "leo (w_env u) = leo (w_env w)"
      "log_start (w_env u) = log_start (w_env w)" "w_db u = w_db w" "w_parts u = w_parts w"
      "same (w_env w) (w_env u)"
      by (auto simp: reset_step_def same_def)
    from 1 consider
      (poll) "r = Ok (Some v)" "pos (w_env u) = pos (w_env w)" "patience (w_env u) < patience (w_env w)"
    | (reset) "r = Ok (Some (after_reset v (log_start (w_env w))))" "pos (w_env u) = log_start (w_env w)"
        "patience (w_env u) = patience (w_env w)"
      unfolding reset_step_def by blast
    then show ?case
    proof cases
      case poll
      have "wp (replay_loop n ops cfg tp ctp deadline c (leo (w_env u)) v) (reset_done tp u d1) u"
        by (rule Suc.IH) (use Suc.prems s poll in auto)
      then show ?thesis unfolding poll(1) res.case option.case s(3)
        by (rule wp_mono) (use s in \<open>auto simp: reset_done_def same_def\<close>)
    next
      case reset
      with 1 have "reset_step v w (Ok (Some (after_reset v (log_start (w_env w))))) u" by simp
      from loop_reset [OF this refl reset(2,3) Suc.prems(2,3,6)] Suc.prems(7)
      show ?thesis by (simp add: reset(1))
    qed
  qed
  with Suc.prems(5) show ?case by (subst replay_loop.simps) simp
qed simp

section \<open>The clamps\<close>

lemma clamps_calm:
  assumes w: "settled_good w"
  shows "wp (apply_post_reset_clamps ops bt tp l ls n) (\<lambda>r u. r = Ok () \<and> settled_good u
    \<and> same_time (w_env w) (w_env u)
    \<and> (case clamp_target (db_checkpoints (w_db w) tp) l ls n of
         None \<Rightarrow> w_db u = w_db w \<and> w_parts u = w_parts w
       | Some t \<Rightarrow> w_db u = checkpoint_clamp (w_db w) tp t \<and> w_parts u = record_clamped (w_parts w) tp t)) w"
    (is "wp _ ?Q w")
proof -
  let ?t = "clamp_target (db_checkpoints (w_db w) tp) l ls n"
  have clamp: "wp (execute_in_txn ops bt (CheckpointClamp tp t)) (\<lambda>r u. r = Ok () \<and> settled_good u
      \<and> calm (w_env v) (w_env u) \<and> w_db u = checkpoint_clamp (w_db v) tp t \<and> w_parts u = w_parts v) v"
    if "settled_good v" for v t
    unfolding execute_in_txn_def
    by (rule txn_calm [OF does_execute that keeps_execute]) simp_all
  have writes: "wp (io_seq (execute_in_txn ops bt (CheckpointClamp tp t))
      (io_seq (on_parts (\<lambda>m. record_clamped m tp t)) (log_event e))) ?Q v"
    if v: "settled_good v" "same_time (w_env w) (w_env v)" "w_db v = w_db w" "w_parts v = w_parts w"
      and t: "?t = Some t" for v t e
    by (rule wp_bind_ok [OF clamp [OF v(1)]])
      (use v t in \<open>auto simp: settled_good_def dest: calm_same_time intro: same_time_trans\<close>)
  show ?thesis unfolding apply_post_reset_clamps_def
  proof (rule wp_bind_ok [OF read_checkpoint_calm [OF w]], goal_cases)
    case (1 v)
    then show ?case using writes [of v] by (cases ?t) auto
  qed
qed

text \<open>The checkpoint the replay and the clamps leave: the end of the changelog, always.\<close>

definition repaired :: "topic_partition \<Rightarrow> int \<Rightarrow> database \<Rightarrow> database" where
  "repaired tp l d = checkpoint_clamp d tp (l - 1)"

lemma clamped_after_reset:
  assumes good: "good k" and c: "db_checkpoints d tp = Some c" and out: "c + 1 < log_start k \<or> leo k < c + 1"
    and d1: "replayed (op_json ops) tp (contents k) d = Inr d1"
  defines "d2 \<equiv> if contents k = [] then d else checkpoint_upsert d1 tp (leo k - 1)"
  shows "(case clamp_target (db_checkpoints d2 tp) (leo k) (log_start k) (length (contents k)) of
      None \<Rightarrow> d2 | Some t \<Rightarrow> checkpoint_clamp d2 tp t) = repaired tp (leo k) d1"
    and "clamp_target (db_checkpoints d2 tp) (leo k) (log_start k) (length (contents k))
      = (if contents k = [] \<or> leo k < c + 1 then Some (leo k - 1) else None)"
proof -
  note shape = log_shape [OF good]
  have "d1 = d\<lparr>db_records := db_records d1\<rparr>"
    using replayed_same_rows [OF d1 refl] d1 by simp
  then have cp: "db_checkpoints d1 tp = Some c" using c by (cases d, cases d1) simp
  have none: "contents k = [] \<Longrightarrow> d1 = d \<and> log_start k = leo k" using d1 shape by simp
  have some: "log_start k < leo k" if "contents k \<noteq> []"
    using shape that by (metis last_in_set le_less_trans)
  have stored: "db_checkpoints d2 tp = Some (if contents k = [] then c else max c (leo k - 1))"
    using c cp by (simp add: d2_def checkpoint_upsert_def)
  show target: "clamp_target (db_checkpoints d2 tp) (leo k) (log_start k) (length (contents k))
      = (if contents k = [] \<or> leo k < c + 1 then Some (leo k - 1) else None)"
    using stored none some out by (auto simp: clamp_target_def max_def)
  show "(case clamp_target (db_checkpoints d2 tp) (leo k) (log_start k) (length (contents k)) of
      None \<Rightarrow> d2 | Some t \<Rightarrow> checkpoint_clamp d2 tp t) = repaired tp (leo k) d1"
    unfolding target using none cp out
    by (auto simp: d2_def repaired_def checkpoint_upsert_def checkpoint_clamp_def max_def)
qed

section \<open>The whole rehydrate\<close>

definition recovered :: "topic_partition \<Rightarrow> 'k \<Rightarrow> database \<Rightarrow> unit res \<Rightarrow> 'k world \<Rightarrow> bool" where
  "recovered tp k d1 r u \<longleftrightarrow> r = Ok () \<and> w_db u = owned_insert (repaired tp (leo k) d1) tp
     \<and> status_of (w_parts u) tp = Some READY
     \<and> Option.bind (partition_states (w_parts u) tp) ps_lag = Some 0"

lemma caught_up_lag:
  assumes "checkpoint_of p tp = Some (l - 1)" "log_end_of p tp = Some l"
  shows "Option.bind (partition_states (mark_ready p tp) tp) ps_lag = Some 0"
proof -
  obtain e where "p tp = Some e" "e_log_end_offset e = Some l"
    using assms(2) by (cases "p tp") (auto simp: log_end_of_def)
  with assms(1) show ?thesis
    by (auto simp: partition_states_def snapshot_of_def lag_of_def mark_ready_def with_entry_def
        entry_of_def checkpoint_of_def)
qed

lemma finish_reset_calm:
  assumes w: "settled_good w" and v: "reset_occurred v" and k: "same k (w_env w)"
    and target: "clamp_target (db_checkpoints (w_db w) tp) (leo k) (reset_log_start v) (replayed_after_reset v) = t"
    and db: "(case t of None \<Rightarrow> w_db w | Some n \<Rightarrow> checkpoint_clamp (w_db w) tp n) = repaired tp (leo k) d1"
    and cp: "checkpoint_of (case t of None \<Rightarrow> w_parts w | Some n \<Rightarrow> record_clamped (w_parts w) tp n) tp = Some (leo k - 1)"
    and le: "log_end_of (w_parts w) tp = Some (leo k)"
  shows "wp (finish_rehydrate ops bt tp (leo k) v) (recovered tp k d1) w"
proof -
  let ?p = "case t of None \<Rightarrow> w_parts w | Some n \<Rightarrow> record_clamped (w_parts w) tp n"
  have clamps: "wp (io_when (reset_occurred v)
      (apply_post_reset_clamps ops bt tp (leo k) (reset_log_start v) (replayed_after_reset v)))
      (\<lambda>r u. r = Ok () \<and> settled_good u \<and> w_db u = repaired tp (leo k) d1 \<and> w_parts u = ?p) w"
    by (simp add: v, rule wp_mono [OF clamps_calm [OF w]]) (use target db in \<open>auto split: option.splits\<close>)
  have tail: "wp (io_seq (reveal ops bt tp) (log_event e)) (recovered tp k d1) u"
    if u: "settled_good u" "w_db u = repaired tp (leo k) d1" "w_parts u = mark_ready ?p tp" for u e
  proof (rule wp_bind_ok [OF reveal_calm [OF u(1)]])
    have "log_end_of ?p tp = Some (leo k)" using le by (simp split: option.split)
    from caught_up_lag [OF cp this]
    show "wp (log_event e) (recovered tp k d1) x"
      if "settled_good x \<and> calm (w_env u) (w_env x) \<and> w_db x = owned_insert (w_db u) tp \<and> w_parts x = w_parts u" for x
      using that u by (simp add: recovered_def)
  qed
  show ?thesis unfolding finish_rehydrate_def
  proof (rule wp_bind_ok [OF clamps], goal_cases)
    case (1 u)
    with tail show ?case unfolding wp_seq_memory by (simp add: settled_good_def)
  qed
qed

lemma replay_truncated_calm:
  assumes w: "settled_good w" and lim: "limit \<le> deadline" and size: "0 < cfg_batch_size cfg"
    and c: "db_checkpoints (w_db w) tp = Some n" "checkpoint_of (w_parts w) tp = Some n"
    and out: "n + 1 < log_start (w_env w) \<or> leo (w_env w) < n + 1"
    and replay: "replayed (op_json ops) tp (contents (w_env w)) (w_db w) = Inr d1"
    and fuel: "length (contents (w_env w)) + patience (w_env w) < fuel"
  shows "wp (replay_changelog fuel ops cfg tp ctp deadline (Some n) (leo (w_env w))) (recovered tp (w_env w) d1) w"
proof (rule replay_prefix_calm [OF w, where P = "reset_done tp (w\<lparr>w_parts := restoring tp w\<rparr>) d1"], goal_cases)
  case (1 u)
  then have u: "settled_good u" "contents (w_env u) = contents (w_env w)" "leo (w_env u) = leo (w_env w)"
    "log_start (w_env u) = log_start (w_env w)" "patience (w_env u) = patience (w_env w)"
    "w_db u = w_db w" "w_parts u = restoring tp w" "pos (w_env u) = n + 1" "same (w_env w) (w_env u)"
    by (auto simp: at_loop_def same_time_def same_def first_pos_def)
  have "log_start (w_env w) \<le> leo (w_env w)" using log_shape w by (auto simp: settled_good_def)
  then have away: "position (first_vars (Some n)) \<noteq> leo (w_env u)"
    using out by (auto simp: first_vars_def first_position_def u)
  have "wp (replay_loop fuel ops cfg tp ctp deadline (Some n) (leo (w_env u)) (first_vars (Some n)))
      (reset_done tp u d1) u"
    by (rule loop_out_of_range [OF u(1) lim size _ away]) (use u out replay fuel in auto)
  then show ?case unfolding u(3)
    by (rule wp_mono) (use u in \<open>auto simp: reset_done_def same_def\<close>)
next
  case (2 r u)
  let ?k = "w_env w"
  let ?t = "if contents ?k = [] \<or> leo ?k < n + 1 then Some (leo ?k - 1) else None"
  have good: "good ?k" using w by (simp add: settled_good_def)
  note clamped = clamped_after_reset [OF good c(1) out replay]
  from 2 obtain v where v: "r = Ok (Some v)" "reset_occurred v" "reset_log_start v = log_start ?k"
      "replayed_after_reset v = length (contents ?k)" and u: "settled_good u" "same ?k (w_env u)"
    and finished: "w_db u = (if contents ?k = [] then w_db w else checkpoint_upsert d1 tp (leo ?k - 1))"
      "checkpoint_of (w_parts u) = (if contents ?k = [] then checkpoint_of (restoring tp w)
         else checkpoint_of (record_applied (restoring tp w) tp (leo ?k - 1)))"
      "log_end_of (w_parts u) = log_end_of (restoring tp w)"
    by (auto simp: reset_done_def split: if_splits)
  have target: "clamp_target (db_checkpoints (w_db u) tp) (leo ?k) (reset_log_start v) (replayed_after_reset v) = ?t"
    using clamped(2) v finished(1) by simp
  have repair: "(case ?t of None \<Rightarrow> w_db u | Some n \<Rightarrow> checkpoint_clamp (w_db u) tp n) = repaired tp (leo ?k) d1"
    using clamped(1) unfolding clamped(2) finished(1) .
  have memory: "checkpoint_of (case ?t of None \<Rightarrow> w_parts u | Some n \<Rightarrow> record_clamped (w_parts u) tp n) tp
      = Some (leo ?k - 1)"
    using finished(2) out c(2) by (auto simp: restoring_memory advanced_def max_def)
  have "wp (finish_rehydrate ops (cfg_busy_timeout cfg) tp (leo ?k) v) (recovered tp ?k d1) u"
    by (rule finish_reset_calm [OF u(1) v(2) u(2) target repair memory]) (simp add: finished(3) restoring_memory)
  with v(1) show ?case by simp
qed

lemma rehydrate_truncated_calm:
  assumes w: "settled_good w" and lim: "limit \<le> deadline" and size: "0 < cfg_batch_size cfg"
    and name: "ctp = \<lparr>tp_topic = name, tp_partition = 0\<rparr>" and fresh: "w_parts w tp = None"
    and c: "db_checkpoints (w_db w) tp = Some n"
    and out: "n + 1 < log_start (w_env w) \<or> leo (w_env w) < n + 1"
    and replay: "replayed (op_json ops) tp (contents (w_env w)) (w_db w) = Inr d1"
    and fuel: "length (contents (w_env w)) + patience (w_env w) < fuel"
  shows "wp (rehydrate_one fuel ops cfg tp name deadline) (recovered tp (w_env w) d1) w"
proof (rule rehydrate_prefix_calm [OF w name c fresh], goal_cases)
  case v: (1 v)
  then have e: "contents (w_env v) = contents (w_env w)" "log_start (w_env v) = log_start (w_env w)"
    "leo (w_env v) = leo (w_env w)" "patience (w_env v) = patience (w_env w)" "w_db v = w_db w"
    by (auto simp: same_time_def same_def)
  have "wp (replay_changelog fuel ops cfg tp ctp deadline (Some n) (leo (w_env v))) (recovered tp (w_env v) d1) v"
    by (rule replay_truncated_calm [OF v(1) lim size _ v(4)]) (use c out replay fuel e in auto)
  then show ?case by (rule wp_mono) (simp add: recovered_def e)
qed

end

section \<open>A changelog without records\<close>

text \<open>
  Without a checkpoint the first position is 0, whatever the log start is. Where nothing is
  retained and the log end is not 0, no fetch ever moves the position.
\<close>

context log_broker
begin

lemma iteration_empty:
  assumes w: "settled_good w" and lim: "limit \<le> deadline" and size: "0 < cfg_batch_size cfg"
    and pos: "log_start (w_env w) \<le> pos (w_env w)" "pos (w_env w) \<le> leo (w_env w)"
    and none: "contents (w_env w) = []"
  shows "wp (iteration ops cfg tp ctp deadline c l v) (\<lambda>r u. r = Ok (Some v) \<and> settled_good u
    \<and> same (w_env w) (w_env u) \<and> pos (w_env u) = pos (w_env w)) w"
proof -
  have g: "good (w_env w)" "w_saved w = None" using w by (auto simp: settled_good_def)
  obtain m k where fetch: "op_getmany ops ctp (cfg_batch_size cfg) (w_env w) = (Inr m, k)"
    and k: "m ctp = None \<or> m ctp = Some []" "same (w_env w) k" "pos k = pos (w_env w)"
    using getmany [OF g(1) pos size] none
    by (elim exE conjE, goal_cases) (case_tac "m ctp"; auto)
  let ?w = "w\<lparr>w_env := k\<rparr>"
  have "settled_good ?w" using g k(2) by (auto simp: settled_good_def same_def)
  from check_deadline_calm [OF this lim]
  have "wp (check_deadline ops bt tp deadline l v) (\<lambda>r u. r = Ok (Some v) \<and> settled_good u
      \<and> same (w_env w) (w_env u) \<and> pos (w_env u) = pos (w_env w)) ?w" for bt
    by (rule wp_mono) (use k in \<open>auto simp: calm_def same_def\<close>)
  then show ?thesis using k(1) by (auto simp: iteration_def Let_def fetch)
qed

lemma loop_empty:
  assumes "settled_good w" "limit \<le> deadline" "0 < cfg_batch_size cfg"
    "log_start (w_env w) \<le> pos (w_env w)" "pos (w_env w) \<le> leo (w_env w)"
    "contents (w_env w) = []" "position v \<noteq> l"
  shows "wp (replay_loop fuel ops cfg tp ctp deadline c l v) (\<lambda>r u. r = Running) w"
  using assms
proof (induction fuel arbitrary: w)
  case (Suc n)
  have "wp (io_bind (iteration ops cfg tp ctp deadline c l v) (\<lambda>next_vars. case next_vars of
      None \<Rightarrow> io_ret None
    | Some v' \<Rightarrow> replay_loop n ops cfg tp ctp deadline c l v')) (\<lambda>r u. r = Running) w"
    by (rule wp_bind_ok [OF iteration_empty [OF Suc.prems(1-6)]])
      (use Suc in \<open>auto simp: same_def\<close>)
  with Suc.prems(7) show ?case by (subst replay_loop.simps) simp
qed (subst replay_loop.simps, simp)

lemma rehydrate_empty_calm:
  assumes w: "settled_good w" and lim: "limit \<le> deadline" and size: "0 < cfg_batch_size cfg"
    and name: "ctp = \<lparr>tp_topic = name, tp_partition = 0\<rparr>" and fresh: "w_parts w tp = None"
    and none: "db_checkpoints (w_db w) tp = None" "contents (w_env w) = []" "leo (w_env w) \<noteq> 0"
  shows "wp (rehydrate_one fuel ops cfg tp name deadline) (\<lambda>r u. r = Running) w"
proof (rule rehydrate_prefix_calm [OF w name none(1) fresh], goal_cases)
  case v: (1 v)
  then have e: "contents (w_env v) = []" "leo (w_env v) \<noteq> 0" using none by (auto simp: same_time_def same_def)
  show ?case
  proof (rule replay_prefix_calm [OF v(1), where P = "\<lambda>r u. r = Running"], goal_cases)
    case (1 u)
    then have u: "settled_good u" "contents (w_env u) = []" "log_start (w_env u) \<le> pos (w_env u)"
      "pos (w_env u) \<le> leo (w_env u)"
      using e log_shape [of "w_env u"]
      by (auto simp: at_loop_def settled_good_def same_time_def same_def first_pos_def)
    show ?case
      by (rule loop_empty [OF u(1) lim size u(3,4,2)]) (use e in \<open>simp add: first_vars_def first_position_def\<close>)
  qed simp
qed

end

text \<open>The broker of the tests reports a position out of range.\<close>

interpretation truncating: truncating_broker "fake_same ctp limit" fake_ops ctp limit "calm_fake ctp limit"
    "\<lambda>k. kafka_records k ctp" "\<lambda>k. kafka_log_start k ctp" "\<lambda>k. kafka_log_end k ctp"
    "\<lambda>k. fake_position k ctp" fake_patience
  for ctp limit
proof (unfold_locales, simp_all only: fake_same_def [symmetric], goal_cases)
  case (1 k n)
  note same = fake_same_refl [OF 1(1)]
  show ?case
    using 1(1,2) same
    by (auto simp: fake_ops_def fake_getmany_def fake_fetch_def fake_patience_def calm_fake_def Let_def)
next
  case (2 k)
  then show ?case by (simp add: fake_ops_def fake_same_refl)
qed

section \<open>Recovery from a truncated changelog\<close>

text \<open>
  C7. A checkpoint the changelog no longer covers: its successor is below the log start
  (retention removed the head) or above the log end (the topic was recreated or lost its
  tail). If nothing fails outside, the rehydrate still returns: it resets to the earliest
  offset, inserts what the log retains without touching the rows it has, leaves the checkpoint
  at the log end, lower than before if need be, and reveals the partition, ready, at lag zero.
  One fetch more than a plain replay is enough fuel.
\<close>

theorem rehydrate_after_truncation:
  assumes broker: "truncating_broker ops ctp limit good contents log_start leo pos patience"
    and w: "good (w_env w)" "w_saved w = None" "w_parts w tp = None"
    and cfg: "limit \<le> deadline" "0 < cfg_batch_size cfg" "ctp = \<lparr>tp_topic = name, tp_partition = 0\<rparr>"
    and c: "db_checkpoints (w_db w) tp = Some n" "n + 1 < log_start (w_env w) \<or> leo (w_env w) < n + 1"
    and replay: "replayed (op_json ops) tp (contents (w_env w)) (w_db w) = Inr d1"
    and fuel: "length (contents (w_env w)) + patience (w_env w) < fuel"
  shows "wp (rehydrate_one fuel ops cfg tp name deadline) (\<lambda>r w'. r = Ok ()
    \<and> w_db w' = owned_insert (checkpoint_clamp d1 tp (leo (w_env w) - 1)) tp
    \<and> status_of (w_parts w') tp = Some READY
    \<and> Option.bind (partition_states (w_parts w') tp) ps_lag = Some 0) w"
proof -
  note quiet = truncating_broker.axioms(1) [OF broker]
  show ?thesis
    by (rule wp_mono [OF truncating_broker.rehydrate_truncated_calm [OF broker _ cfg w(3) c replay fuel,
          unfolded log_broker.settled_good_def [OF quiet]]])
      (use w in \<open>auto simp: truncating_broker.recovered_def [OF broker] truncating_broker.repaired_def [OF broker]\<close>)
qed

text \<open>The log of the sample, with its head removed behind a checkpoint at offset 0.\<close>

definition trimmed_log :: fake where
  "trimmed_log = kafka_trim sample_log sample_ctp 3"

lemma trimmed_log_contents [simp]:
  "kafka_records trimmed_log sample_ctp = [sample_change 3]"
  "kafka_log_start trimmed_log sample_ctp = 3" "kafka_log_end trimmed_log sample_ctp = 4"
  "fake_patience trimmed_log = 1"
  by (simp_all add: trimmed_log_def kafka_trim_def kafka_records_def kafka_log_start_def kafka_log_end_def
      sample_log_def sample_offsets fake_patience_def)

lemma trimmed_log_calm: "calm_fake sample_ctp 1 trimmed_log"
  using sample_log_calm
  by (simp add: calm_fake_def sample_offsets) (simp add: trimmed_log_def kafka_trim_def)

lemma rehydrate_after_truncation_witness:
  "wp (rehydrate_one 3 fake_ops test_settings sample_tp (lit ''m-0'') 1) (\<lambda>r w'. r = Ok ()
    \<and> w_db w' = owned_insert (checkpoint_clamp
        (empty_database\<lparr>db_records := [sample_row 3], db_checkpoints := [sample_tp \<mapsto> 0]\<rparr>) sample_tp (4 - 1)) sample_tp
    \<and> status_of (w_parts w') sample_tp = Some READY
    \<and> Option.bind (partition_states (w_parts w') sample_tp) ps_lag = Some 0)
   (boot trimmed_log (empty_database\<lparr>db_checkpoints := [sample_tp \<mapsto> 0]\<rparr>))"
proof (rule rehydrate_after_truncation [OF truncating.truncating_broker_axioms [of sample_ctp 1], where n = 0
      and w = "boot trimmed_log (empty_database\<lparr>db_checkpoints := [sample_tp \<mapsto> 0]\<rparr>)",
      simplified boot_simps trimmed_log_contents])
  show "replayed (op_json fake_ops) sample_tp [sample_change 3] (empty_database\<lparr>db_checkpoints := [sample_tp \<mapsto> 0]\<rparr>)
    = Inr (empty_database\<lparr>db_records := [sample_row 3], db_checkpoints := [sample_tp \<mapsto> 0]\<rparr>)"
    by (simp add: sample_change_def sample_classified sample_row_def insert_record_def
        replayed_record_def has_message_def)
qed (simp_all add: trimmed_log_calm sample_name [symmetric] test_settings_def)

text \<open>
  C34. A new reader of a changelog whose records have all been removed does not catch up: with
  no checkpoint, nothing retained and a log end other than 0, the rehydrate does not return
  before its deadline, however often it fetches, although there is nothing to replay.
\<close>

theorem emptied_changelog_waits:
  assumes broker: "log_broker ops ctp limit good contents log_start leo pos patience"
    and w: "good (w_env w)" "w_saved w = None" "w_parts w tp = None"
    and cfg: "limit \<le> deadline" "0 < cfg_batch_size cfg" "ctp = \<lparr>tp_topic = name, tp_partition = 0\<rparr>"
    and none: "db_checkpoints (w_db w) tp = None" "contents (w_env w) = []" "leo (w_env w) \<noteq> 0"
  shows "fst (rehydrate_one fuel ops cfg tp name deadline w) = Running"
proof -
  have "wp (rehydrate_one fuel ops cfg tp name deadline) (\<lambda>r u. r = Running) w"
    by (rule log_broker.rehydrate_empty_calm [OF broker _ cfg w(3) none])
      (use w in \<open>simp add: log_broker.settled_good_def [OF broker]\<close>)
  then show ?thesis by (simp add: wp_def split: prod.splits)
qed

definition emptied_log :: fake where
  "emptied_log = kafka_trim sample_log sample_ctp 4"

lemma emptied_log_contents [simp]:
  "kafka_records emptied_log sample_ctp = []" "kafka_log_end emptied_log sample_ctp = 4"
  by (simp_all add: emptied_log_def kafka_trim_def kafka_records_def kafka_log_end_def
      sample_log_def sample_offsets)

lemma emptied_log_calm: "calm_fake sample_ctp 1 emptied_log"
  using sample_log_calm
  by (simp add: calm_fake_def) (simp add: emptied_log_def kafka_trim_def kafka_log_start_def sample_log_def)

lemma emptied_changelog_waits_witness:
  "fst (rehydrate_one 1000 fake_ops test_settings sample_tp (lit ''m-0'') 1 (boot emptied_log empty_database)) = Running"
  by (rule emptied_changelog_waits [OF sample_fake_broker])
    (simp_all add: emptied_log_calm sample_name [symmetric] test_settings_def)

end
