(* ===== verification/Replay_Termination.thy ===== *)
theory Replay_Termination imports
  Assignment_Outcome Outside_Order
begin

text \<open>
  The replay loop returns when time passes. No call to the outside turns the clock back and
  every fetch takes at least \<open>delta\<close> (a poll without records blocks for its 200 ms): then
  the number of fetches before the deadline is bounded, so fuel proportional to the
  rehydrate timeout is enough for the whole assignment, from any state.
\<close>

locale progressing_clock = outside_order ops "\<lambda>k k'. now k \<le> now k'"
  for ops :: "'k ops" and now :: "'k \<Rightarrow> rat" +
  fixes delta :: rat
  assumes delta_pos: "0 < delta"
    and clock_reads: "fst (op_clock ops k) = now k"
    and fetch_takes: "now k + delta \<le> now (snd (op_getmany ops tp n k))"
begin

section \<open>The loop\<close>

text \<open>An iteration after which the loop goes on has seen the clock before the deadline.\<close>

lemma check_deadline_passed:
  "check_deadline ops bt tp deadline leo v w = (Ok (Some v'), w') \<Longrightarrow> now (w_env w) < deadline"
  using clock_reads [of "w_env w"]
  by (auto simp: check_deadline_def ask_def force_stop_def io_simps
      split: prod.splits res.splits if_splits)

lemma check_deadline_keeps_vars:
  "check_deadline ops bt tp deadline leo v w = (Ok (Some v'), w') \<Longrightarrow> v' = v"
  by (auto simp: check_deadline_def ask_def io_simps split: prod.splits res.splits if_splits)

lemma take_batch_passed:
  assumes "take_batch ops bt tp deadline leo rs v w = (Ok (Some v'), w')"
  shows "position v' = leo \<or> now (w_env w) < deadline"
proof -
  from assms obtain u where u: "materialize_batch ops bt tp rs w = (Ok (), u)"
    by (auto simp: take_batch_def io_bind_def split: prod.splits res.splits)
  have "now (w_env w) \<le> now (w_env u)"
    using keepsD [OF walk.materialize_batch [OF UNIV_I] u] by (simp add: moved_def)
  with assms u show ?thesis
    by (auto simp: take_batch_def io_bind_def io_ret_def Let_def split: if_splits
        dest!: check_deadline_passed)
qed

lemma reset_passed:
  assumes "io_bind (reset_to_earliest ops tp ctp c v) (check_deadline ops bt tp deadline leo) w
    = (Ok (Some v'), w')"
  shows "now (w_env w) < deadline"
proof -
  from assms obtain u x where u: "reset_to_earliest ops tp ctp c v w = (Ok x, u)"
    "check_deadline ops bt tp deadline leo x u = (Ok (Some v'), w')"
    by (auto simp: io_bind_def split: prod.splits res.splits)
  have "now (w_env w) \<le> now (w_env u)"
    using keepsD [OF walk.reset u(1)] by (simp add: moved_def)
  with check_deadline_passed [OF u(2)] show ?thesis by simp
qed

lemma iteration_progress:
  assumes "iteration ops cfg tp ctp deadline c leo v w = (Ok (Some v'), w')"
  shows "now (w_env w) + delta \<le> now (w_env w') \<and> (position v' = leo \<or> now (w_env w) + delta < deadline)"
proof -
  let ?bt = "cfg_busy_timeout cfg"
  obtain res k where fetch: "op_getmany ops ctp (cfg_batch_size cfg) (w_env w) = (res, k)" by fastforce
  let ?w = "w\<lparr>w_env := k\<rparr>"
  let ?handle = "\<lambda>fetched. case fetched of
      Inl e \<Rightarrow> if e = OffsetOutOfRange
        then io_bind (reset_to_earliest ops tp ctp c v) (check_deadline ops ?bt tp deadline leo)
        else io_raise e
    | Inr batch_map \<Rightarrow> (case batch_map ctp of
        None \<Rightarrow> check_deadline ops ?bt tp deadline leo v
      | Some rs \<Rightarrow> if rs = [] then check_deadline ops ?bt tp deadline leo v
          else take_batch ops ?bt tp deadline leo rs v)"
  have "io_attempt (call (op_getmany ops ctp (cfg_batch_size cfg))) w = (Ok res, ?w)"
    using fetch by (cases res) (simp_all add: io_attempt_def call_def)
  with assms have run: "?handle res ?w = (Ok (Some v'), w')"
    unfolding iteration_def Let_def by (simp add: io_bind_def [of "io_attempt _"])
  have tick: "now (w_env w) + delta \<le> now k"
    using fetch_takes [of "w_env w" ctp "cfg_batch_size cfg"] fetch by simp
  have "keeps moved (?handle res)"
    by (auto split: sum.split option.split
        intro!: walk.kept walk.reset walk.check_deadline walk.take_batch)
  from keepsD [OF this run] have "now k \<le> now (w_env w')" by (simp add: moved_def)
  moreover have "position v' = leo \<or> now k < deadline"
  proof (cases res)
    case (Inl e)
    with run show ?thesis using reset_passed [of tp ctp c v ?bt deadline leo ?w v' w']
      by (auto simp: io_raise_def split: if_splits)
  next
    case (Inr m)
    with run show ?thesis
      by (auto split: option.splits if_splits dest!: check_deadline_passed take_batch_passed)
  qed
  ultimately show ?thesis using tick by auto
qed

lemma halts_check_deadline [halts_intros]: "halts (check_deadline ops bt tp deadline leo v)"
  unfolding check_deadline_def force_stop_def reveal_def execute_in_txn_def by (intro halts_intros)

lemma halts_batch_work [halts_intros]: "halts (batch_work ops tp rs)"
  unfolding batch_work_def replay_record_def
  by (intro halts_intros) (auto split: classified.split intro: halts_intros)

lemma halts_iteration: "halts (iteration ops cfg tp ctp deadline c leo v)"
  unfolding iteration_def take_batch_def reset_to_earliest_def materialize_batch_def Let_def
  by (intro halts_intros) (auto split: sum.split option.split intro!: halts_intros)

lemma loop_returns:
  assumes "deadline - now (w_env w) + delta \<le> of_nat fuel * delta" "0 < fuel"
  shows "fst (replay_loop fuel ops cfg tp ctp deadline c leo v w) \<noteq> Running"
  using assms
proof (induction fuel arbitrary: v w)
  case (Suc n)
  show ?case
  proof (cases "position v = leo")
    case False
    obtain r w1 where it: "iteration ops cfg tp ctp deadline c leo v w = (r, w1)" by fastforce
    have "r \<noteq> Running" by (rule haltsD [OF halts_iteration it])
    moreover have "fst (replay_loop n ops cfg tp ctp deadline c leo v' w1) \<noteq> Running"
      if r: "r = Ok (Some v')" for v'
    proof (cases "position v' = leo")
      case True
      then show ?thesis by (subst replay_loop.simps) (simp add: io_ret_def)
    next
      case False
      with iteration_progress [OF it [unfolded r]]
      have p: "now (w_env w) + delta \<le> now (w_env w1)" "now (w_env w) + delta < deadline" by auto
      have b: "deadline - now (w_env w) \<le> of_nat n * delta"
        using Suc.prems(1) by (simp add: algebra_simps)
      have "0 < n" using p(2) b delta_pos by (cases n) auto
      moreover have "deadline - now (w_env w1) + delta \<le> of_nat n * delta" using b p(1) by simp
      ultimately show ?thesis using Suc.IH by blast
    qed
    ultimately show ?thesis using False
      by (subst replay_loop.simps)
        (auto simp: it io_bind_def io_ret_def split: res.split option.split)
  qed (subst replay_loop.simps, simp add: io_ret_def)
qed simp

section \<open>The assignment\<close>

text \<open>\<open>m\<close> returns when it is started at time \<open>t\<close> or later.\<close>

definition returns_from :: "rat \<Rightarrow> ('k, 'a) act \<Rightarrow> bool" where
  "returns_from t m \<longleftrightarrow> (\<forall>w. t \<le> now (w_env w) \<longrightarrow> fst (m w) \<noteq> Running)"

lemma returns_halts: "halts m \<Longrightarrow> returns_from t m"
  by (simp add: returns_from_def halts_def)

lemma returns_bind:
  assumes "returns_from t m" "keeps moved m" "\<And>x. returns_from t (f x)"
  shows "returns_from t (io_bind m f)"
  unfolding returns_from_def
proof (intro allI impI)
  fix w :: "'k world" assume t: "t \<le> now (w_env w)"
  obtain r v where m: "m w = (r, v)" by fastforce
  have "t \<le> now (w_env v)" using keepsD [OF assms(2) m] t by (simp add: moved_def)
  then have "fst (f x v) \<noteq> Running" for x using assms(3) [of x] by (simp add: returns_from_def)
  moreover have "r \<noteq> Running" using assms(1) t m by (metis returns_from_def fst_conv)
  ultimately show "fst (io_bind m f w) \<noteq> Running"
    by (simp add: io_bind_def m split: res.split)
qed

lemma returns_after: "halts m \<Longrightarrow> keeps moved m \<Longrightarrow> (\<And>x. returns_from t (f x)) \<Longrightarrow> returns_from t (io_bind m f)"
  by (rule returns_bind [OF returns_halts])

lemma returns_catch:
  assumes "returns_from t m" "\<And>e. halts (h e)"
  shows "returns_from t (io_catch m h)"
  unfolding returns_from_def
proof (intro allI impI)
  fix w :: "'k world" assume t: "t \<le> now (w_env w)"
  obtain r v where m: "m w = (r, v)" by fastforce
  have "r \<noteq> Running" using assms(1) t m by (metis returns_from_def fst_conv)
  moreover have "fst (h e v) \<noteq> Running" for e using assms(2) [of e] by (simp add: halts_def)
  ultimately show "fst (io_catch m h w) \<noteq> Running"
    by (simp add: io_catch_def m split: res.split)
qed

lemma returns_if: "(b \<Longrightarrow> returns_from t m) \<Longrightarrow> (\<not> b \<Longrightarrow> returns_from t n) \<Longrightarrow> returns_from t (if b then m else n)"
  by simp

lemma returns_loop:
  assumes "deadline - t + delta \<le> of_nat fuel * delta" "0 < fuel"
  shows "returns_from t (replay_loop fuel ops cfg tp ctp deadline c leo v)"
  unfolding returns_from_def
proof (intro allI impI)
  fix w :: "'k world" assume "t \<le> now (w_env w)"
  with assms(1) have "deadline - now (w_env w) + delta \<le> of_nat fuel * delta" by simp
  then show "fst (replay_loop fuel ops cfg tp ctp deadline c leo v w) \<noteq> Running"
    by (rule loop_returns [OF _ assms(2)])
qed

lemma halts_lifecycle [halts_intros]:
  "halts (read_checkpoint ops bt tp)" "halts (get_consumer ops)" "halts (end_offset ops ctp)"
  "halts (seek_start ops ctp c)" "halts (reveal ops bt tp)" "halts (execute_in_txn ops bt s)"
  "halts (apply_post_reset_clamps ops bt tp leo ls n)"
  "halts (case c of None \<Rightarrow> io_ret () | Some n \<Rightarrow> on_parts (\<lambda>m. record_applied m tp n))"
proof -
  have txn: "halts (execute_in_txn ops bt s)" for bt s
    unfolding execute_in_txn_def by (intro halts_intros)
  have read: "halts (read_checkpoint ops bt tp)" for bt tp
    unfolding read_checkpoint_def by (intro halts_intros)
  show "halts (read_checkpoint ops bt tp)" "halts (execute_in_txn ops bt s)" by (rule read txn)+
  show "halts (reveal ops bt tp)" unfolding reveal_def by (rule txn)
  show "halts (get_consumer ops)"
    unfolding get_consumer_def on_error_def suppress_exceptions_def by (intro halts_intros)
  show "halts (end_offset ops ctp)" unfolding end_offset_def by (intro halts_intros)
  show "halts (seek_start ops ctp c)"
    unfolding seek_start_def Let_def by (auto split: option.split intro!: halts_intros)
  show "halts (apply_post_reset_clamps ops bt tp leo ls n)"
    unfolding apply_post_reset_clamps_def
    by (intro halts_bind read) (auto split: option.split intro!: halts_intros txn)
  show "halts (case c of None \<Rightarrow> io_ret () | Some n \<Rightarrow> on_parts (\<lambda>m. record_applied m tp n))"
    by (auto split: option.split intro: halts_intros)
qed

lemma returns_rehydrate_one:
  assumes "deadline - t + delta \<le> of_nat fuel * delta" "0 < fuel"
  shows "returns_from t (rehydrate_one fuel ops cfg tp name deadline)"
proof -
  have finish: "halts (case outcome of None \<Rightarrow> io_ret ()
      | Some v \<Rightarrow> finish_rehydrate ops (cfg_busy_timeout cfg) tp leo v)" for outcome leo
    unfolding finish_rehydrate_def by (auto split: option.split intro!: halts_intros)
  show ?thesis unfolding rehydrate_one_def replay_changelog_def Let_def
    by (intro returns_after halts_lifecycle halts_calls walk.kept walk.seed [OF UNIV_I] walk.get_consumer walk.end_offset
        walk.seek_start UNIV_I
        returns_bind [OF returns_loop [OF assms] walk.replay_loop [OF UNIV_I TrueI] returns_halts [OF finish]])
qed

lemma halts_reveal_partial: "halts (reveal_partial_unreached ops cfg tp name)"
  unfolding reveal_partial_unreached_def Let_def by (intro halts_intros)

lemma returns_assign_one:
  assumes "deadline - t + delta \<le> of_nat fuel * delta" "0 < fuel"
  shows "returns_from t (assign_one fuel ops cfg deadline first tp)"
  unfolding assign_one_def
proof -
  have one: "returns_from t (io_seq (rehydrate_one fuel ops cfg tp name deadline) (io_ret False))" for name
    by (intro returns_bind [OF returns_rehydrate_one [OF assms] walk.rehydrate_one [OF UNIV_I TrueI]]
        returns_halts halts_intros)
  have other: "returns_from t (io_seq (reveal_partial_unreached ops cfg tp name) (io_ret first))" for name
    by (intro returns_halts halts_intros halts_reveal_partial)
  show "returns_from t (io_bind
      (ensure_and_verify ops (cfg_template cfg) (cfg_retention_ms cfg) (cfg_verify_policy cfg) tp)
      (\<lambda>name. io_bind (if first then io_ret False
          else io_bind (ask (op_clock ops)) (\<lambda>now. io_ret (now \<ge> deadline))) (\<lambda>late.
        if late then io_seq (reveal_partial_unreached ops cfg tp name) (io_ret first)
        else io_seq (rehydrate_one fuel ops cfg tp name deadline) (io_ret False))))"
    by (rule returns_after [OF halts_ensure walk.step_zero], rule returns_after)
      (intro halts_intros walk.kept, intro walk.kept, intro returns_if one other)
qed

lemma returns_assign_from:
  assumes "deadline - t + delta \<le> of_nat fuel * delta" "0 < fuel"
  shows "returns_from t (assign_from fuel ops cfg deadline tps first)"
proof (induction tps arbitrary: first)
  case (Cons tp tps)
  show ?case unfolding assign_from.simps
    by (intro returns_bind [OF returns_catch [OF returns_assign_one [OF assms]]] Cons
        keeps_catch walk.assign_one halts_intros walk.kept UNIV_I TrueI)
qed (simp add: returns_halts halts_intros)

lemma assigned_returns:
  assumes "cfg_rehydrate_timeout cfg + delta \<le> of_nat fuel * delta" "0 < fuel"
  shows "fst (on_partitions_assigned fuel ops cfg tps w) \<noteq> Running"
proof -
  obtain k where k: "op_clock ops (w_env w) = (now (w_env w), k)"
    using clock_reads [of "w_env w"] by (cases "op_clock ops (w_env w)") auto
  let ?deadline = "now (w_env w) + cfg_rehydrate_timeout cfg"
  have "now (w_env w) \<le> now k"
    using forward(1) k unfolding moves_def by (metis snd_conv)
  moreover have "?deadline - now (w_env w) + delta \<le> of_nat fuel * delta" using assms(1) by simp
  ultimately show ?thesis
    using returns_assign_from [OF _ assms(2), of ?deadline "now (w_env w)" cfg tps True]
    by (simp add: on_partitions_assigned_def ask_def k io_bind_def returns_from_def)
qed

end

section \<open>Properties\<close>

interpretation polling: progressing_clock polling_ops fk_clock "1 / 5"
  by unfold_locales
    (auto simp: polling_ops_def fake_ops_def moves_def fake_getmany_def fake_fetch_def
      fake_verdict_def fake_create_topics_def fake_describe_configs_def fake_seek_def
      fake_seek_to_beginning_def Let_def split: option.split list.split)

text \<open>
  C17. The rehydrate budget bounds the callback: if no call of the outside turns the clock back and
  every fetch takes at least \<open>delta\<close>, then fuel for \<open>rehydrate_timeout / delta + 1\<close> fetches
  is enough for every partition of every assignment, from any state: the hook returns or
  raises, also when the broker answers every fetch with no records, resets the position for
  ever, or ends the log below the position.
\<close>

theorem assignment_returns:
  assumes "progressing_clock ops now delta"
    and "cfg_rehydrate_timeout cfg + delta \<le> of_nat fuel * delta" "0 < fuel"
  shows "fst (on_partitions_assigned fuel ops cfg tps w) \<noteq> Running"
  by (rule progressing_clock.assigned_returns [OF assms])

lemma assignment_returns_witness:
  "fst (on_partitions_assigned 151 polling_ops test_settings [sample_tp]
      (boot (fake_start\<lparr>fk_next_offsets := [\<lparr>tp_topic = lit ''m.p0.changelog'', tp_partition = 0\<rparr> \<mapsto> 7]\<rparr>)
        empty_database)) \<noteq> Running"
  by (rule assignment_returns [OF polling.progressing_clock_axioms]) (simp_all add: test_settings_def)

end
