(* ===== verification/Spec2Isabelle.thy ===== *)
theory Spec2Isabelle imports
  Store_Lifecycle Durability Append_Visibility Start_Overlap Concurrent_Appends Replay_Truncation Replay_Termination
begin

text \<open>
  A verification library for ksqlite, the embedded SQLite store whose rows are rebuilt from
  Kafka changelog topics. The code is \<^verbatim>\<open>src/src/ksqlite\<close>; file names below are relative to it.

  \<^bold>\<open>The program.\<close> A \<^verbatim>\<open>KSQLite\<close> store (\<^verbatim>\<open>_store.py\<close>) belongs to a process that consumes source
  partitions. \<^verbatim>\<open>append\<close> (\<^verbatim>\<open>_write.py\<close>) produces a record to the changelog of its partition and
  then writes the row and the checkpoint in one transaction. The rebalance hooks
  (\<^verbatim>\<open>_lifecycle.py\<close>) make the rows of an assigned partition complete, by replaying its
  changelog from the checkpoint, and visible, by its row in \<^verbatim>\<open>owned_partitions\<close>; a revocation
  takes that row away and keeps everything else. Queries (\<^verbatim>\<open>_read.py\<close>) see the \<^verbatim>\<open>records\<close> view,
  that is the owned partitions. Under them: the connection pool with checkout hygiene and the
  transaction runner (\<^verbatim>\<open>_pool.py\<close>), the schema with its migration and DML (\<^verbatim>\<open>_schema.py\<close>), the
  changelog topics (\<^verbatim>\<open>_topics.py\<close>), the record format (\<^verbatim>\<open>_wire.py\<close>), the partition state machine
  (\<^verbatim>\<open>_state.py\<close>) and the validators and emitters of SQL text (\<^verbatim>\<open>_sql.py\<close>).

  \<^bold>\<open>The model.\<close> An operation is a function from a world to a result and a world; a result is a
  value (\<open>Ok\<close>), a raised exception (\<open>Exn\<close>) or \<open>Running\<close>, a loop that used its fuel up. The world
  (\<open>Ksqlite_World\<close>) holds the database as the connection in use sees it, the snapshot an open
  transaction would roll back to, the connection flags, the partition machine, the cache of
  Step 0, the log lines, and the state of the outside, of any type. Everything the code calls
  and does not contain is a field of the record \<open>ops\<close> or \<open>clients\<close>, a function on that state:
  it may fail with any exception, take any time, or answer anything. What a property relies on
  beyond that is a named assumption, most of them a locale, and every locale is interpreted.

  \<^bold>\<open>Theories.\<close>
  \<^item> \<open>Ksqlite_Prelude\<close>: text as code points, bytes, the exceptions of \<^verbatim>\<open>errors.py\<close> and of the
    libraries, the effect monad, its weakest preconditions \<open>wp\<close>, preorders kept by programs.
  \<^item> \<open>Py_Text\<close>: what the code uses of \<^verbatim>\<open>str\<close> and \<^verbatim>\<open>bytes\<close> (the UTF-8 codec, \<^verbatim>\<open>str.format\<close>,
    \<^verbatim>\<open>re.fullmatch\<close> classes, UUID text). \<open>Ksqlite_Types\<close>: the value types of \<^verbatim>\<open>types.py\<close>.
  \<^item> \<open>Sql_Text\<close>: \<^verbatim>\<open>_sql.py\<close>. \<open>Wire_Format\<close>: \<^verbatim>\<open>_wire.py\<close>. \<open>Partition_State\<close>: \<^verbatim>\<open>_state.py\<close>.
  \<^item> \<open>Sql_Store\<close>: the tables, the catalog and the statements of \<^verbatim>\<open>_schema.py\<close> with their effects.
    \<open>Materialization\<close>: its write statements as both write paths use them. \<open>Schema_Migration\<close>: its
    migration. \<open>Schema_Engine\<close>: what the migration establishes over an SQL engine.
  \<^item> \<open>Fake_Kafka\<close>: the broker and producer of \<^verbatim>\<open>tests/support/fakes.py\<close>, the concrete outside of
    the witnesses. \<open>Connection_Pool\<close>: \<^verbatim>\<open>_pool.py\<close>. \<open>Changelog_Topics\<close>: \<^verbatim>\<open>_topics.py\<close>.
  \<^item> \<open>Partition_Lifecycle\<close>: \<^verbatim>\<open>_lifecycle.py\<close>. \<open>Assignment_Steps\<close>, \<open>Table_Relations\<close> and
    \<open>Outside_Order\<close> walk over its code once, for relations between worlds, between tables, and
    between states of the outside. \<open>Assignment_Outcome\<close>: what the hooks leave behind.
    \<open>Replay_Contract\<close>, \<open>Replay_Correctness\<close>: what a replay computes when nothing fails.
    \<open>Replay_Truncation\<close>: the reset and its clamps. \<open>Replay_Termination\<close>: that it returns.
  \<^item> \<open>Append_Path\<close>: \<^verbatim>\<open>_write.py\<close> and \<^verbatim>\<open>_ids.py\<close>. \<open>Read_Path\<close>: \<^verbatim>\<open>_read.py\<close>.
  \<^item> \<open>Store_Facade\<close>: \<^verbatim>\<open>_store.py\<close>. \<open>Store_Start\<close>: what \<^verbatim>\<open>start\<close> establishes. \<open>Store_Lifecycle\<close>:
    appends and stops interleaved. \<open>Store_History\<close>: sequences of calls and crashes.
    \<open>Append_Visibility\<close>: a query after an append. \<open>Concurrent_Appends\<close>: appends split at their
    \<^verbatim>\<open>await\<close>s. \<open>Store_Phases\<close>: the order of the phases. \<open>Start_Overlap\<close>: starts that overlap.
    \<open>Changelog_Source\<close>, \<open>Durability\<close>: where rows come from, and a database that is lost.

  \<^bold>\<open>What the theorems show.\<close>
  \<^item> \<^emph>\<open>Durability\<close>, over all histories of public calls, failures, crashes and restarts: the store
    stays well-formed, an acknowledged append keeps exactly one row, every row is backed by a
    record of its changelog, and a lost database is rebuilt from the changelog.
  \<^item> \<^emph>\<open>Rebalancing\<close>: when an assignment returns, all its partitions are revealed, and when it
    raises, exactly those before the failing one; a replay computes the reference replay, also
    when it resumes and when the changelog was truncated; an assignment touches assigned
    partitions only; it returns if time passes; a revocation hides and keeps.
  \<^item> \<^emph>\<open>Writing\<close>: an append that returns produced one record and committed its row and checkpoint;
    one that raises left the tables alone, up to a cancellation of the commit; replaying what was
    appended changes nothing, in any order and batch size. However appends interleave, none whose
    transaction committed is lost, and the order in which they commit does not matter.
  \<^item> \<^emph>\<open>Transactions\<close>: all or nothing under any schedule of busy errors, aborts and cancellations,
    at most three attempts, no raw \<^verbatim>\<open>sqlite3.Error\<close>, and a clean connection at every checkout.
  \<^item> \<^emph>\<open>Reading\<close>: a query changes nothing whatever the statement of the host is, does not depend
    on rows of partitions the store does not own, and sees an append that returned before it
    exactly when the store owns its partition.
  \<^item> \<^emph>\<open>Schema\<close>: a migration keeps the data, and a second one executes no DDL.
  \<^item> \<^emph>\<open>Stopping\<close>: no client is closed while an append is in flight, none twice, and a stop that
    waits or closes ends; the calls of the facade refine that step relation; phases only
    advance, as long as no \<^verbatim>\<open>start\<close> is called while another runs; a start that overlaps another
    one abandons its clients.
  \<^item> \<^emph>\<open>Text\<close>: records are classified as what was encoded, string literals are read back as they
    were, distinct column declarations have distinct clauses.
  \<^item> Some theorems show what the code does where its documents say otherwise, or where it fails:
    the changelog that was emptied, an append to a partly replayed partition, a drifted column
    behind a longer name, a stop cancelled while it drains, an error of the query pragma.

  \<^bold>\<open>Bounds and fuel.\<close> The one unbounded loop is the replay loop; its fuel counts fetches, and
  \<open>Running\<close> means it has not returned after that many. Every property that says an assignment
  returns gives enough fuel: one fetch per record and per empty poll when nothing fails, the
  rehydrate budget over the time a fetch takes otherwise. The batch size is any positive number
  (500 by default). The transaction runner recurses on the attempts it has left, three at most.
  Offsets are unbounded integers as in Python; bytes are 8-bit words; times are rationals.

  \<^bold>\<open>Not modelled, and why.\<close> The clients of aiokafka, the pool library, the SQLite engine (what a
  statement of the host does, and how DDL text becomes a catalog), \<^verbatim>\<open>json\<close>, the UUID generator,
  the clock and the scheduler are libraries: they are arguments. One pool is in use, the
  injected pool being another value of the same argument. Log lines are events without their
  text, and so are the messages of exceptions where the code does not read them; the drift
  check is the one that builds its message from two texts, and only the text it compares is
  modelled. \<^verbatim>\<open>__init__.py\<close> re-exports. The protocols of \<^verbatim>\<open>types.py\<close> are interfaces: their methods
  are fields of \<open>ops\<close>. Of the modelled files, docstrings, class headers and the assignments of
  constructor arguments to attributes correspond to no definition.
\<close>

end
